(* ===== verification/Nexus_Prelude.thy ===== *)
theory Nexus_Prelude
  imports
    Main
    "HOL-Library.Word"
    "HOL-Library.Finite_Map"
    "HOL-Library.Multiset"
    "HOL-Library.Char_ord"
    "HOL-Library.List_Lexorder"
    "HOL-Library.Product_Lexorder"
begin

text \<open>
  The vocabulary shared by every component theory: Go's maps as finite maps (with the
  length and the sums the code computes over them), Go's instants and saturating
  durations, \<open>strings.EqualFold\<close>, and the collections of facts the component proofs pass to
  the simplifier.

  Conventions. A Go \<^verbatim>\<open>map\<close> is an \<open>('k, 'v) fmap\<close>: finite by construction, so \<open>len\<close> is a
  cardinality. A Go \<^verbatim>\<open>string\<close> is a list of bytes, HOL's \<open>string\<close>; the order on strings is the
  lexicographic byte order of Go's \<open>sort.Strings\<close>. A Go error is a constructor of an error
  datatype of the component, and a fallible operation returns a sum with the error on the left.
\<close>

named_theorems go_defs \<open>unfolding rules of the small helpers a proof usually opens\<close>
named_theorems inv_intros \<open>preservation facts: an operation keeps its component's invariant\<close>

section \<open>Finite maps: length and sums\<close>

definition go_len :: "('k, 'v) fmap \<Rightarrow> nat" where
  "go_len m = fcard (fmdom m)"

lemma go_len_empty [simp]: "go_len fmempty = 0"
  by (simp add: go_len_def)

lemma go_len_upd [simp]:
  "go_len (fmupd k v m) = (if fmlookup m k = None then Suc (go_len m) else go_len m)"
proof (cases "fmlookup m k")
  case None
  then have "k |\<notin>| fmdom m" by (simp add: fmdom_notI)
  then show ?thesis by (simp add: go_len_def fcard_finsert_if None)
next
  case (Some w)
  then have "k |\<in>| fmdom m" by (rule fmdomI)
  then show ?thesis by (simp add: go_len_def fcard_finsert_if Some)
qed

lemma go_len_drop:
  "go_len (fmdrop k m) = (if fmlookup m k = None then go_len m else go_len m - 1)"
proof (cases "fmlookup m k")
  case None
  then have "fmdom m |-| {|k|} = fmdom m" by (auto intro!: fset_eqI simp: fmdom_notI fmlookup_dom_iff)
  then show ?thesis by (simp add: go_len_def None)
next
  case (Some w)
  then have "k |\<in>| fmdom m" by (rule fmdomI)
  then show ?thesis by (simp add: go_len_def fcard_fminus_fsingleton Some)
qed

lemma go_len_drop_Some: "fmlookup m k = Some v \<Longrightarrow> Suc (go_len (fmdrop k m)) = go_len m"
  by (auto simp: go_len_drop go_len_def fcard_fminus_fsingleton
        intro!: Suc_pred dest!: fmdomI) (metis fcard_fempty fcard_0_eq fempty_iff not_gr_zero)

lemma go_len_card: "go_len m = card (fset (fmdom m))"
  by (simp add: go_len_def fcard.rep_eq)

lemma go_len_filter_le: "go_len (fmfilter P m) \<le> go_len m"
  by (auto simp: go_len_def intro!: fcard_mono)

lemma go_len_eq_0 [simp]: "go_len m = 0 \<longleftrightarrow> m = fmempty"
  by (auto simp: go_len_def intro: fmap_ext) (metis fmap_ext fmdom_empty fmdom_notD fempty_iff)

lemma go_len_pos: "fmlookup m k = Some v \<Longrightarrow> 0 < go_len m"
  by (cases "go_len m") auto

text \<open>The sum of a measure over the values of a map, as the code's running totals see it.\<close>

definition fmsum :: "('v \<Rightarrow> int) \<Rightarrow> ('k, 'v) fmap \<Rightarrow> int" where
  "fmsum f m = (\<Sum>k \<in> fset (fmdom m). case fmlookup m k of None \<Rightarrow> 0 | Some v \<Rightarrow> f v)"

lemma fmsum_empty [simp]: "fmsum f fmempty = 0"
  by (simp add: fmsum_def)

lemma fmsum_notin:
  assumes "fmlookup m k = None"
  shows "fmsum f (fmupd k v m) = f v + fmsum f m"
proof -
  have "k \<notin> fset (fmdom m)" using assms by (simp add: fmdom_notI)
  then show ?thesis
    by (auto simp: fmsum_def intro!: sum.cong)
qed

lemma fmsum_drop:
  assumes "fmlookup m k = Some v"
  shows "fmsum f (fmdrop k m) = fmsum f m - f v"
proof -
  have k: "k \<in> fset (fmdom m)" using assms by (simp add: fmdomI)
  have "fmsum f m = f v + (\<Sum>j \<in> fset (fmdom m) - {k}.
      case fmlookup m j of None \<Rightarrow> 0 | Some v \<Rightarrow> f v)"
    unfolding fmsum_def by (subst sum.remove[OF _ k]) (simp_all add: assms)
  moreover have "fmsum f (fmdrop k m) = (\<Sum>j \<in> fset (fmdom m) - {k}.
      case fmlookup m j of None \<Rightarrow> 0 | Some v \<Rightarrow> f v)"
    unfolding fmsum_def by (auto intro!: sum.cong)
  ultimately show ?thesis by simp
qed

lemma fmsum_drop_None: "fmlookup m k = None \<Longrightarrow> fmsum f (fmdrop k m) = fmsum f m"
  by (metis fmdrop_idle' fmdom_notI fmdrop_idle)

lemma fmsum_upd:
  "fmsum f (fmupd k v m) =
     fmsum f m + f v - (case fmlookup m k of None \<Rightarrow> 0 | Some w \<Rightarrow> f w)"
proof (cases "fmlookup m k")
  case None
  then show ?thesis by (simp add: fmsum_notin)
next
  case (Some w)
  have "fmupd k v m = fmupd k v (fmdrop k m)" by (auto intro: fmap_ext)
  then have "fmsum f (fmupd k v m) = f v + fmsum f (fmdrop k m)" by (simp add: fmsum_notin)
  then show ?thesis by (simp add: fmsum_drop [OF Some] Some)
qed

lemma fmsum_nonneg: "(\<And>v. 0 \<le> f v) \<Longrightarrow> 0 \<le> fmsum f m"
  unfolding fmsum_def by (intro sum_nonneg) (auto split: option.split)

lemma fmsum_ge_elem:
  assumes "fmlookup m k = Some v" and "\<And>v. 0 \<le> f v"
  shows "f v \<le> fmsum f m"
  using fmsum_drop [OF assms(1), of f] fmsum_nonneg [of f "fmdrop k m"] assms(2) by simp

text \<open>
  A Go \<open>range\<close> over a map visits every key once in an unspecified order. Definitions whose result may
  depend on it take the enumeration as an argument.
\<close>

definition range_order :: "('k fset \<Rightarrow> 'k list) \<Rightarrow> bool" where
  "range_order ord \<longleftrightarrow> (\<forall>A. distinct (ord A) \<and> set (ord A) = fset A)"

lemma range_orderD: "range_order ord \<Longrightarrow> distinct (ord A)" "range_order ord \<Longrightarrow> set (ord A) = fset A"
  by (simp_all add: range_order_def)

lemma range_order_sorted: "range_order sorted_list_of_fset"
  by (simp add: range_order_def sorted_list_of_fset.rep_eq)

section \<open>Instants and durations\<close>

text \<open>
  A \<open>time.Time\<close> is its instant in nanoseconds since the zero time, so \<open>t.IsZero()\<close> is
  \<open>t = 0\<close> and \<open>t.Before(u)\<close> is \<open>t < u\<close>. \<open>t.Sub(u)\<close> is a signed 64-bit duration and saturates at
  both ends, which matters when one operand is the zero time.
\<close>

type_synonym time = int
type_synonym duration = int

definition max_duration :: duration where "max_duration = 9223372036854775807"
definition min_duration :: duration where "min_duration = -9223372036854775808"

definition time_sub :: "time \<Rightarrow> time \<Rightarrow> duration" where
  "time_sub t u = (if max_duration < t - u then max_duration
                   else if t - u < min_duration then min_duration else t - u)"

definition second :: duration where "second = 1000000000"
definition millisecond :: duration where "millisecond = 1000000"

lemmas time_defs = time_sub_def max_duration_def min_duration_def second_def millisecond_def

lemma time_sub_self [simp]: "time_sub t t = 0"
  by (simp add: time_defs)

lemma time_sub_mono: "t \<le> t' \<Longrightarrow> time_sub t u \<le> time_sub t' u"
  by (auto simp: time_defs)

definition max_time :: "time \<Rightarrow> time \<Rightarrow> time" where
  "max_time a b = (if b < a then a else b)"

lemma max_time_max [simp]: "max_time a b = max a b"
  by (simp add: max_time_def max_def)

section \<open>Case-insensitive comparison\<close>

text \<open>
  \<open>strings.EqualFold\<close> against an ASCII literal. Unicode simple folding identifies exactly two
  non-ASCII code points with ASCII letters: U+017F (bytes C5 BF) with \<open>s\<close> and U+212A (bytes
  E2 84 AA) with \<open>k\<close>. Rewriting those two sequences and lowering ASCII capitals is therefore
  the fold relation whenever one side is ASCII, as it is at every call modelled here.
\<close>

definition ascii_lower :: "char \<Rightarrow> char" where
  "ascii_lower c =
     (if 65 \<le> (of_char c :: nat) \<and> (of_char c :: nat) \<le> 90 then char_of ((of_char c :: nat) + 32) else c)"

fun fold_norm :: "string \<Rightarrow> string" where
  "fold_norm [] = []"
| "fold_norm (c # cs) =
     (if c = CHR 0xC5 \<and> cs \<noteq> [] \<and> hd cs = CHR 0xBF then CHR ''s'' # fold_norm (tl cs)
      else if c = CHR 0xE2 \<and> take 2 cs = [CHR 0x84, CHR 0xAA] then CHR ''k'' # fold_norm (drop 2 cs)
      else ascii_lower c # fold_norm cs)"

definition equal_fold :: "string \<Rightarrow> string \<Rightarrow> bool" where
  "equal_fold s t \<longleftrightarrow> fold_norm s = fold_norm t"

lemma equal_fold_refl [simp]: "equal_fold s s"
  by (simp add: equal_fold_def)

lemma equal_fold_trans: "equal_fold s t \<Longrightarrow> equal_fold s u \<Longrightarrow> fold_norm t = fold_norm u"
  by (simp add: equal_fold_def)

section \<open>Lists\<close>

lemma find_Some_iff2: "find P xs = Some x \<Longrightarrow> P x \<and> x \<in> set xs"
  by (induction xs) (auto split: if_splits)

lemma sum_list_nonneg_int: "(\<And>x. x \<in> set xs \<Longrightarrow> (0::int) \<le> f x) \<Longrightarrow> 0 \<le> sum_list (map f xs)"
  by (induction xs) auto

end
