(* ===== verification/Net_Addr.thy ===== *)
theory Net_Addr
  imports Nexus_Prelude
begin

text \<open>
  The parts of Go's \<open>net\<close> and \<open>net/netip\<close> packages the program uses on IPv4: the dotted
  rendering \<open>IP.String()\<close> and its parser, the 4-byte and 16-byte forms of \<open>net.IP\<close>
  (\<open>To4\<close>, \<open>Equal\<close>), netmasks and CIDR strings, and \<open>netip.Addr\<close> with its \<open>Unmap\<close>. These are
  standard-library operations, so nothing here is mapped to a line of the repository.

  An IPv4 address is the big-endian 32-bit number of its four bytes. The rendering is proved
  injective by a parse/print round trip: maps keyed by rendered addresses therefore
  distinguish exactly the addresses.
\<close>

unbundle bit_operations_syntax

type_synonym ipv4 = "32 word"
type_synonym byte = "8 word"

section \<open>Decimal numbers\<close>

definition digit :: "nat \<Rightarrow> char" where
  "digit n = char_of (48 + n)"

definition is_digit :: "char \<Rightarrow> bool" where
  "is_digit c \<longleftrightarrow> 48 \<le> (of_char c :: nat) \<and> (of_char c :: nat) \<le> 57"

definition digit_val :: "char \<Rightarrow> nat" where
  "digit_val c = of_char c - 48"

text \<open>\<open>strconv.Itoa\<close> on naturals, and the value of a digit string.\<close>

fun dec :: "nat \<Rightarrow> string" where
  "dec n = (if n < 10 then [digit n] else dec (n div 10) @ [digit (n mod 10)])"

declare dec.simps [simp del]

definition undec :: "string \<Rightarrow> nat" where
  "undec s = foldl (\<lambda>a c. 10 * a + digit_val c) 0 s"

lemma digit_0 [simp]: "digit 0 = CHR ''0''"
  by (simp add: digit_def char_of_eq_iff)

lemma is_digit_digit [simp]: "n < 10 \<Longrightarrow> is_digit (digit n)"
  by (simp add: is_digit_def digit_def)

lemma digit_val_digit [simp]: "n < 10 \<Longrightarrow> digit_val (digit n) = n"
  by (simp add: digit_val_def digit_def)

lemma undec_dec [simp]: "undec (dec n) = n"
proof (induction n rule: dec.induct)
  case (1 n)
  show ?case
    using 1 by (subst dec.simps) (auto simp: undec_def)
qed

lemma dec_inj [simp]: "dec m = dec n \<longleftrightarrow> m = n"
  by (metis undec_dec)

lemma dec_not_Nil [simp]: "dec n \<noteq> []"
  by (subst dec.simps) simp

lemma dec_digits: "c \<in> set (dec n) \<Longrightarrow> is_digit c"
proof (induction n rule: dec.induct)
  case (1 n)
  then show ?case by (subst (asm) dec.simps) (auto split: if_splits)
qed

lemma dec_hd: "dec n = c # cs \<Longrightarrow> c = CHR ''0'' \<Longrightarrow> n = 0"
proof (induction n arbitrary: c cs rule: dec.induct)
  case (1 n)
  show ?case
  proof (cases "n < 10")
    case True
    then have "digit n = CHR ''0''" using "1.prems" by (subst (asm) dec.simps) simp
    then have "digit_val (digit n) = digit_val (CHR ''0'')" by simp
    then show ?thesis using True by (simp add: digit_val_def [of "CHR ''0''"])
  next
    case False
    obtain d ds where d: "dec (n div 10) = d # ds" by (cases "dec (n div 10)") auto
    have "d = CHR ''0''" using "1.prems" False d by (subst (asm) dec.simps) simp
    then have "n div 10 = 0" using "1.IH" [OF False d] by simp
    then show ?thesis using False by simp
  qed
qed

section \<open>Splitting at a separator\<close>

text \<open>\<open>strings.Split(s, string(c))\<close>: one piece more than separators.\<close>

fun split_on :: "char \<Rightarrow> string \<Rightarrow> string list" where
  "split_on c [] = [[]]"
| "split_on c (x # xs) =
     (if x = c then [] # split_on c xs
      else (case split_on c xs of [] \<Rightarrow> [[x]] | p # ps \<Rightarrow> (x # p) # ps))"

lemma split_on_not_Nil [simp]: "split_on c s \<noteq> []"
  by (induction s) (auto split: list.split)

lemma split_on_no_sep: "c \<notin> set s \<Longrightarrow> split_on c s = [s]"
  by (induction s) auto

lemma split_on_append: "c \<notin> set p \<Longrightarrow> split_on c (p @ c # s) = p # split_on c s"
  by (induction p) auto

section \<open>Dotted IPv4 notation\<close>

definition octet :: "nat \<Rightarrow> ipv4 \<Rightarrow> nat" where
  "octet i a = unat (drop_bit (8 * i) a) mod 256"

definition ip_string :: "ipv4 \<Rightarrow> string" where
  "ip_string a = dec (octet 3 a) @ ''.'' @ dec (octet 2 a) @ ''.'' @ dec (octet 1 a) @ ''.'' @ dec (octet 0 a)"

text \<open>\<open>netip.parseIPv4\<close>: four fields, each of digits without a leading zero and at most 255.\<close>

definition parse_octet :: "string \<Rightarrow> nat option" where
  "parse_octet s =
     (if s \<noteq> [] \<and> (\<forall>c \<in> set s. is_digit c) \<and> (hd s = CHR ''0'' \<longrightarrow> s = ''0'') \<and> undec s \<le> 255
      then Some (undec s) else None)"

definition ipv4_of :: "nat \<Rightarrow> nat \<Rightarrow> nat \<Rightarrow> nat \<Rightarrow> ipv4" where
  "ipv4_of a b c d = word_of_nat (((a * 256 + b) * 256 + c) * 256 + d)"

definition parse_ipv4 :: "string \<Rightarrow> ipv4 option" where
  "parse_ipv4 s =
     (case map parse_octet (split_on CHR ''.'' s) of
        [Some a, Some b, Some c, Some d] \<Rightarrow> Some (ipv4_of a b c d)
      | _ \<Rightarrow> None)"

lemma octet_less [simp]: "octet i a < 256"
  by (simp add: octet_def)

lemma parse_octet_dec [simp]: "n < 256 \<Longrightarrow> parse_octet (dec n) = Some n"
proof -
  assume n: "n < 256"
  obtain c cs where c: "dec n = c # cs" by (cases "dec n") auto
  have "c = CHR ''0'' \<longrightarrow> c # cs = ''0''"
  proof
    assume z: "c = CHR ''0''"
    then have "n = 0" using dec_hd [OF c] by simp
    then have "dec n = ''0''" by (subst dec.simps) simp
    then show "c # cs = ''0''" using c by simp
  qed
  moreover have "\<forall>x \<in> set (c # cs). is_digit x" using dec_digits c by metis
  moreover have "undec (c # cs) = n" using undec_dec [of n] c by simp
  ultimately show ?thesis using n c by (simp add: parse_octet_def)
qed

lemma dot_notin_dec [simp]: "CHR ''.'' \<notin> set (dec n)"
  using dec_digits [of "CHR ''.''" n] by (auto simp: is_digit_def)

lemma base256: "256 * q1 + r0 = n \<Longrightarrow> 256 * q2 + r1 = q1 \<Longrightarrow> 256 * q3 + r2 = q2 \<Longrightarrow> r3 = q3 \<Longrightarrow>
    ((r3 * 256 + r2) * 256 + r1) * 256 + r0 = (n::nat)"
  by (simp add: algebra_simps)

lemma bytes4:
  assumes "(n::nat) < 4294967296"
  shows "((n div 16777216 mod 256 * 256 + n div 65536 mod 256) * 256 + n div 256 mod 256) * 256 + n mod 256 = n"
proof (rule base256)
  show "256 * (n div 256) + n mod 256 = n" by simp
  show "256 * (n div 65536) + n div 256 mod 256 = n div 256"
    using mult_div_mod_eq [of 256 "n div 256"] by (simp add: div_mult2_eq [symmetric])
  show "256 * (n div 16777216) + n div 65536 mod 256 = n div 65536"
    using mult_div_mod_eq [of 256 "n div 65536"] by (simp add: div_mult2_eq [symmetric])
  show "n div 16777216 mod 256 = n div 16777216"
    using assms by (simp add: less_mult_imp_div_less)
qed

lemma ipv4_of_octets: "ipv4_of (octet 3 a) (octet 2 a) (octet 1 a) (octet 0 a) = a"
proof -
  let ?n = "unat a"
  have n: "?n < 4294967296" using unsigned_less [of a, where 'a = nat] by simp
  have o: "octet i a = (?n div 2 ^ (8 * i)) mod 256" for i
    unfolding octet_def unat_drop_bit_eq by (simp add: drop_bit_eq_div)
  have "((octet 3 a * 256 + octet 2 a) * 256 + octet 1 a) * 256 + octet 0 a = ?n"
    unfolding o
  proof -
    have e: "(2::nat) ^ (8 * 3) = 16777216" "(2::nat) ^ (8 * 2) = 65536" "(2::nat) ^ (8 * 1) = 256"
      "(2::nat) ^ (8 * 0) = 1"
      by simp_all
    show "((?n div 2 ^ (8 * 3) mod 256 * 256 + ?n div 2 ^ (8 * 2) mod 256) * 256
        + ?n div 2 ^ (8 * 1) mod 256) * 256 + ?n div 2 ^ (8 * 0) mod 256 = ?n"
      unfolding e div_by_1 by (rule bytes4 [OF n])
  qed
  then show ?thesis by (simp add: ipv4_of_def)
qed

theorem parse_ip_string [simp]: "parse_ipv4 (ip_string a) = Some a"
  by (simp add: parse_ipv4_def ip_string_def split_on_append split_on_no_sep ipv4_of_octets
        del: One_nat_def)

lemma ip_string_inj [simp]: "ip_string a = ip_string b \<longleftrightarrow> a = b"
  by (metis option.inject parse_ip_string)

lemma ip_string_not_Nil [simp]: "ip_string a \<noteq> []"
  by (simp add: ip_string_def)

section \<open>\<open>net.IP\<close>: byte slices\<close>

text \<open>
  A \<open>net.IP\<close> is a byte slice; \<open>To4\<close> accepts the 4-byte form and the 16-byte form with the
  IPv4-in-IPv6 prefix, and is \<open>nil\<close> otherwise. \<open>Equal\<close> compares the two forms across.
\<close>

type_synonym net_ip = "byte list"

definition ipv4_bytes :: "ipv4 \<Rightarrow> net_ip" where
  "ipv4_bytes a = map (\<lambda>i. word_of_nat (octet i a)) [3, 2, 1, 0]"

definition v4in6_prefix :: "byte list" where
  "v4in6_prefix = replicate 10 0 @ [255, 255]"

fun ipv4_of_bytes :: "byte list \<Rightarrow> ipv4" where
  "ipv4_of_bytes [a, b, c, d] = ipv4_of (unat a) (unat b) (unat c) (unat d)"
| "ipv4_of_bytes _ = 0"

definition to4 :: "net_ip \<Rightarrow> ipv4 option" where
  "to4 ip =
     (if length ip = 4 then Some (ipv4_of_bytes ip)
      else if length ip = 16 \<and> take 12 ip = v4in6_prefix then Some (ipv4_of_bytes (drop 12 ip))
      else None)"

definition net_ip_equal :: "net_ip \<Rightarrow> net_ip \<Rightarrow> bool" where
  "net_ip_equal x y =
     (if length x = length y then x = y
      else if length x = 4 \<and> length y = 16 then take 12 y = v4in6_prefix \<and> x = drop 12 y
      else if length x = 16 \<and> length y = 4 then take 12 x = v4in6_prefix \<and> drop 12 x = y
      else False)"

lemma length_ipv4_bytes [simp]: "length (ipv4_bytes a) = 4"
  by (simp add: ipv4_bytes_def)

lemma ipv4_of_ipv4_bytes [simp]: "ipv4_of_bytes (ipv4_bytes a) = a"
  using ipv4_of_octets [of a] by (simp add: ipv4_bytes_def take_bit_nat_eq_self unsigned_of_nat)

lemma to4_ipv4_bytes [simp]: "to4 (ipv4_bytes a) = Some a"
  by (simp add: to4_def)

lemma to4_mapped [simp]: "to4 (v4in6_prefix @ ipv4_bytes a) = Some a"
  by (simp add: to4_def v4in6_prefix_def)

section \<open>Netmasks and CIDR strings\<close>

definition netmask :: "nat \<Rightarrow> ipv4" where
  "netmask n = NOT (mask (32 - n))"

text \<open>
  \<open>net.ParseCIDR\<close> restricted to IPv4 strings. Every other string either fails to parse or
  yields a 16-byte mask, and the callers modelled here reject both alike, so \<open>None\<close> stands
  for both. The prefix length is read by \<open>dtoi\<close>: digits only, leading zeros allowed.
\<close>

definition parse_mask_len :: "string \<Rightarrow> nat option" where
  "parse_mask_len s =
     (if s \<noteq> [] \<and> (\<forall>c \<in> set s. is_digit c) \<and> undec s \<le> 32 then Some (undec s) else None)"

definition parse_cidr4 :: "string \<Rightarrow> (ipv4 \<times> nat) option" where
  "parse_cidr4 s =
     (let a = takeWhile (\<lambda>c. c \<noteq> CHR ''/'') s; r = dropWhile (\<lambda>c. c \<noteq> CHR ''/'') s
      in if r = [] then None
         else (case (parse_ipv4 a, parse_mask_len (tl r)) of
                 (Some ip, Some n) \<Rightarrow> Some (ip, n)
               | _ \<Rightarrow> None))"

lemma slash_notin_ip_string [simp]: "CHR ''/'' \<notin> set (ip_string a)"
proof -
  have "CHR ''/'' \<notin> set (dec n)" for n
    using dec_digits [of "CHR ''/''" n] by (auto simp: is_digit_def)
  then show ?thesis by (simp add: ip_string_def)
qed

theorem parse_cidr4_print:
  "n \<le> 32 \<Longrightarrow> parse_cidr4 (ip_string a @ ''/'' @ dec n) = Some (a, n)"
proof -
  assume n: "n \<le> 32"
  have s: "\<forall>c \<in> set (ip_string a). c \<noteq> CHR ''/''" using slash_notin_ip_string [of a] by metis
  have "parse_mask_len (dec n) = Some n" using n by (auto simp: parse_mask_len_def dest: dec_digits)
  moreover have "takeWhile (\<lambda>c. c \<noteq> CHR ''/'') (ip_string a @ CHR ''/'' # dec n) = ip_string a"
    using s by (simp add: takeWhile_append)
  moreover have "dropWhile (\<lambda>c. c \<noteq> CHR ''/'') (ip_string a @ CHR ''/'' # dec n) = CHR ''/'' # dec n"
    using s by (simp add: dropWhile_append)
  ultimately show ?thesis by (simp add: parse_cidr4_def)
qed

text \<open>What evaluates a parse of a literal.\<close>

lemmas parse_eval = parse_cidr4_def parse_ipv4_def parse_octet_def parse_mask_len_def is_digit_def
  digit_val_def undec_def ipv4_of_def

section \<open>\<open>netip.Addr\<close>\<close>

text \<open>
  The zero \<open>Addr\<close> is invalid; an IPv6 address carries a zone. \<open>Unmap\<close> turns the
  IPv4-in-IPv6 form into the plain IPv4 address and drops its zone.
\<close>

datatype addr = NoAddr | Addr4 ipv4 | Addr6 "128 word" string

definition is_valid :: "addr \<Rightarrow> bool" where
  "is_valid a \<longleftrightarrow> a \<noteq> NoAddr"

fun is4 :: "addr \<Rightarrow> bool" where
  "is4 (Addr4 _) = True"
| "is4 _ = False"

fun unmap :: "addr \<Rightarrow> addr" where
  "unmap (Addr6 w z) = (if drop_bit 32 w = 0xffff then Addr4 (ucast w) else Addr6 w z)"
| "unmap a = a"

fun as4 :: "addr \<Rightarrow> ipv4" where
  "as4 (Addr4 a) = a"
| "as4 (Addr6 w _) = ucast w"
| "as4 NoAddr = 0"

lemma unmap_unmap [simp]: "unmap (unmap a) = unmap a"
  by (cases a) auto

lemma is4_unmap_is4: "is4 a \<Longrightarrow> unmap a = a"
  by (cases a) auto

lemma is4_conv: "is4 a \<longleftrightarrow> (\<exists>w. a = Addr4 w)"
  by (cases a) auto

text \<open>
  A \<open>netip.Prefix\<close> is an address and a length. \<open>Masked\<close> clears the host bits. (A prefix with an
  invalid address or an impossible length is not constructed by the code modelled here.)
\<close>

datatype prefix = Prefix (paddr: addr) (pbits: nat)

fun masked :: "prefix \<Rightarrow> prefix" where
  "masked (Prefix (Addr4 a) b) = Prefix (Addr4 (a AND netmask b)) b"
| "masked (Prefix (Addr6 w z) b) = Prefix (Addr6 (w AND NOT (mask (128 - b))) []) b"
| "masked (Prefix NoAddr b) = Prefix NoAddr b"

lemma masked_masked [simp]: "masked (masked p) = masked p"
  by (cases p rule: masked.cases) (auto simp: bit_eq_iff bit_and_iff)

text \<open>The addresses under a prefix are one interval: from the masked address to its broadcast.\<close>

lemma and_not_mask_shift: "(w::ipv4) AND NOT (mask k) = push_bit k (drop_bit k w)"
  by (auto simp: bit_eq_iff bit_simps)

lemma drop_bit_mono: "(v::ipv4) \<le> w \<Longrightarrow> drop_bit k v \<le> drop_bit k w"
  by (simp add: word_le_nat_alt unat_drop_bit_eq) (simp add: drop_bit_eq_div div_le_mono)

lemma drop_bit_or_mask: "drop_bit k (v OR mask k) = drop_bit k (v::ipv4)"
  by (auto simp: bit_eq_iff bit_simps dest: bit_imp_le_length)

lemma drop_bit_and_not_mask: "drop_bit k (v AND NOT (mask k)) = drop_bit k (v::ipv4)"
  by (auto simp: bit_eq_iff bit_simps dest: bit_imp_le_length)

lemma or_mask_absorb: "(v AND NOT (mask k)) OR mask k = (v::ipv4) OR mask k"
  by (auto simp: bit_eq_iff bit_simps)

lemma le_or_mask: "v \<le> (v::ipv4) OR mask k"
  by (rule le_word_or2)

lemma prefix_interval:
  "(a AND netmask n \<le> x \<and> x \<le> (a AND netmask n) OR mask (32 - n)) \<longleftrightarrow>
   x AND netmask n = a AND netmask n"
proof
  assume h: "a AND netmask n \<le> x \<and> x \<le> (a AND netmask n) OR mask (32 - n)"
  have "drop_bit (32 - n) a \<le> drop_bit (32 - n) x"
    using h drop_bit_mono [of "a AND netmask n" x "32 - n"] by (simp add: netmask_def drop_bit_and_not_mask del: drop_bit_and)
  moreover have "drop_bit (32 - n) x \<le> drop_bit (32 - n) a"
    using h drop_bit_mono [of x "(a AND netmask n) OR mask (32 - n)" "32 - n"]
    by (simp add: netmask_def drop_bit_and_not_mask drop_bit_or_mask del: drop_bit_and drop_bit_or)
  ultimately show "x AND netmask n = a AND netmask n"
    by (simp add: netmask_def and_not_mask_shift)
next
  assume h: "x AND netmask n = a AND netmask n"
  have "x AND netmask n \<le> x" by (rule word_and_le2)
  moreover have "x \<le> (x AND netmask n) OR mask (32 - n)"
    unfolding netmask_def or_mask_absorb by (rule le_or_mask)
  ultimately show "a AND netmask n \<le> x \<and> x \<le> (a AND netmask n) OR mask (32 - n)"
    by (simp add: h)
qed

end
