(* ===== verification/Ip_Index.thy ===== *)
theory Ip_Index
  imports Net_Addr
begin

text \<open>
  The IPv4 rule index of \<^verbatim>\<open>internal/policy/ipv4.go\<close> and the download guard of
  \<^verbatim>\<open>internal/policy/fetch_address.go\<close> that is built on it: prefixes become closed intervals of
  32-bit words, the intervals are sorted and merged, and a lookup is a binary search. The
  development shows that this index answers exactly the question "does some prefix contain the
  address".
\<close>

section \<open>Ranges\<close>

record ip_range =
  lo :: ipv4
  hi :: ipv4

definition prefix_to_range :: "prefix \<Rightarrow> ip_range" where
  "prefix_to_range p =
     (let q = masked p; l = as4 (paddr q); bits = pbits q
      in if bits = 0 then \<lparr>lo = 0, hi = NOT 0\<rparr>
         else let span = push_bit (32 - bits) 1 - 1 in \<lparr>lo = l, hi = l OR span\<rparr>)"

text \<open>
  The merge loop. \<open>out\<close> is the code's output slice with its last element first. The comparison
  with the successor is done in 64 bits, as in the source, so that it cannot overflow at the top
  address.
\<close>

fun merge_loop :: "ip_range list \<Rightarrow> ip_range list \<Rightarrow> ip_range list" where
  "merge_loop out [] = rev out"
| "merge_loop [] (r # rs) = merge_loop [r] rs"
| "merge_loop (prev # out) (r # rs) =
     (if (ucast (lo r) :: 64 word) \<le> ucast (hi prev) + 1
      then merge_loop ((if hi prev < hi r then prev\<lparr>hi := hi r\<rparr> else prev) # out) rs
      else merge_loop (r # prev # out) rs)"

definition merge_ranges :: "ip_range list \<Rightarrow> ip_range list" where
  "merge_ranges rs =
     (if length rs \<le> 1 then rs else merge_loop [] (sort_key (\<lambda>r. (lo r, hi r)) rs))"

type_synonym ipv4_index = "ip_range list"

definition new_ipv4_index :: "prefix list \<Rightarrow> ipv4_index" where
  "new_ipv4_index ps = merge_ranges (map prefix_to_range (filter (\<lambda>p. is4 (paddr p)) ps))"

text \<open>\<open>sort.Search\<close>: the binary search of Go's standard library, loop for loop.\<close>

function search_loop :: "(nat \<Rightarrow> bool) \<Rightarrow> nat \<Rightarrow> nat \<Rightarrow> nat" where
  "search_loop f i j =
     (if i < j then let h = (i + j) div 2 in if \<not> f h then search_loop f (h + 1) j else search_loop f i h
      else i)"
  by pat_completeness auto
termination
  by (relation "measure (\<lambda>(f, i, j). j - i)") auto

declare search_loop.simps [simp del]

definition sort_search :: "nat \<Rightarrow> (nat \<Rightarrow> bool) \<Rightarrow> nat" where
  "sort_search n f = search_loop f 0 n"

definition ipv4_match :: "ipv4_index \<Rightarrow> addr \<Rightarrow> bool" where
  "ipv4_match idx a =
     (case unmap a of
        Addr4 n \<Rightarrow>
          let i = sort_search (length idx) (\<lambda>j. n < lo (idx ! j))
          in 0 < i \<and> n \<le> hi (idx ! (i - 1))
      | _ \<Rightarrow> False)"

section \<open>Binary search\<close>

lemma search_loop_correct:
  assumes "\<And>x y. i \<le> x \<Longrightarrow> x \<le> y \<Longrightarrow> y < j \<Longrightarrow> f x \<Longrightarrow> f y" "i \<le> j"
  shows "i \<le> search_loop f i j \<and> search_loop f i j \<le> j \<and>
         (\<forall>x. i \<le> x \<and> x < search_loop f i j \<longrightarrow> \<not> f x) \<and>
         (\<forall>x. search_loop f i j \<le> x \<and> x < j \<longrightarrow> f x)"
  using assms
proof (induction f i j rule: search_loop.induct)
  case (1 f i j)
  show ?case
  proof (cases "i < j")
    case False
    then have "search_loop f i j = i" by (simp add: search_loop.simps [of f i j])
    then show ?thesis using False "1.prems"(2) by auto
  next
    case True
    define h where "h = (i + j) div 2"
    have h: "i \<le> h" "h < j" using True by (auto simp: h_def)
    show ?thesis
    proof (cases "f h")
      case fh: False
      have IH: "h + 1 \<le> search_loop f (h + 1) j \<and> search_loop f (h + 1) j \<le> j \<and>
         (\<forall>x. h + 1 \<le> x \<and> x < search_loop f (h + 1) j \<longrightarrow> \<not> f x) \<and>
         (\<forall>x. search_loop f (h + 1) j \<le> x \<and> x < j \<longrightarrow> f x)"
      proof (rule "1.IH"(1) [OF True h_def fh])
        show "f y" if "h + 1 \<le> x" "x \<le> y" "y < j" "f x" for x y
          using "1.prems"(1) [of x y] that h by linarith
        show "h + 1 \<le> j" using h by simp
      qed
      have "\<not> f x" if "i \<le> x" "x < h + 1" for x
        using "1.prems"(1) [of x h] that fh h by auto
      moreover have "search_loop f i j = search_loop f (h + 1) j"
        using True fh by (simp add: search_loop.simps [of f i j] h_def Let_def)
      ultimately show ?thesis using IH h by (metis le_trans not_less trans_le_add1)
    next
      case fh: True
      have IH: "i \<le> search_loop f i h \<and> search_loop f i h \<le> h \<and>
         (\<forall>x. i \<le> x \<and> x < search_loop f i h \<longrightarrow> \<not> f x) \<and>
         (\<forall>x. search_loop f i h \<le> x \<and> x < h \<longrightarrow> f x)"
      proof (rule "1.IH"(2) [OF True h_def])
        show "\<not> \<not> f h" using fh by simp
        show "f y" if "i \<le> x" "x \<le> y" "y < h" "f x" for x y
          using "1.prems"(1) [of x y] that h by linarith
        show "i \<le> h" using h by simp
      qed
      have "f x" if "h \<le> x" "x < j" for x
        using "1.prems"(1) [of h x] that fh h by auto
      moreover have "search_loop f i j = search_loop f i h"
        using True fh by (simp add: search_loop.simps [of f i j] h_def Let_def)
      ultimately show ?thesis using IH h by (metis le_trans not_less order_less_imp_le)
    qed
  qed
qed

lemma sort_search_correct:
  assumes "\<And>x y. x \<le> y \<Longrightarrow> y < n \<Longrightarrow> f x \<Longrightarrow> f y"
  shows "sort_search n f \<le> n"
    and "x < sort_search n f \<Longrightarrow> \<not> f x"
    and "sort_search n f \<le> x \<Longrightarrow> x < n \<Longrightarrow> f x"
  using search_loop_correct [of 0 n f] assms unfolding sort_search_def by auto

section \<open>Merging\<close>

definition range_set :: "ip_range \<Rightarrow> ipv4 set" where
  "range_set r = {x. lo r \<le> x \<and> x \<le> hi r}"

definition ranges_set :: "ip_range list \<Rightarrow> ipv4 set" where
  "ranges_set rs = (\<Union>r \<in> set rs. range_set r)"

text \<open>Separated, in ascending order, and none empty: what the binary search needs.\<close>

definition separated :: "ip_range list \<Rightarrow> bool" where
  "separated rs \<longleftrightarrow> sorted_wrt (\<lambda>a b. hi a < lo b) rs \<and> (\<forall>r \<in> set rs. lo r \<le> hi r)"

lemma ranges_set_simps [simp]:
  "ranges_set [] = {}" "ranges_set (r # rs) = range_set r \<union> ranges_set rs"
  "ranges_set (xs @ ys) = ranges_set xs \<union> ranges_set ys" "ranges_set (rev xs) = ranges_set xs"
  by (auto simp: ranges_set_def)

lemma touch_iff: "(ucast (l::ipv4) :: 64 word) \<le> ucast (h::ipv4) + 1 \<longleftrightarrow> unat l \<le> unat h + 1"
proof -
  have u: "unat (ucast x :: 64 word) = unat x" for x :: ipv4
    using unsigned_less [of x, where 'a = nat] by (simp add: unsigned_ucast_eq take_bit_nat_eq_self)
  then have "unat (ucast h + 1 :: 64 word) = unat h + 1"
    using unsigned_less [of h, where 'a = nat] by (simp add: unat_word_ariths)
  then show ?thesis by (simp add: word_le_nat_alt u)
qed

lemma absorb_range:
  assumes "lo l \<le> lo r" "lo r \<le> hi r" "unat (lo r) \<le> unat (hi l) + 1"
  shows "range_set (if hi l < hi r then l\<lparr>hi := hi r\<rparr> else l) = range_set l \<union> range_set r"
  using assms unfolding range_set_def
  by (auto simp: word_le_nat_alt word_less_nat_alt not_less)

lemma merge_loop_correct:
  assumes "sorted (map lo rs)" "\<forall>r \<in> set rs. lo r \<le> hi r"
    and "separated (rev out)" "out \<noteq> [] \<Longrightarrow> \<forall>r \<in> set rs. lo (hd out) \<le> lo r"
  shows "separated (merge_loop out rs) \<and> ranges_set (merge_loop out rs) = ranges_set out \<union> ranges_set rs"
  using assms
proof (induction out rs rule: merge_loop.induct)
  case (1 out)
  then show ?case by simp
next
  case (2 r rs)
  then show ?case by (auto simp: separated_def)
next
  case (3 l out r rs)
  let ?l = "if hi l < hi r then l\<lparr>hi := hi r\<rparr> else l"
  have lr: "lo l \<le> lo r" and r: "lo r \<le> hi r" using "3.prems" by auto
  have srt: "sorted (map lo rs)" "\<forall>s \<in> set rs. lo s \<le> hi s" "\<forall>s \<in> set rs. lo r \<le> lo s"
    using "3.prems" by auto
  show ?case
  proof (cases "(ucast (lo r) :: 64 word) \<le> ucast (hi l) + 1")
    case True
    have "separated (rev (?l # out))"
      using "3.prems"(3) r by (auto simp: separated_def sorted_wrt_append)
    moreover have "\<forall>s \<in> set rs. lo ?l \<le> lo s" using srt lr by (auto intro: order_trans)
    ultimately show ?thesis
      using "3.IH"(1) [OF True] srt True absorb_range [OF lr r] touch_iff [of "lo r" "hi l"]
      by auto
  next
    case False
    then have "hi l < lo r" using touch_iff [of "lo r" "hi l"] by (simp add: word_less_nat_alt)
    moreover have "hi a < lo r" if "a \<in> set out" for a
      using "3.prems"(3) that lr by (auto simp: separated_def sorted_wrt_append intro: order_less_le_trans)
    ultimately have "separated (rev (r # l # out))"
      using "3.prems"(3) r by (auto simp: separated_def sorted_wrt_append)
    then show ?thesis using "3.IH"(2) [OF False] srt False by auto
  qed
qed

lemma sorted_lo_sort: "sorted (map lo (sort_key (\<lambda>r. (lo r, hi r)) rs))"
proof -
  have "sorted (map (\<lambda>r. (lo r, hi r)) (sort_key (\<lambda>r. (lo r, hi r)) rs))" by (rule sorted_sort_key)
  then show ?thesis by (auto simp: sorted_map elim: sorted_wrt_mono_rel [rotated])
qed

lemma merge_ranges_correct:
  assumes "\<forall>r \<in> set rs. lo r \<le> hi r"
  shows "separated (merge_ranges rs) \<and> ranges_set (merge_ranges rs) = ranges_set rs"
proof (cases "length rs \<le> 1")
  case True
  then show ?thesis using assms by (cases rs) (auto simp: merge_ranges_def separated_def)
next
  case False
  then show ?thesis
    using merge_loop_correct [OF sorted_lo_sort, of rs "[]"] assms
    by (auto simp: merge_ranges_def ranges_set_def separated_def)
qed

section \<open>Lookup\<close>

lemma match_separated:
  assumes "separated idx"
  shows "ipv4_match idx (Addr4 n) \<longleftrightarrow> n \<in> ranges_set idx"
proof -
  define i where "i = sort_search (length idx) (\<lambda>j. n < lo (idx ! j))"
  have ne: "lo (idx ! x) \<le> hi (idx ! x)" if "x < length idx" for x
    using assms that by (auto simp: separated_def)
  have gap: "hi (idx ! x) < lo (idx ! y)" if "x < y" "y < length idx" for x y
    using assms that by (auto simp: separated_def sorted_wrt_iff_nth_less)
  have mono: "n < lo (idx ! y)" if "x \<le> y" "y < length idx" "n < lo (idx ! x)" for x y
    using that gap [of x y] ne [of x] by (cases "x = y") (auto dest: order_less_trans)
  have s1: "i \<le> length idx"
    unfolding i_def by (rule sort_search_correct(1)) (rule mono)
  have s2: "\<not> n < lo (idx ! x)" if "x < i" for x
    using that unfolding i_def by (rule sort_search_correct(2) [rotated]) (rule mono)
  have s3: "n < lo (idx ! x)" if "i \<le> x" "x < length idx" for x
    using that(1) that(2) unfolding i_def by (rule sort_search_correct(3) [rotated]) (rule mono)
  have "n \<in> ranges_set idx \<longleftrightarrow> (\<exists>x < length idx. lo (idx ! x) \<le> n \<and> n \<le> hi (idx ! x))"
    by (auto simp: ranges_set_def range_set_def set_conv_nth)
  also have "\<dots> \<longleftrightarrow> 0 < i \<and> n \<le> hi (idx ! (i - 1))"
  proof
    assume "\<exists>x < length idx. lo (idx ! x) \<le> n \<and> n \<le> hi (idx ! x)"
    then obtain x where x: "x < length idx" "lo (idx ! x) \<le> n" "n \<le> hi (idx ! x)" by blast
    then have xi: "x < i" using s3 [of x] by fastforce
    have "x = i - 1"
    proof (rule ccontr)
      assume "x \<noteq> i - 1"
      then have "x < i - 1" "i - 1 < length idx" using xi s1 by auto
      then have "n < lo (idx ! (i - 1))" using gap [of x "i - 1"] x by (auto intro: order_le_less_trans)
      then show False using s2 [of "i - 1"] xi by simp
    qed
    then show "0 < i \<and> n \<le> hi (idx ! (i - 1))" using x xi by simp
  next
    assume "0 < i \<and> n \<le> hi (idx ! (i - 1))"
    then show "\<exists>x < length idx. lo (idx ! x) \<le> n \<and> n \<le> hi (idx ! x)"
      using s1 s2 [of "i - 1"] by (intro exI [of _ "i - 1"]) auto
  qed
  finally show ?thesis by (simp add: ipv4_match_def i_def Let_def)
qed

section \<open>The index decides membership\<close>

fun prefix_contains :: "prefix \<Rightarrow> ipv4 \<Rightarrow> bool" where
  "prefix_contains (Prefix (Addr4 a) n) x \<longleftrightarrow> x AND netmask n = a AND netmask n"
| "prefix_contains _ x \<longleftrightarrow> False"

lemma netmask_0 [simp]: "netmask 0 = 0"
  by (simp add: netmask_def mask_eq_exp_minus_1)

lemma prefix_to_range_eq:
  assumes "n \<le> 32"
  shows "prefix_to_range (Prefix (Addr4 a) n) =
           \<lparr>lo = a AND netmask n, hi = (a AND netmask n) OR mask (32 - n)\<rparr>"
proof (cases "n = 0")
  case True
  have "(mask 32 :: ipv4) = - 1" by code_simp
  then show ?thesis using True by (simp add: prefix_to_range_def)
next
  case False
  have "push_bit (32 - n) 1 - 1 = (mask (32 - n) :: ipv4)" by (simp add: mask_eq_exp_minus_1 push_bit_eq_mult)
  then show ?thesis using False by (simp add: prefix_to_range_def Let_def)
qed

lemma prefix_range:
  assumes "is4 (paddr p)" "pbits p \<le> 32"
  shows "range_set (prefix_to_range p) = {x. prefix_contains p x}"
    and "lo (prefix_to_range p) \<le> hi (prefix_to_range p)"
proof -
  obtain a n where p: "p = Prefix (Addr4 a) n" using assms(1) by (cases p) (auto simp: is4_conv)
  then have r: "prefix_to_range p = \<lparr>lo = a AND netmask n, hi = (a AND netmask n) OR mask (32 - n)\<rparr>"
    using prefix_to_range_eq assms(2) by simp
  show "range_set (prefix_to_range p) = {x. prefix_contains p x}"
    using prefix_interval [of a n] by (simp add: range_set_def r [unfolded p] p)
  show "lo (prefix_to_range p) \<le> hi (prefix_to_range p)"
    by (simp add: r le_or_mask)
qed

definition valid_prefixes :: "prefix list \<Rightarrow> bool" where
  "valid_prefixes ps \<longleftrightarrow> (\<forall>p \<in> set ps. is4 (paddr p) \<longrightarrow> pbits p \<le> 32)"

lemma new_index_correct:
  assumes "valid_prefixes ps"
  shows "separated (new_ipv4_index ps) \<and>
         ranges_set (new_ipv4_index ps) = {x. \<exists>p \<in> set ps. prefix_contains p x}"
proof -
  let ?qs = "filter (\<lambda>p. is4 (paddr p)) ps"
  have v: "is4 (paddr p) \<and> pbits p \<le> 32" if "p \<in> set ?qs" for p
    using assms that by (auto simp: valid_prefixes_def)
  have "\<forall>r \<in> set (map prefix_to_range ?qs). lo r \<le> hi r" using v prefix_range(2) by auto
  then have m: "separated (new_ipv4_index ps) \<and>
      ranges_set (new_ipv4_index ps) = ranges_set (map prefix_to_range ?qs)"
    unfolding new_ipv4_index_def by (rule merge_ranges_correct)
  have "ranges_set (map prefix_to_range ?qs) = (\<Union>p \<in> set ?qs. {x. prefix_contains p x})"
    unfolding ranges_set_def using v prefix_range(1) by auto
  also have "\<dots> = {x. \<exists>p \<in> set ps. prefix_contains p x}"
  proof -
    have "is4 (paddr p)" if "prefix_contains p x" for p x
      using that by (cases "(p, x)" rule: prefix_contains.cases) auto
    then show ?thesis by auto
  qed
  finally show ?thesis using m by simp
qed

section \<open>The interface: a set of addresses\<close>

text \<open>
  What the fetch guard and the snapshot use of an index: a structure built from prefixes whose
  lookup on a plain IPv4 address is membership in one of them, and which knows nothing else.
\<close>

locale address_set =
  fixes build :: "prefix list \<Rightarrow> 'i"
    and hit :: "'i \<Rightarrow> addr \<Rightarrow> bool"
  assumes hit_build: "valid_prefixes ps \<Longrightarrow> hit (build ps) (Addr4 x) \<longleftrightarrow> (\<exists>p \<in> set ps. prefix_contains p x)"
    and hit_unmap: "hit i a \<longleftrightarrow> hit i (unmap a)"
    and hit_other: "\<not> is4 (unmap a) \<Longrightarrow> \<not> hit i a"
begin

lemma hit_iff:
  assumes "valid_prefixes ps"
  shows "hit (build ps) a \<longleftrightarrow> (\<exists>x. unmap a = Addr4 x \<and> (\<exists>p \<in> set ps. prefix_contains p x))"
proof (cases "is4 (unmap a)")
  case True
  then obtain x where "unmap a = Addr4 x" by (auto simp: is4_conv)
  then show ?thesis using hit_build [OF assms] hit_unmap [of "build ps" a] by simp
next
  case False
  then show ?thesis using hit_other [of a "build ps"] by auto
qed

lemma hit_mono:
  assumes "valid_prefixes qs" "set ps \<subseteq> set qs" "hit (build ps) a"
  shows "hit (build qs) a"
proof -
  have "valid_prefixes ps" using assms(1,2) by (auto simp: valid_prefixes_def)
  then show ?thesis using assms hit_iff by blast
qed

end

interpretation index: address_set new_ipv4_index ipv4_match
proof unfold_locales
  show "ipv4_match (new_ipv4_index ps) (Addr4 x) \<longleftrightarrow> (\<exists>p \<in> set ps. prefix_contains p x)"
    if "valid_prefixes ps" for ps x
    using new_index_correct [OF that] match_separated by auto
  show "ipv4_match i a \<longleftrightarrow> ipv4_match i (unmap a)" for i a by (simp add: ipv4_match_def)
  show "\<not> is4 (unmap a) \<Longrightarrow> \<not> ipv4_match i a" for i a by (cases "unmap a") (auto simp: ipv4_match_def)
qed

section \<open>The download guard\<close>

definition denied_prefixes :: "string list" where
  "denied_prefixes =
     [''0.0.0.0/8'', ''10.0.0.0/8'', ''100.64.0.0/10'', ''127.0.0.0/8'', ''169.254.0.0/16'',
      ''172.16.0.0/12'', ''192.0.0.0/24'', ''192.0.2.0/24'', ''192.88.99.0/24'', ''192.168.0.0/16'',
      ''198.18.0.0/15'', ''198.51.100.0/24'', ''203.0.113.0/24'', ''224.0.0.0/4'', ''240.0.0.0/4'',
      ''168.63.129.16/32'']"

text \<open>
  \<open>netip.MustParsePrefix\<close> on these literals: the IPv4 part of the standard library's parser.
\<close>

definition must_parse_prefix4 :: "string \<Rightarrow> prefix" where
  "must_parse_prefix4 s = (case parse_cidr4 s of Some (a, n) \<Rightarrow> Prefix (Addr4 a) n | None \<Rightarrow> Prefix NoAddr 0)"

definition denied_ranges_index :: ipv4_index where
  "denied_ranges_index = new_ipv4_index (map must_parse_prefix4 denied_prefixes)"

definition addr4_unspecified :: "ipv4 \<Rightarrow> bool" where "addr4_unspecified a \<longleftrightarrow> a = 0"
definition addr4_loopback :: "ipv4 \<Rightarrow> bool" where "addr4_loopback a \<longleftrightarrow> octet 3 a = 127"
definition addr4_multicast :: "ipv4 \<Rightarrow> bool" where "addr4_multicast a \<longleftrightarrow> drop_bit 28 a = 0xe"
definition addr4_link_local :: "ipv4 \<Rightarrow> bool" where
  "addr4_link_local a \<longleftrightarrow> octet 3 a = 169 \<and> octet 2 a = 254"

datatype blocked = BlockedInvalid | BlockedIPv6 addr | BlockedSpecialUse addr | BlockedRange addr

definition validate_fetch_ip :: "addr \<Rightarrow> blocked + unit" where
  "validate_fetch_ip a0 =
     (let a = unmap a0
      in if \<not> is_valid a then Inl BlockedInvalid
         else if \<not> is4 a then Inl (BlockedIPv6 a)
         else if addr4_unspecified (as4 a) \<or> addr4_loopback (as4 a) \<or> addr4_multicast (as4 a) \<or>
                 addr4_link_local (as4 a)
         then Inl (BlockedSpecialUse a)
         else if ipv4_match denied_ranges_index a then Inl (BlockedRange a)
         else Inr ())"

lemma contains_drop_bit:
  "n \<le> 32 \<Longrightarrow> prefix_contains (Prefix (Addr4 a) n) x \<longleftrightarrow> drop_bit (32 - n) x = drop_bit (32 - n) a"
proof -
  assume "n \<le> 32"
  have "drop_bit k (push_bit k (drop_bit k y)) = drop_bit k y" for k and y :: ipv4
    by (metis and_not_mask_shift drop_bit_and_not_mask)
  then show ?thesis by (simp add: netmask_def and_not_mask_shift) metis
qed

lemma octet_drop_bit: "octet 3 a = unat (drop_bit 24 a)"
proof -
  have "unat (drop_bit 24 a) < 256"
    using unsigned_less [of a, where 'a = nat]
    by (simp add: unat_drop_bit_eq del: drop_bit_eq_div) (simp add: drop_bit_eq_div less_mult_imp_div_less)
  then show ?thesis by (simp add: octet_def)
qed

lemma octets_drop_bit:
  assumes "octet 3 a = m" "octet 2 a = n" "m * 256 + n < 4294967296"
  shows "drop_bit 16 a = (word_of_nat (m * 256 + n) :: ipv4)"
proof -
  have "octet 3 a = unat a div 65536 div 256"
    unfolding octet_drop_bit unat_drop_bit_eq by (simp add: drop_bit_eq_div div_mult2_eq [symmetric])
  moreover have "octet 2 a = unat a div 65536 mod 256"
    unfolding octet_def unat_drop_bit_eq by (simp add: drop_bit_eq_div)
  ultimately have "unat a div 65536 = m * 256 + n" using assms(1,2) by (metis div_mult_mod_eq)
  then have "unat (drop_bit 16 a) = m * 256 + n" by (simp add: unat_drop_bit_eq) (simp add: drop_bit_eq_div)
  then show ?thesis using assms(3) by (simp only: word_unat_eq_iff unat_of_nat) simp
qed

lemma parse_denied:
  "map must_parse_prefix4 denied_prefixes =
     [Prefix (Addr4 0) 8, Prefix (Addr4 0x0a000000) 8, Prefix (Addr4 0x64400000) 10, Prefix (Addr4 0x7f000000) 8,
      Prefix (Addr4 0xa9fe0000) 16, Prefix (Addr4 0xac100000) 12, Prefix (Addr4 0xc0000000) 24,
      Prefix (Addr4 0xc0000200) 24, Prefix (Addr4 0xc0586300) 24, Prefix (Addr4 0xc0a80000) 16,
      Prefix (Addr4 0xc6120000) 15, Prefix (Addr4 0xc6336400) 24, Prefix (Addr4 0xcb007100) 24,
      Prefix (Addr4 0xe0000000) 4, Prefix (Addr4 0xf0000000) 4, Prefix (Addr4 0xa83f8110) 32]"
  by (simp add: denied_prefixes_def must_parse_prefix4_def parse_eval)

definition denied :: "ipv4 \<Rightarrow> bool" where
  "denied x \<longleftrightarrow> (\<exists>p \<in> set (map must_parse_prefix4 denied_prefixes). prefix_contains p x)"

lemma special_denied:
  assumes "addr4_unspecified x \<or> addr4_loopback x \<or> addr4_multicast x \<or> addr4_link_local x"
  shows "denied x"
proof -
  have "denied x" if "drop_bit 24 x = (0::ipv4)"
    using that contains_drop_bit [of 8 0 x] unfolding denied_def parse_denied by simp
  moreover have "denied x" if "drop_bit 24 x = (127::ipv4)"
    using that contains_drop_bit [of 8 "0x7f000000" x] unfolding denied_def parse_denied by simp
  moreover have "denied x" if "drop_bit 28 x = (0xe::ipv4)"
    using that contains_drop_bit [of 4 "0xe0000000" x] unfolding denied_def parse_denied by simp
  moreover have "denied x" if "drop_bit 16 x = (0xa9fe::ipv4)"
    using that contains_drop_bit [of 16 "0xa9fe0000" x] unfolding denied_def parse_denied by simp
  moreover have "addr4_link_local x \<Longrightarrow> drop_bit 16 x = (0xa9fe::ipv4)"
    using octets_drop_bit [of x 169 254] by (simp add: addr4_link_local_def)
  moreover have "addr4_loopback x \<Longrightarrow> drop_bit 24 x = (127::ipv4)"
    by (simp add: addr4_loopback_def octet_drop_bit unsigned_word_eqI)
  ultimately show ?thesis
    using assms by (auto simp: addr4_unspecified_def addr4_multicast_def)
qed

lemma denied_valid: "valid_prefixes (map must_parse_prefix4 denied_prefixes)"
  unfolding valid_prefixes_def parse_denied by simp

lemma fetch_guard_iff:
  "validate_fetch_ip a = Inr () \<longleftrightarrow> (\<exists>x. unmap a = Addr4 x \<and> \<not> denied x)"
proof (cases "is4 (unmap a)")
  case True
  then obtain x where x: "unmap a = Addr4 x" by (auto simp: is4_conv)
  have "ipv4_match denied_ranges_index (Addr4 x) \<longleftrightarrow> denied x"
    unfolding denied_ranges_index_def denied_def using index.hit_build [OF denied_valid] by simp
  then show ?thesis using x special_denied [of x]
    by (auto simp: validate_fetch_ip_def is_valid_def Let_def)
next
  case False
  then show ?thesis by (cases "unmap a") (auto simp: validate_fetch_ip_def Let_def)
qed

lemma public_dns_allowed: "validate_fetch_ip (Addr4 0x08080808) = Inr ()"
proof -
  have "\<not> denied 0x08080808" unfolding denied_def parse_denied by (simp add: contains_drop_bit del: prefix_contains.simps)
  then show ?thesis using fetch_guard_iff by auto
qed

text \<open>
  C36: the rule index answers membership: an address (an IPv4-mapped IPv6 address counts as its
  IPv4 address) hits the index built from a list of prefixes exactly when one of the IPv4
  prefixes of the list contains it; sorting, merging and binary search lose and add nothing.
\<close>

theorem index_membership:
  assumes "valid_prefixes ps"
  shows "ipv4_match (new_ipv4_index ps) a \<longleftrightarrow> (\<exists>x. unmap a = Addr4 x \<and> (\<exists>p \<in> set ps. prefix_contains p x))"
  by (rule index.hit_iff [OF assms])

text \<open>
  C37: the download guard lets an address pass exactly when it is (after unmapping) an IPv4
  address outside all sixteen prohibited ranges.
\<close>

theorem fetch_guard_exact:
  "validate_fetch_ip a = Inr () \<longleftrightarrow> (\<exists>x. unmap a = Addr4 x \<and> \<not> denied x)"
  by (rule fetch_guard_iff)

theorem index_membership_witness:
  "ipv4_match (new_ipv4_index [Prefix (Addr4 0x0a000000) 8, Prefix NoAddr 0]) (Addr6 0xffff0a010203 [])"
proof -
  have v: "valid_prefixes [Prefix (Addr4 0x0a000000) 8, Prefix NoAddr 0]" by (simp add: valid_prefixes_def)
  have u: "unmap (Addr6 0xffff0a010203 []) = Addr4 0x0a010203" by simp
  have c: "prefix_contains (Prefix (Addr4 0x0a000000) 8) 0x0a010203" using contains_drop_bit [of 8] by simp
  show ?thesis by (subst index_membership [OF v], subst u) (use c in auto)
qed

end
