(* ===== verification/Domain_Name.thy ===== *)
theory Domain_Name
  imports Net_Addr
begin

text \<open>
  Domain canonicalisation (\<^verbatim>\<open>NormalizeDomain\<close> of \<^verbatim>\<open>internal/policy/domain.go\<close>). The IDNA mapping of
  \<^verbatim>\<open>golang.org/x/net/idna\<close> is a parameter \<open>idn\<close> (its result, or none when it fails); everything
  around it is the code's: trimming, the forbidden characters, the length and label rules and the
  rejection of IP literals.
\<close>

section \<open>Trimming\<close>

text \<open>
  \<open>strings.TrimSpace\<close> on the bytes of a string: the UTF-8 encodings of the code points
  \<open>unicode.IsSpace\<close> accepts.
\<close>

definition space_encodings :: "string list" where
  "space_encodings =
     map (\<lambda>b. [char_of (b::nat)]) [0x09, 0x0A, 0x0B, 0x0C, 0x0D, 0x20] @
     [[CHR 0xC2, CHR 0x85], [CHR 0xC2, CHR 0xA0], [CHR 0xE1, CHR 0x9A, CHR 0x80]] @
     map (\<lambda>b. [CHR 0xE2, CHR 0x80, char_of (b::nat)])
       [0x80, 0x81, 0x82, 0x83, 0x84, 0x85, 0x86, 0x87, 0x88, 0x89, 0x8A, 0xA8, 0xA9, 0xAF] @
     [[CHR 0xE2, CHR 0x81, CHR 0x9F], [CHR 0xE3, CHR 0x80, CHR 0x80]]"

definition strip_prefix :: "string \<Rightarrow> string \<Rightarrow> string option" where
  "strip_prefix p s = (if p \<noteq> [] \<and> take (length p) s = p then Some (drop (length p) s) else None)"

fun leading_space :: "string list \<Rightarrow> string \<Rightarrow> string option" where
  "leading_space [] s = None"
| "leading_space (p # ps) s = (case strip_prefix p s of Some t \<Rightarrow> Some t | None \<Rightarrow> leading_space ps s)"

lemma strip_prefix_shorter: "strip_prefix p s = Some t \<Longrightarrow> length t < length s"
  by (cases s) (auto simp: strip_prefix_def split: if_splits)

lemma leading_space_shorter: "leading_space encs s = Some t \<Longrightarrow> length t < length s"
  by (induction encs) (auto split: option.splits dest: strip_prefix_shorter)

function trim_left :: "string list \<Rightarrow> string \<Rightarrow> string" where
  "trim_left encs s = (case leading_space encs s of None \<Rightarrow> s | Some t \<Rightarrow> trim_left encs t)"
  by pat_completeness auto
termination
  by (relation "measure (\<lambda>(e, s). length s)") (auto dest: leading_space_shorter)

declare trim_left.simps [simp del]

definition trim_space :: "string \<Rightarrow> string" where
  "trim_space s =
     rev (trim_left (map rev space_encodings) (rev (trim_left space_encodings s)))"

section \<open>Canonicalisation\<close>

datatype domain_error =
    EmptyDomainName
  | IllegalCharacters
  | EmptyLabel
  | IDNAFailed
  | DomainLength
  | LabelLength
  | LabelHyphen
  | NonLDH
  | IPLiteral

definition is_ldh :: "char \<Rightarrow> bool" where
  "is_ldh c \<longleftrightarrow> (97 \<le> (of_char c :: nat) \<and> (of_char c :: nat) \<le> 122) \<or> is_digit c \<or> c = CHR ''-''"

fun check_labels :: "string list \<Rightarrow> domain_error option" where
  "check_labels [] = None"
| "check_labels (l # ls) =
     (if length l = 0 \<or> 63 < length l then Some LabelLength
      else if hd l = CHR ''-'' \<or> last l = CHR ''-'' then Some LabelHyphen
      else if \<exists>c \<in> set l. \<not> is_ldh c then Some NonLDH
      else check_labels ls)"

fun contains_sub :: "string \<Rightarrow> string \<Rightarrow> bool" where
  "contains_sub p [] \<longleftrightarrow> p = []"
| "contains_sub p (c # cs) \<longleftrightarrow> take (length p) (c # cs) = p \<or> contains_sub p cs"

definition trim_dot :: "string \<Rightarrow> string" where
  "trim_dot s = (if s \<noteq> [] \<and> last s = CHR ''.'' then butlast s else s)"

text \<open>The part of the function after the optional IDNA mapping.\<close>

definition check_domain :: "string \<Rightarrow> domain_error + string" where
  "check_domain b =
     (let a = map ascii_lower (trim_dot b)
      in if a = [] \<or> 253 < length a then Inl DomainLength
         else case check_labels (split_on CHR ''.'' a) of
           Some e \<Rightarrow> Inl e
         | None \<Rightarrow> if parse_ipv4 a \<noteq> None then Inl IPLiteral else Inr a)"

definition illegal_chars :: string where
  "illegal_chars = [CHR '' '', CHR 0x09, CHR 0x0D, CHR 0x0A] @ ''/:?#@'' @ [CHR 0x5C, CHR ''_'']"

definition needs_idna :: "string \<Rightarrow> bool" where
  "needs_idna name \<longleftrightarrow>
     (\<exists>c \<in> set name. 127 < (of_char c :: nat)) \<or> contains_sub ''xn--'' (map ascii_lower name)"

definition normalize_domain :: "(string \<Rightarrow> string option) \<Rightarrow> string \<Rightarrow> domain_error + string" where
  "normalize_domain idn name0 =
     (let name = trim_space name0
      in if name = [] then Inl EmptyDomainName
         else if \<exists>c \<in> set name. c \<in> set illegal_chars then Inl IllegalCharacters
         else if contains_sub ''..'' name then Inl EmptyLabel
         else case (if needs_idna name then idn name else Some name) of
           None \<Rightarrow> Inl IDNAFailed
         | Some b \<Rightarrow> check_domain b)"

text \<open>
  Two details of this definition. The source's first test \<open>HasSuffix(name, "..")\<close> is implied by
  the second, \<open>Contains(name, "..")\<close>. And \<open>netip.ParseAddr\<close> on a string of letters, digits,
  hyphens and dots is its IPv4 parser, since without a colon no other form is tried.
\<close>

section \<open>Canonical names\<close>

definition canonical :: "string \<Rightarrow> bool" where
  "canonical a \<longleftrightarrow> a \<noteq> [] \<and> length a \<le> 253 \<and> parse_ipv4 a = None \<and>
     (\<forall>l \<in> set (split_on CHR ''.'' a). l \<noteq> [] \<and> length l \<le> 63 \<and> hd l \<noteq> CHR ''-'' \<and> last l \<noteq> CHR ''-'' \<and>
        (\<forall>c \<in> set l. is_ldh c))"

lemma check_labels_None:
  "check_labels ls = None \<longleftrightarrow>
     (\<forall>l \<in> set ls. l \<noteq> [] \<and> length l \<le> 63 \<and> hd l \<noteq> CHR ''-'' \<and> last l \<noteq> CHR ''-'' \<and> (\<forall>c \<in> set l. is_ldh c))"
  by (induction ls) (auto split: if_splits)

lemma check_domain_canonical: "check_domain b = Inr a \<Longrightarrow> canonical a"
  unfolding check_domain_def canonical_def Let_def
  by (auto simp: check_labels_None split: if_splits option.splits)

lemma normalize_domain_cases:
  assumes "normalize_domain idn n = Inr a"
  obtains b where "check_domain b = Inr a"
  using assms unfolding normalize_domain_def Let_def by (simp split: if_splits option.splits)

lemma normalize_domain_canonical: "normalize_domain idn n = Inr a \<Longrightarrow> canonical a"
  by (erule normalize_domain_cases) (rule check_domain_canonical)

lemma split_on_join: "split_on d (p @ d # s) = split_on d p @ split_on d s"
  by (induction p) (auto split: list.split)

lemma contains_sub_iff: "contains_sub p s \<longleftrightarrow> (\<exists>x y. s = x @ p @ y)"
proof (induction s)
  case Nil
  then show ?case by auto
next
  case (Cons c s)
  show ?case
  proof
    assume "contains_sub p (c # s)"
    then show "\<exists>x y. c # s = x @ p @ y"
      using Cons.IH by (auto intro: exI [of _ "[]"] exI [of _ "c # _"]) (metis append_take_drop_id append_Nil append_Cons)+
  next
    assume "\<exists>x y. c # s = x @ p @ y"
    then obtain x y where "c # s = x @ p @ y" by blast
    then show "contains_sub p (c # s)"
    proof (cases x)
      case Nil
      then have "take (length p) (c # s) = p" using \<open>c # s = x @ p @ y\<close> by simp
      then show ?thesis by simp
    qed (use Cons.IH in auto)
  qed
qed

lemma split_on_chars: "c \<in> set s \<Longrightarrow> c \<noteq> d \<Longrightarrow> \<exists>l \<in> set (split_on d s). c \<in> set l"
  by (induction s) (auto split: list.split)

lemma canonical_chars: "canonical a \<Longrightarrow> c \<in> set a \<Longrightarrow> is_ldh c \<or> c = CHR ''.''"
  using split_on_chars [of c a "CHR ''.''"] by (auto simp: canonical_def)

lemma canonical_no_double: "canonical a \<Longrightarrow> \<not> contains_sub ''..'' a"
proof
  assume c: "canonical a" and "contains_sub ''..'' a"
  then obtain x y where "a = x @ CHR ''.'' # CHR ''.'' # y" by (auto simp: contains_sub_iff)
  then have "[] \<in> set (split_on CHR ''.'' a)" by (simp add: split_on_join)
  then show False using c by (auto simp: canonical_def)
qed

lemma canonical_last: "canonical a \<Longrightarrow> last a \<noteq> CHR ''.''"
proof
  assume c: "canonical a" and l: "last a = CHR ''.''"
  then have "a = butlast a @ CHR ''.'' # []" by (metis append_butlast_last_id canonical_def)
  then have "split_on CHR ''.'' a = split_on CHR ''.'' (butlast a) @ [[]]" by (metis split_on_join split_on.simps(1))
  then show False using c by (auto simp: canonical_def)
qed

lemma canonical_byte: "canonical a \<Longrightarrow> c \<in> set a \<Longrightarrow>
    (45::nat) \<le> of_char c \<and> (of_char c::nat) \<le> 122 \<and> of_char c \<noteq> (47::nat) \<and>
    \<not> (58 \<le> (of_char c :: nat) \<and> (of_char c::nat) \<le> 96)"
  using canonical_chars [of a c] by (auto simp: is_ldh_def is_digit_def)

lemma trim_left_idle: "leading_space encs s = None \<Longrightarrow> trim_left encs s = s"
  by (subst trim_left.simps) simp

lemma leading_space_None: "\<forall>p \<in> set encs. p \<noteq> [] \<longrightarrow> s \<noteq> [] \<longrightarrow> hd s \<noteq> hd p \<Longrightarrow> leading_space encs s = None"
proof (induction encs)
  case (Cons p ps)
  then show ?case by (cases p; cases s) (auto simp: strip_prefix_def)
qed simp

lemma trim_space_canonical: "canonical a \<Longrightarrow> trim_space a = a"
proof -
  assume c: "canonical a"
  then have ne: "a \<noteq> []" by (simp add: canonical_def)
  have h: "hd a \<in> set a" "hd (rev a) \<in> set a" using ne by (simp_all add: hd_rev)
  have "\<forall>p \<in> set space_encodings. hd a \<noteq> hd p"
    using canonical_byte [OF c h(1)] by (auto simp: space_encodings_def)
  then have l: "trim_left space_encodings a = a" by (intro trim_left_idle leading_space_None) simp
  have "\<forall>p \<in> set (map rev space_encodings). hd (rev a) \<noteq> hd p"
    using canonical_byte [OF c h(2)] by (auto simp: space_encodings_def)
  then have "trim_left (map rev space_encodings) (rev a) = rev a" by (intro trim_left_idle leading_space_None) simp
  then show ?thesis using l by (simp add: trim_space_def)
qed

lemma lower_canonical: "canonical a \<Longrightarrow> map ascii_lower a = a"
  by (rule map_idI) (auto simp: ascii_lower_def dest: canonical_byte)

lemma check_domain_idem: "canonical a \<Longrightarrow> check_domain a = Inr a"
proof -
  assume c: "canonical a"
  have "trim_dot a = a" using canonical_last [OF c] by (simp add: trim_dot_def)
  moreover have "check_labels (split_on CHR ''.'' a) = None" using c by (auto simp: check_labels_None canonical_def)
  ultimately show ?thesis using c lower_canonical [OF c]
    by (simp add: check_domain_def canonical_def Let_def del: split_on.simps)
qed

lemma normalize_canonical:
  assumes "canonical a" "contains_sub ''xn--'' a \<Longrightarrow> idn a = Some a"
  shows "normalize_domain idn a = Inr a"
proof -
  have "\<forall>c \<in> set a. c \<notin> set illegal_chars"
    using canonical_byte [OF assms(1)] by (fastforce simp: illegal_chars_def)
  moreover have "needs_idna a \<Longrightarrow> contains_sub ''xn--'' a"
    using canonical_byte [OF assms(1)] lower_canonical [OF assms(1)] by (fastforce simp: needs_idna_def)
  ultimately show ?thesis
    using assms trim_space_canonical [OF assms(1)] canonical_no_double [OF assms(1)] check_domain_idem [OF assms(1)]
    by (simp add: normalize_domain_def Let_def canonical_def)
qed

end
