(* ===== verification/Snapshot.thy ===== *)
theory Snapshot
  imports Ip_Index Domain_Name
begin

text \<open>
  The compiled policy snapshot of \<^verbatim>\<open>internal/policy/snapshot.go\<close>: the merge of the parsed sources into
  one domain table and one IPv4 index, and the lookup that walks a name's label boundaries. A nil
  \<^verbatim>\<open>*Snapshot\<close> is \<open>None\<close>.
\<close>

section \<open>State\<close>

type_synonym domain_flags = "8 word"

definition domain_exact :: domain_flags where "domain_exact = push_bit 0 1"
definition domain_inclusive_suffix :: domain_flags where "domain_inclusive_suffix = push_bit 1 1"
definition domain_descendants :: domain_flags where "domain_descendants = push_bit 2 1"

record parsed_rules =
  rule_domains :: "(string, domain_flags) fmap"
  rule_cidrs :: "prefix list"

record source_rules =
  source_id :: string
  rules :: parsed_rules

record snapshot =
  snap_version :: "64 word"
  generation_id :: string
  created_at :: time
  domain_count :: nat
  cidr_count :: nat
  source_ids :: "string list"
  domains :: "(string, domain_flags) fmap"
  ipv4_part :: ipv4_index

section \<open>Matching\<close>

definition flags_hit :: "bool \<Rightarrow> domain_flags \<Rightarrow> bool" where
  "flags_hit orig f \<longleftrightarrow>
     f AND domain_inclusive_suffix \<noteq> 0 \<or> (orig \<and> f AND domain_exact \<noteq> 0) \<or> (\<not> orig \<and> f AND domain_descendants \<noteq> 0)"

lemma length_drop_to_dot: "dropWhile P q = c # rest \<Longrightarrow> length rest < length q"
  by (metis length_Cons length_dropWhile_le less_eq_Suc_le)

function match_loop :: "(string, domain_flags) fmap \<Rightarrow> bool \<Rightarrow> string \<Rightarrow> bool" where
  "match_loop doms orig q =
     ((case fmlookup doms q of Some f \<Rightarrow> flags_hit orig f | None \<Rightarrow> False) \<or>
      (case dropWhile (\<lambda>c. c \<noteq> CHR ''.'') q of
         [] \<Rightarrow> False
       | _ # rest \<Rightarrow> match_loop doms False rest))"
  by pat_completeness auto

termination
  by (relation "measure (\<lambda>(d, o1, q). length q)") (auto dest: length_drop_to_dot)

declare match_loop.simps [simp del]

definition match_canonical_domain :: "snapshot option \<Rightarrow> string \<Rightarrow> bool" where
  "match_canonical_domain s0 name =
     (case s0 of
        None \<Rightarrow> False
      | Some s \<Rightarrow> if go_len (domains s) = 0 \<or> name = [] then False else match_loop (domains s) True name)"

definition match_domain :: "(string \<Rightarrow> string option) \<Rightarrow> snapshot option \<Rightarrow> string \<Rightarrow> bool" where
  "match_domain idn s0 name =
     (case s0 of
        None \<Rightarrow> False
      | Some s \<Rightarrow> (case normalize_domain idn name of
                    Inl _ \<Rightarrow> False
                  | Inr canon \<Rightarrow> match_canonical_domain (Some s) canon))"

definition match_ipv4 :: "snapshot option \<Rightarrow> addr \<Rightarrow> bool" where
  "match_ipv4 s0 a = (case s0 of None \<Rightarrow> False | Some s \<Rightarrow> ipv4_match (ipv4_part s) a)"

section \<open>Compilation\<close>

text \<open>
  One source's table is folded into the merged one by \<open>mergedDomains[base] |= flags\<close>; the Go loop
  visits the source's entries in an arbitrary order, and since every base occurs once in it the
  result is the pointwise disjunction.
\<close>

definition or_domains :: "(string, domain_flags) fmap \<Rightarrow> (string, domain_flags) fmap \<Rightarrow> (string, domain_flags) fmap" where
  "or_domains merged new =
     merged ++\<^sub>f fmmap_keys (\<lambda>base flags. (case fmlookup merged base of None \<Rightarrow> 0 | Some f \<Rightarrow> f) OR flags) new"

definition add_cidr :: "prefix \<Rightarrow> prefix list \<Rightarrow> prefix list" where
  "add_cidr p allCIDRs = (let canon = masked p in if canon \<in> set allCIDRs then allCIDRs else allCIDRs @ [canon])"

definition compile_snapshot :: "time \<Rightarrow> 64 word \<Rightarrow> string \<Rightarrow> source_rules list \<Rightarrow> snapshot option" where
  "compile_snapshot now version genID sources =
     (if length sources = 0 then None
      else let merged = fold (\<lambda>src m. or_domains m (rule_domains (rules src))) sources fmempty;
               allCIDRs = fold (\<lambda>src acc. fold add_cidr (rule_cidrs (rules src)) acc) sources []
           in Some \<lparr>snap_version = version, generation_id = genID, created_at = now,
                    domain_count = go_len merged, cidr_count = length allCIDRs,
                    source_ids = map source_id sources, domains = merged, ipv4_part = new_ipv4_index allCIDRs\<rparr>)"

section \<open>The walk over label boundaries\<close>

definition table_hit :: "(string, domain_flags) fmap \<Rightarrow> bool \<Rightarrow> string \<Rightarrow> bool" where
  "table_hit d orig q \<longleftrightarrow> (\<exists>f. fmlookup d q = Some f \<and> flags_hit orig f)"

text \<open>The names strictly above a name: what follows one of its dots.\<close>

definition above :: "string \<Rightarrow> string \<Rightarrow> bool" where
  "above b q \<longleftrightarrow> (\<exists>p. q = p @ CHR ''.'' # b)"

lemma above_step:
  assumes "dropWhile (\<lambda>c. c \<noteq> CHR ''.'') q = c # rest"
  shows "above b q \<longleftrightarrow> b = rest \<or> above b rest"
proof -
  have c: "c = CHR ''.''" using hd_dropWhile [of "\<lambda>c. c \<noteq> CHR ''.''" q] assms by auto
  obtain t where q: "q = t @ CHR ''.'' # rest" and nd: "CHR ''.'' \<notin> set t"
    using takeWhile_dropWhile_id [of "\<lambda>c. c \<noteq> CHR ''.''" q] assms c
    by (metis (mono_tags, lifting) set_takeWhileD)
  have "b = rest \<or> above b rest" if p: "t @ CHR ''.'' # rest = p @ CHR ''.'' # b" for p
  proof -
    obtain us where us: "(t = p @ us \<and> us @ CHR ''.'' # rest = CHR ''.'' # b) \<or>
        (t @ us = p \<and> CHR ''.'' # rest = us @ CHR ''.'' # b)"
      using p by (auto simp: append_eq_append_conv2)
    then show ?thesis using nd by (cases us) (auto simp: above_def)
  qed
  moreover have "above b q" if "rest = p @ CHR ''.'' # b" for p
    unfolding above_def q that by (rule exI [of _ "t @ CHR ''.'' # p"]) simp
  ultimately show ?thesis unfolding q by (auto simp: above_def)
qed

lemma above_none: "dropWhile (\<lambda>c. c \<noteq> CHR ''.'') q = [] \<Longrightarrow> \<not> above b q"
  unfolding above_def dropWhile_eq_Nil_conv by (metis in_set_conv_decomp)

lemma match_loop_correct:
  "match_loop d orig q \<longleftrightarrow> table_hit d orig q \<or> (\<exists>b. above b q \<and> table_hit d False b)"
proof (induction d orig q rule: match_loop.induct)
  case (1 d orig q)
  have h: "(case fmlookup d q of Some f \<Rightarrow> flags_hit orig f | None \<Rightarrow> False) \<longleftrightarrow> table_hit d orig q"
    by (auto simp: table_hit_def split: option.split)
  show ?case
  proof (cases "dropWhile (\<lambda>c. c \<noteq> CHR ''.'') q")
    case Nil
    show ?thesis using above_none [OF Nil] unfolding match_loop.simps [of d orig q] h Nil by simp
  next
    case (Cons c rest)
    have "match_loop d False rest \<longleftrightarrow> table_hit d False rest \<or> (\<exists>b. above b rest \<and> table_hit d False b)"
      by (rule "1" [OF Cons])
    then have "match_loop d False rest \<longleftrightarrow> (\<exists>b. above b q \<and> table_hit d False b)"
      unfolding above_step [OF Cons] by auto
    then have "(case c # rest of [] \<Rightarrow> False | _ # rest \<Rightarrow> match_loop d False rest) \<longleftrightarrow>
        (\<exists>b. above b q \<and> table_hit d False b)" unfolding list.case .
    then show ?thesis unfolding match_loop.simps [of d orig q] h Cons by (rule arg_cong)
  qed
qed

section \<open>Merging is pointwise disjunction\<close>

lemma flags_hit_or [simp]: "flags_hit orig (f OR g) \<longleftrightarrow> flags_hit orig f \<or> flags_hit orig g"
  by (auto simp: flags_hit_def bit.conj_disj_distrib2 or_eq_0_iff)

lemma flags_hit_0 [simp]: "\<not> flags_hit orig 0"
  by (simp add: flags_hit_def)

lemma or_domains_hit: "table_hit (or_domains m d) orig q \<longleftrightarrow> table_hit m orig q \<or> table_hit d orig q"
proof (cases "fmlookup d q")
  case None
  then have "fmlookup (or_domains m d) q = fmlookup m q" by (simp add: or_domains_def fmdom_notI)
  then show ?thesis using None by (simp add: table_hit_def)
next
  case (Some f)
  then have "fmlookup (or_domains m d) q = Some ((case fmlookup m q of None \<Rightarrow> 0 | Some g \<Rightarrow> g) OR f)"
    by (simp add: or_domains_def fmdomI)
  then show ?thesis using Some by (auto simp: table_hit_def split: option.split)
qed

lemma fold_or_domains_hit:
  "table_hit (fold (\<lambda>src m. or_domains m (rule_domains (rules src))) srcs m) orig q \<longleftrightarrow>
     table_hit m orig q \<or> (\<exists>src \<in> set srcs. table_hit (rule_domains (rules src)) orig q)"
  by (induction srcs arbitrary: m) (auto simp: or_domains_hit)

lemma set_add_cidrs: "set (fold add_cidr ps acc) = set acc \<union> masked ` set ps"
  by (induction ps arbitrary: acc) (auto simp: add_cidr_def Let_def)

lemma set_all_cidrs:
  "set (fold (\<lambda>src acc. fold add_cidr (rule_cidrs (rules src)) acc) srcs acc) =
     set acc \<union> (\<Union>src \<in> set srcs. masked ` set (rule_cidrs (rules src)))"
  by (induction srcs arbitrary: acc) (auto simp: set_add_cidrs)

lemma distinct_all_cidrs:
  "distinct acc \<Longrightarrow> distinct (fold (\<lambda>src acc. fold add_cidr (rule_cidrs (rules src)) acc) srcs acc)"
proof -
  have one: "distinct acc \<Longrightarrow> distinct (fold add_cidr ps acc)" for ps acc
    by (induction ps arbitrary: acc) (auto simp: add_cidr_def Let_def)
  show "distinct acc \<Longrightarrow> ?thesis" by (induction srcs arbitrary: acc) (auto simp: one)
qed

lemma masked_contains [simp]: "prefix_contains (masked p) x \<longleftrightarrow> prefix_contains p x"
  by (cases p rule: masked.cases) (auto simp: and.assoc)

lemma pbits_masked [simp]: "pbits (masked p) = pbits p" "is4 (paddr (masked p)) = is4 (paddr p)"
  by (cases p rule: masked.cases; simp)+

section \<open>Properties\<close>

definition rule_matches :: "source_rules \<Rightarrow> string \<Rightarrow> bool" where
  "rule_matches src name \<longleftrightarrow> name \<noteq> [] \<and>
     (table_hit (rule_domains (rules src)) True name \<or>
      (\<exists>b. above b name \<and> table_hit (rule_domains (rules src)) False b))"

lemma compiled_domain_matches:
  assumes "compile_snapshot now v g sources = Some s"
  shows "match_canonical_domain (Some s) name \<longleftrightarrow> (\<exists>src \<in> set sources. rule_matches src name)"
proof -
  have d: "domains s = fold (\<lambda>src m. or_domains m (rule_domains (rules src))) sources fmempty"
    using assms by (auto simp: compile_snapshot_def Let_def split: if_splits)
  have hit: "table_hit (domains s) orig q \<longleftrightarrow> (\<exists>src \<in> set sources. table_hit (rule_domains (rules src)) orig q)"
    for orig q unfolding d fold_or_domains_hit by (simp add: table_hit_def)
  have empty: "domains s = fmempty \<Longrightarrow> \<not> table_hit (domains s) orig q" for orig q
    by (simp add: table_hit_def)
  show ?thesis
    using empty hit unfolding rule_matches_def
    by (auto simp: match_canonical_domain_def match_loop_correct)
qed

lemma compiled_ipv4_matches:
  assumes "compile_snapshot now v g sources = Some s"
    and "\<forall>src \<in> set sources. valid_prefixes (rule_cidrs (rules src))"
  shows "(match_ipv4 (Some s) a \<longleftrightarrow>
            (\<exists>x. unmap a = Addr4 x \<and> (\<exists>src \<in> set sources. \<exists>p \<in> set (rule_cidrs (rules src)). prefix_contains p x))) \<and>
         cidr_count s = card (\<Union>src \<in> set sources. masked ` set (rule_cidrs (rules src)))"
proof -
  let ?all = "fold (\<lambda>src acc. fold add_cidr (rule_cidrs (rules src)) acc) sources []"
  have i: "ipv4_part s = new_ipv4_index ?all" and c: "cidr_count s = length ?all"
    using assms(1) by (auto simp: compile_snapshot_def Let_def split: if_splits)
  have all: "set ?all = (\<Union>src \<in> set sources. masked ` set (rule_cidrs (rules src)))"
    by (simp add: set_all_cidrs)
  have "valid_prefixes ?all" using assms(2) all by (auto simp: valid_prefixes_def)
  then have "match_ipv4 (Some s) a \<longleftrightarrow> (\<exists>x. unmap a = Addr4 x \<and> (\<exists>p \<in> set ?all. prefix_contains p x))"
    by (simp add: match_ipv4_def i index.hit_iff)
  moreover have "length ?all = card (set ?all)" by (simp add: distinct_all_cidrs distinct_card)
  ultimately show ?thesis unfolding c all by auto
qed

text \<open>
  C28: a compiled snapshot matches a canonical domain exactly when one of its sources does: by a
  rule on the name itself that is exact or inclusive, or by a rule on a name above it, at a label
  boundary, that is inclusive or covers descendants. Merging sources neither hides nor invents a
  match.
\<close>

theorem snapshot_domain_matches:
  assumes "compile_snapshot now v g sources = Some s"
  shows "match_canonical_domain (Some s) name \<longleftrightarrow> (\<exists>src \<in> set sources. rule_matches src name)"
  using assms by (rule compiled_domain_matches)

text \<open>
  C29: a compiled snapshot matches an address exactly when a prefix of one of its sources contains
  it, and its count is the number of distinct canonical prefixes.
\<close>

theorem snapshot_ipv4_matches:
  assumes "compile_snapshot now v g sources = Some s"
    and "\<forall>src \<in> set sources. valid_prefixes (rule_cidrs (rules src))"
  shows "(match_ipv4 (Some s) a \<longleftrightarrow>
            (\<exists>x. unmap a = Addr4 x \<and> (\<exists>src \<in> set sources. \<exists>p \<in> set (rule_cidrs (rules src)). prefix_contains p x))) \<and>
         cidr_count s = card (\<Union>src \<in> set sources. masked ` set (rule_cidrs (rules src)))"
  using assms by (rule compiled_ipv4_matches)

text \<open>
  C38: a normalised domain is canonical (lower-case letters, digits and hyphens in labels of 1 to
  63 bytes, at most 253 in all, not an IPv4 literal), and normalising it again changes nothing,
  provided the IDNA mapping leaves its own output alone.
\<close>

theorem normalize_idempotent:
  assumes "normalize_domain idn name = Inr a" "contains_sub ''xn--'' a \<Longrightarrow> idn a = Some a"
  shows "canonical a \<and> normalize_domain idn a = Inr a"
  using normalize_domain_canonical [OF assms(1)] normalize_canonical assms(2) by blast

section \<open>Witnesses\<close>

definition demo_sources :: "source_rules list" where
  "demo_sources =
     [\<lparr>source_id = ''a'', rules = \<lparr>rule_domains = fmupd ''ru'' 4 fmempty, rule_cidrs = [Prefix (Addr4 0x0a000001) 8]\<rparr>\<rparr>,
      \<lparr>source_id = ''b'', rules = \<lparr>rule_domains = fmupd ''ya.ru'' 1 fmempty, rule_cidrs = [Prefix (Addr4 0x0a000000) 8]\<rparr>\<rparr>]"

lemma demo_compiles: "\<exists>s. compile_snapshot 0 1 ''g'' demo_sources = Some s"
  by (simp add: compile_snapshot_def demo_sources_def Let_def)

theorem snapshot_domain_matches_witness:
  "\<exists>s. compile_snapshot 0 1 ''g'' demo_sources = Some s \<and> match_canonical_domain (Some s) ''ya.ru'' \<and>
       \<not> match_canonical_domain (Some s) ''ru''"
proof -
  obtain s where s: "compile_snapshot 0 1 ''g'' demo_sources = Some s" using demo_compiles by blast
  have "rule_matches (hd demo_sources) ''ya.ru''"
    by (auto simp: rule_matches_def demo_sources_def table_hit_def flags_hit_def domain_descendants_def above_def
        intro!: exI [of _ "''ru''"])
  moreover have "\<not> rule_matches src ''ru''" if "src \<in> set demo_sources" for src
    using that by (auto simp: rule_matches_def demo_sources_def table_hit_def flags_hit_def domain_descendants_def
        domain_exact_def domain_inclusive_suffix_def above_def Cons_eq_append_conv)
  ultimately show ?thesis
    using s snapshot_domain_matches [OF s] by (auto simp: demo_sources_def)
qed

theorem snapshot_ipv4_matches_witness:
  "\<exists>s. compile_snapshot 0 1 ''g'' demo_sources = Some s \<and> cidr_count s = 1"
proof -
  obtain s where s: "compile_snapshot 0 1 ''g'' demo_sources = Some s" using demo_compiles by blast
  have v: "\<forall>src \<in> set demo_sources. valid_prefixes (rule_cidrs (rules src))"
    by (simp add: demo_sources_def valid_prefixes_def)
  have "masked (Prefix (Addr4 0x0a000001) 8) = masked (Prefix (Addr4 0x0a000000) 8)" by code_simp
  then have "card (\<Union>src \<in> set demo_sources. masked ` set (rule_cidrs (rules src))) = 1"
    by (simp add: demo_sources_def)
  then show ?thesis using s snapshot_ipv4_matches [OF s v] by auto
qed

lemma normalize_demo: "normalize_domain (\<lambda>_. None) ''Ya.RU.'' = Inr ''ya.ru''"
  by code_simp

theorem normalize_idempotent_witness:
  "normalize_domain (\<lambda>_. None) ''ya.ru'' = Inr ''ya.ru''"
proof -
  have "\<not> contains_sub ''xn--'' ''ya.ru''" by simp
  then show ?thesis using normalize_idempotent [OF normalize_demo] by blast
qed

end
