(* ===== verification/Route_Cache.thy ===== *)
theory Route_Cache
  imports Snapshot
begin

text \<open>
  The per-session route evidence of \<^verbatim>\<open>internal/policy/route_cache.go\<close>: bounded caches of decisions for
  destination addresses, in which evidence for the proxy beats evidence for the direct path, and
  which fall back to the unknown decision when a capacity is exceeded.

  Callers keep a \<^verbatim>\<open>*SessionCache\<close> after the cache has dropped it, so session caches live in a heap
  of their own, indexed by references; the cache's \<open>sessions\<close> map holds references. A Go \<open>range\<close>
  over a map visits its keys in an unspecified order: the order is an argument (\<open>ord\<close>), and the
  theorems hold for every enumeration.
\<close>

section \<open>Data\<close>

datatype decision = Unknown | Direct | Proxy

record scope =
  scope_session :: string
  scope_epoch :: "64 word"

record observation =
  obs_ip :: addr
  obs_decision :: decision
  obs_expires :: time

record cache_config =
  max_sessions :: int
  max_entries_per_session :: int
  max_entries_total :: int
  max_ttl :: duration

record route_entry =
  decision :: decision
  expires_at :: time

record route_view =
  entries :: "(ipv4, route_entry) fmap"
  view_generation :: string
  unknown_until :: time
  retired :: bool

record session_cache =
  sc_scope :: scope
  view :: "route_view option"

type_synonym ref = nat

record route_cache =
  cfg :: cache_config
  policy_generation :: string
  sessions :: "(scope, ref) fmap"
  total_entries :: int
  heap :: "(ref, session_cache) fmap"
  next_ref :: ref

datatype cache_error =
    ErrInvalidScope
  | ErrMaxSessionsReached
  | ErrSessionRetired
  | ErrGenerationMismatch
  | ErrInvalidGeneration
  | ErrInvalidObservation
  | ErrCapacityExceeded

section \<open>Construction and configuration\<close>

definition default_config :: "cache_config \<Rightarrow> cache_config" where
  "default_config c =
     \<lparr>max_sessions = (if max_sessions c \<le> 0 then 128 else max_sessions c),
      max_entries_per_session = (if max_entries_per_session c \<le> 0 then 1024 else max_entries_per_session c),
      max_entries_total = (if max_entries_total c \<le> 0 then 65536 else max_entries_total c),
      max_ttl = (if max_ttl c \<le> 0 then 3600 * second else max_ttl c)\<rparr>"

definition new_route_cache :: "cache_config \<Rightarrow> route_cache option" where
  "new_route_cache cfg0 =
     (let c = default_config cfg0
      in if 65536 < max_sessions c \<or> 65536 < max_entries_per_session c \<or>
            1048576 < max_entries_total c \<or> 24 * 3600 * second < max_ttl c
         then None
         else Some \<lparr>cfg = c, policy_generation = [], sessions = fmempty, total_entries = 0,
                    heap = fmempty, next_ref = 0\<rparr>)"

definition empty_view :: "string \<Rightarrow> time \<Rightarrow> bool \<Rightarrow> route_view" where
  "empty_view g u r = \<lparr>entries = fmempty, view_generation = g, unknown_until = u, retired = r\<rparr>"

text \<open>\<open>s.view.Load()\<close> and \<open>s.view.Store(v)\<close> through a reference.\<close>

definition load_view :: "route_cache \<Rightarrow> ref \<Rightarrow> route_view option" where
  "load_view c r = (case fmlookup (heap c) r of None \<Rightarrow> None | Some s \<Rightarrow> view s)"

definition store_view :: "ref \<Rightarrow> route_view \<Rightarrow> route_cache \<Rightarrow> route_cache" where
  "store_view r v c =
     (case fmlookup (heap c) r of
        None \<Rightarrow> c
      | Some s \<Rightarrow> c\<lparr>heap := fmupd r (s\<lparr>view := Some v\<rparr>) (heap c)\<rparr>)"

definition reset_session :: "string \<Rightarrow> scope \<Rightarrow> route_cache \<Rightarrow> route_cache" where
  "reset_session generation sc c =
     (case fmlookup (sessions c) sc of
        None \<Rightarrow> c
      | Some r \<Rightarrow>
          (case load_view c r of
             None \<Rightarrow> c
           | Some oldV \<Rightarrow>
               if retired oldV then c else store_view r (empty_view generation (unknown_until oldV) False) c))"

definition set_policy_generation :: "(scope fset \<Rightarrow> scope list) \<Rightarrow> string \<Rightarrow> route_cache \<Rightarrow> route_cache" where
  "set_policy_generation ord generation c =
     (if generation = policy_generation c then c
      else (fold (reset_session generation) (ord (fmdom (sessions c))) (c\<lparr>policy_generation := generation\<rparr>))
             \<lparr>total_entries := 0\<rparr>)"

definition open_session :: "scope \<Rightarrow> route_cache \<Rightarrow> route_cache \<times> (cache_error + ref)" where
  "open_session sc c =
     (if scope_session sc = [] then (c, Inl ErrInvalidScope)
      else case fmlookup (sessions c) sc of
        Some r \<Rightarrow> (c, Inr r)
      | None \<Rightarrow>
          if max_sessions (cfg c) \<le> int (go_len (sessions c)) then (c, Inl ErrMaxSessionsReached)
          else let r = next_ref c; s = \<lparr>sc_scope = sc, view = Some (empty_view (policy_generation c) 0 False)\<rparr>
               in (c\<lparr>sessions := fmupd sc r (sessions c), heap := fmupd r s (heap c), next_ref := r + 1\<rparr>, Inr r))"

section \<open>Lookup\<close>

definition view_lookup :: "route_view option \<Rightarrow> addr \<Rightarrow> string \<Rightarrow> time \<Rightarrow> decision" where
  "view_lookup v0 ip g now =
     (case v0 of
        None \<Rightarrow> Unknown
      | Some v \<Rightarrow>
          if retired v then Unknown
          else if view_generation v = [] \<or> view_generation v \<noteq> g then Unknown
          else if unknown_until v \<noteq> 0 \<and> now < unknown_until v then Unknown
          else if \<not> is_valid ip \<or> \<not> is4 ip then Unknown
          else case fmlookup (entries v) (as4 ip) of
            None \<Rightarrow> Unknown
          | Some e \<Rightarrow> if \<not> now < expires_at e then Unknown else decision e)"

definition route_lookup :: "route_cache \<Rightarrow> ref \<Rightarrow> addr \<Rightarrow> string \<Rightarrow> time \<Rightarrow> decision" where
  "route_lookup c r ip g now = view_lookup (load_view c r) ip g now"

section \<open>Observation\<close>

fun validate_batch :: "time \<Rightarrow> duration \<Rightarrow> observation list \<Rightarrow> cache_error option" where
  "validate_batch now maxTTL [] = None"
| "validate_batch now maxTTL (obs # batch) =
     (if obs_decision obs \<noteq> Direct \<and> obs_decision obs \<noteq> Proxy then Some ErrInvalidObservation
      else if \<not> is_valid (obs_ip obs) \<or> \<not> is4 (obs_ip obs) then Some ErrInvalidObservation
      else if validate_fetch_ip (obs_ip obs) \<noteq> Inr () then Some ErrInvalidObservation
      else if \<not> now < obs_expires obs \<and> obs_decision obs \<noteq> Proxy then Some ErrInvalidObservation
      else if now + maxTTL < obs_expires obs then Some ErrInvalidObservation
      else validate_batch now maxTTL batch)"

type_synonym folded = "(ipv4, observation) fmap"

definition fold_obs :: "observation \<Rightarrow> folded \<Rightarrow> folded" where
  "fold_obs obs m =
     (let k = as4 (obs_ip obs)
      in case fmlookup m k of
           None \<Rightarrow> fmupd k obs m
         | Some existing \<Rightarrow>
             if obs_decision existing = Direct \<and> obs_decision obs = Proxy then fmupd k obs m
             else if obs_decision existing = Proxy \<and> obs_decision obs = Direct then m
             else if obs_decision existing = Direct \<and> obs_decision obs = Direct
             then (if obs_expires existing < obs_expires obs then fmupd k obs m else m)
             else if obs_decision existing = Proxy \<and> obs_decision obs = Proxy
             then (if obs_expires existing < obs_expires obs then fmupd k obs m else m)
             else m)"

definition fold_batch :: "observation list \<Rightarrow> folded" where
  "fold_batch batch = fold fold_obs batch fmempty"

definition merge_step :: "time \<Rightarrow> folded \<Rightarrow> ipv4 \<Rightarrow> (ipv4, route_entry) fmap \<Rightarrow> (ipv4, route_entry) fmap" where
  "merge_step now fd k m =
     (case fmlookup fd k of
        None \<Rightarrow> m
      | Some obs \<Rightarrow>
          (case fmlookup m k of
             None \<Rightarrow>
               if obs_decision obs = Proxy \<and> \<not> now < obs_expires obs then m
               else fmupd k \<lparr>decision = obs_decision obs, expires_at = obs_expires obs\<rparr> m
           | Some existing \<Rightarrow>
               if decision existing = Direct \<and> obs_decision obs = Direct
               then fmupd k \<lparr>decision = Direct, expires_at = max_time (expires_at existing) (obs_expires obs)\<rparr> m
               else if decision existing = Direct \<and> obs_decision obs = Proxy
               then (if \<not> now < obs_expires obs then fmdrop k m
                     else fmupd k \<lparr>decision = Proxy, expires_at = obs_expires obs\<rparr> m)
               else if decision existing = Proxy \<and> obs_decision obs = Direct then m
               else if decision existing = Proxy \<and> obs_decision obs = Proxy
               then fmupd k \<lparr>decision = Proxy, expires_at = max_time (expires_at existing) (obs_expires obs)\<rparr> m
               else m))"

type_synonym ip_order = "ipv4 fset \<Rightarrow> ipv4 list"

definition merge_conflict_resolution ::
    "ip_order \<Rightarrow> (ipv4, route_entry) fmap \<Rightarrow> folded \<Rightarrow> time \<Rightarrow> (ipv4, route_entry) fmap \<times> bool" where
  "merge_conflict_resolution ord m fd now =
     (let ks = ord (fmdom fd)
      in (fold (merge_step now fd) ks m,
          list_ex (\<lambda>k. case fmlookup fd k of Some obs \<Rightarrow> obs_decision obs = Proxy | None \<Rightarrow> False) ks))"

definition latest :: "('v \<Rightarrow> time) \<Rightarrow> (ipv4, 'v) fmap \<Rightarrow> ipv4 list \<Rightarrow> time \<Rightarrow> time" where
  "latest f m ks t0 =
     fold (\<lambda>k t. case fmlookup m k of Some v \<Rightarrow> if t < f v then f v else t | None \<Rightarrow> t) ks t0"

definition quarantine_session :: "ip_order \<Rightarrow> ref \<Rightarrow> route_view \<Rightarrow> folded \<Rightarrow> route_cache \<Rightarrow> route_cache" where
  "quarantine_session ord r currentView fd c =
     (let u1 = latest expires_at (entries currentView) (ord (fmdom (entries currentView))) (unknown_until currentView);
          u2 = latest obs_expires fd (ord (fmdom fd)) u1;
          c' = store_view r (empty_view (policy_generation c) u2 False) c
      in c'\<lparr>total_entries := total_entries c' - int (go_len (entries currentView))\<rparr>)"

fun evict_direct :: "int \<Rightarrow> ipv4 list \<Rightarrow> (ipv4, route_entry) fmap \<Rightarrow> int \<Rightarrow> (ipv4, route_entry) fmap \<times> int" where
  "evict_direct needed [] m evicted = (m, evicted)"
| "evict_direct needed (k # ks) m evicted =
     (case fmlookup m k of
        None \<Rightarrow> evict_direct needed ks m evicted
      | Some e \<Rightarrow>
          if decision e = Direct
          then (if needed \<le> evicted + 1 then (fmdrop k m, evicted + 1)
                else evict_direct needed ks (fmdrop k m) (evicted + 1))
          else evict_direct needed ks m evicted)"

text \<open>
  \<open>checkCapacityAndEvict\<close> mutates \<open>newEntries\<close>; its answer is the mutated map, or that the session
  has to be quarantined.
\<close>

definition check_capacity_and_evict ::
    "ip_order \<Rightarrow> route_cache \<Rightarrow> route_view \<Rightarrow> (ipv4, route_entry) fmap \<Rightarrow> bool \<Rightarrow>
     (ipv4, route_entry) fmap option" where
  "check_capacity_and_evict ord c currentView newEntries hasIncomingProxy =
     (let sessionExcess = int (go_len newEntries) - max_entries_per_session (cfg c);
          needed0 = (if 0 < sessionExcess then sessionExcess else 0);
          entriesDelta = int (go_len newEntries) - int (go_len (entries currentView));
          totalExcess = (total_entries c + entriesDelta) - max_entries_total (cfg c);
          needed = (if needed0 < totalExcess then totalExcess else needed0)
      in if needed \<le> 0 then Some newEntries
         else let (m, evicted) = evict_direct needed (ord (fmdom newEntries)) newEntries 0;
                  recheckDelta = int (go_len m) - int (go_len (entries currentView))
              in if max_entries_per_session (cfg c) < int (go_len m) \<or>
                    max_entries_total (cfg c) < total_entries c + recheckDelta \<or>
                    (hasIncomingProxy \<and> evicted < needed)
                 then None else Some m)"

text \<open>The entries whose deadline is still ahead.\<close>

definition unexpired :: "time \<Rightarrow> (ipv4, route_entry) fmap \<Rightarrow> (ipv4, route_entry) fmap" where
  "unexpired now m = fmfilter (\<lambda>k. case fmlookup m k of Some e \<Rightarrow> now < expires_at e | None \<Rightarrow> False) m"

definition observe ::
    "ip_order \<Rightarrow> ref \<Rightarrow> string \<Rightarrow> observation list \<Rightarrow> time \<Rightarrow> route_cache \<Rightarrow> route_cache \<times> (cache_error + unit)" where
  "observe ord r g batch now c =
     (if g = [] then (c, Inl ErrInvalidGeneration)
      else if batch = [] then (c, Inr ())
      else case validate_batch now (max_ttl (cfg c)) batch of
        Some e \<Rightarrow> (c, Inl e)
      | None \<Rightarrow>
          let fd = fold_batch batch
          in case load_view c r of
               None \<Rightarrow> (c, Inl ErrSessionRetired)
             | Some v \<Rightarrow>
                 if retired v then (c, Inl ErrSessionRetired)
                 else if g \<noteq> policy_generation c \<or> policy_generation c \<noteq> view_generation v
                 then (c, Inl ErrGenerationMismatch)
                 else if unknown_until v \<noteq> 0 \<and> now < unknown_until v
                 then let u = fold (\<lambda>k t. case fmlookup fd k of
                                Some obs \<Rightarrow> if obs_decision obs = Proxy \<and> t < obs_expires obs then obs_expires obs else t
                              | None \<Rightarrow> t) (ord (fmdom fd)) (unknown_until v)
                      in (if u \<noteq> unknown_until v then store_view r (empty_view (policy_generation c) u False) c else c,
                          Inl ErrCapacityExceeded)
                 else let live = unexpired now (entries v);
                          (merged, hasProxy) = merge_conflict_resolution ord live fd now
                      in case check_capacity_and_evict ord c v merged hasProxy of
                           None \<Rightarrow> (quarantine_session ord r v fd c, Inl ErrCapacityExceeded)
                         | Some m \<Rightarrow>
                             let c' = store_view r \<lparr>entries = m, view_generation = policy_generation c,
                                                    unknown_until = 0, retired = False\<rparr> c
                             in (c'\<lparr>total_entries := total_entries c' + (int (go_len m) - int (go_len (entries v)))\<rparr>,
                                 Inr ()))"

section \<open>Retirement and sweeping\<close>

definition invalidate :: "ref \<Rightarrow> route_cache \<Rightarrow> route_cache" where
  "invalidate r c =
     (case fmlookup (heap c) r of
        None \<Rightarrow> c
      | Some s \<Rightarrow>
          (let oldV = view s
           in case oldV of
                Some v \<Rightarrow>
                  if retired v then c
                  else let c' = store_view r (empty_view [] 0 True) c
                       in c'\<lparr>total_entries := total_entries c' - int (go_len (entries v)),
                             sessions := fmdrop (sc_scope s) (sessions c')\<rparr>
              | None \<Rightarrow>
                  let c' = store_view r (empty_view [] 0 True) c
                  in c'\<lparr>sessions := fmdrop (sc_scope s) (sessions c')\<rparr>))"

definition sweep_session :: "time \<Rightarrow> scope \<Rightarrow> route_cache \<Rightarrow> route_cache" where
  "sweep_session now sc c =
     (case fmlookup (sessions c) sc of
        None \<Rightarrow> c
      | Some r \<Rightarrow>
          (case load_view c r of
             None \<Rightarrow> c\<lparr>sessions := fmdrop sc (sessions c)\<rparr>
           | Some v \<Rightarrow>
               if retired v then c\<lparr>sessions := fmdrop sc (sessions c)\<rparr>
               else let cleared = unknown_until v \<noteq> 0 \<and> \<not> now < unknown_until v;
                        unknownUntil = (if cleared then 0 else unknown_until v);
                        kept = unexpired now (entries v);
                        pruned = int (go_len (entries v)) - int (go_len kept)
                    in if 0 < pruned \<or> cleared
                       then let c' = c\<lparr>total_entries := total_entries c - pruned\<rparr>
                            in store_view r \<lparr>entries = kept, view_generation = view_generation v,
                                             unknown_until = unknownUntil, retired = False\<rparr> c'
                       else c))"

definition sweep :: "(scope fset \<Rightarrow> scope list) \<Rightarrow> time \<Rightarrow> route_cache \<Rightarrow> route_cache" where
  "sweep ord now c = fold (sweep_session now) (ord (fmdom (sessions c))) c"

section \<open>The invariant\<close>

definition entry_count :: "session_cache \<Rightarrow> int" where
  "entry_count s = (case view s of None \<Rightarrow> 0 | Some v \<Rightarrow> int (go_len (entries v)))"

definition sc_ok :: "route_cache \<Rightarrow> ref \<Rightarrow> session_cache \<Rightarrow> bool" where
  "sc_ok c r s \<longleftrightarrow>
     (\<exists>v. view s = Some v \<and>
          (if retired v then entries v = fmempty else fmlookup (sessions c) (sc_scope s) = Some r) \<and>
          (unknown_until v \<noteq> 0 \<longrightarrow> entries v = fmempty) \<and>
          int (go_len (entries v)) \<le> max_entries_per_session (cfg c))"

definition rc_shape :: "route_cache \<Rightarrow> bool" where
  "rc_shape c \<longleftrightarrow>
     (\<forall>r s. fmlookup (heap c) r = Some s \<longrightarrow> sc_ok c r s \<and> r < next_ref c) \<and>
     (\<forall>sc r. fmlookup (sessions c) sc = Some r \<longrightarrow>
        (\<exists>s v. fmlookup (heap c) r = Some s \<and> sc_scope s = sc \<and> view s = Some v \<and> \<not> retired v)) \<and>
     int (go_len (sessions c)) \<le> max_sessions (cfg c) \<and>
     0 < max_entries_per_session (cfg c) \<and> 0 < max_entries_total (cfg c)"

definition rc_inv :: "route_cache \<Rightarrow> bool" where
  "rc_inv c \<longleftrightarrow> rc_shape c \<and> total_entries c = fmsum entry_count (heap c) \<and>
     total_entries c \<le> max_entries_total (cfg c)"

lemma shapeD:
  assumes "rc_shape c" "load_view c r = Some v"
  shows "\<exists>s. fmlookup (heap c) r = Some s \<and> view s = Some v \<and> sc_ok c r s"
    and "\<not> retired v \<Longrightarrow> \<exists>s. fmlookup (heap c) r = Some s \<and> fmlookup (sessions c) (sc_scope s) = Some r"
    and "retired v \<or> unknown_until v \<noteq> 0 \<Longrightarrow> entries v = fmempty"
    and "int (go_len (entries v)) \<le> max_entries_per_session (cfg c)"
proof -
  obtain s where s: "fmlookup (heap c) r = Some s" "view s = Some v"
    using assms(2) by (auto simp: load_view_def split: option.splits)
  then have k: "sc_ok c r s" using assms(1) by (simp add: rc_shape_def)
  show "\<exists>s. fmlookup (heap c) r = Some s \<and> view s = Some v \<and> sc_ok c r s" using s k by blast
  show "\<exists>s. fmlookup (heap c) r = Some s \<and> fmlookup (sessions c) (sc_scope s) = Some r" if "\<not> retired v"
    using s k that by (auto simp: sc_ok_def)
  show "entries v = fmempty" if "retired v \<or> unknown_until v \<noteq> 0"
    using s k that by (auto simp: sc_ok_def split: if_splits)
  show "int (go_len (entries v)) \<le> max_entries_per_session (cfg c)" using s k by (auto simp: sc_ok_def)
qed

lemma shape_sessions:
  assumes "rc_shape c" "fmlookup (sessions c) sc = Some r"
  obtains s v where "fmlookup (heap c) r = Some s" "sc_scope s = sc" "view s = Some v" "\<not> retired v"
    "load_view c r = Some v"
  using assms unfolding rc_shape_def by (fastforce simp: load_view_def)

lemma load_store:
  "load_view (store_view r v c) r' =
     (if r' = r \<and> fmlookup (heap c) r \<noteq> None then Some v else load_view c r')"
  by (auto simp: load_view_def store_view_def split: option.split)

lemma load_store_Some:
  "load_view c r = Some w \<Longrightarrow> load_view (store_view r v c) r' = (if r' = r then Some v else load_view c r')"
  by (auto simp: load_store) (simp add: load_view_def)

lemma load_view_more [simp]: "load_view (c\<lparr>total_entries := n\<rparr>) r = load_view c r"
  "load_view (c\<lparr>sessions := m\<rparr>) r = load_view c r" "load_view (c\<lparr>policy_generation := g\<rparr>) r = load_view c r"
  by (simp_all add: load_view_def)

lemma store_view_fields [simp]:
  "sessions (store_view r v c) = sessions c" "cfg (store_view r v c) = cfg c"
  "total_entries (store_view r v c) = total_entries c" "next_ref (store_view r v c) = next_ref c"
  "policy_generation (store_view r v c) = policy_generation c"
  by (auto simp: store_view_def split: option.split)

lemma rc_shape_more [simp]: "rc_shape (c\<lparr>total_entries := n\<rparr>) = rc_shape c"
  "rc_shape (c\<lparr>policy_generation := g\<rparr>) = rc_shape c"
  by (auto simp: rc_shape_def sc_ok_def)

text \<open>Publishing a new live view over a live view.\<close>

lemma store_live_shape:
  assumes "rc_shape c" "load_view c r = Some v" "\<not> retired v" "\<not> retired v'"
    and "unknown_until v' \<noteq> 0 \<longrightarrow> entries v' = fmempty"
    and "int (go_len (entries v')) \<le> max_entries_per_session (cfg c)"
  shows "rc_shape (store_view r v' c)"
proof -
  obtain s where s: "fmlookup (heap c) r = Some s" "view s = Some v" "sc_ok c r s"
    using shapeD(1) [OF assms(1,2)] by blast
  have live: "fmlookup (sessions c) (sc_scope s) = Some r" using s(2,3) assms(3) by (simp add: sc_ok_def)
  have h: "store_view r v' c = c\<lparr>heap := fmupd r (s\<lparr>view := Some v'\<rparr>) (heap c)\<rparr>"
    using s(1) by (simp add: store_view_def)
  have k: "sc_ok (store_view r v' c) q t = sc_ok c q t" for q t by (simp add: sc_ok_def h)
  have new: "sc_ok c r (s\<lparr>view := Some v'\<rparr>)" using live assms(4-6) by (simp add: sc_ok_def)
  have "\<exists>s' v. fmlookup (heap (store_view r v' c)) q = Some s' \<and> sc_scope s' = sc \<and> view s' = Some v \<and> \<not> retired v"
    if q: "fmlookup (sessions c) sc = Some q" for sc q
  proof (cases "q = r")
    case True
    obtain s0 where "fmlookup (heap c) q = Some s0" "sc_scope s0 = sc"
      using shape_sessions [OF assms(1) q] by metis
    then show ?thesis using True s(1) assms(4) by (simp add: h)
  next
    case False
    obtain s0 v0 where "fmlookup (heap c) q = Some s0" "sc_scope s0 = sc" "view s0 = Some v0" "\<not> retired v0"
      using shape_sessions [OF assms(1) q] by metis
    then show ?thesis using False by (simp add: h)
  qed
  moreover have "sc_ok c q t \<and> q < next_ref c" if "fmlookup (heap (store_view r v' c)) q = Some t" for q t
    using that new assms(1) s(1) unfolding h by (auto simp: rc_shape_def split: if_splits)
  ultimately show ?thesis using assms(1) unfolding rc_shape_def k by simp
qed

lemma store_sum:
  assumes "load_view c r = Some v"
  shows "fmsum entry_count (heap (store_view r v' c)) =
           fmsum entry_count (heap c) + int (go_len (entries v')) - int (go_len (entries v))"
proof -
  obtain s where "fmlookup (heap c) r = Some s" "view s = Some v"
    using assms by (auto simp: load_view_def split: option.splits)
  then show ?thesis by (simp add: store_view_def fmsum_upd entry_count_def)
qed

lemma store_live_inv:
  assumes "rc_inv c" "load_view c r = Some v" "\<not> retired v" "\<not> retired v'"
    and "unknown_until v' \<noteq> 0 \<longrightarrow> entries v' = fmempty"
    and "int (go_len (entries v')) \<le> max_entries_per_session (cfg c)"
    and "n = total_entries c + (int (go_len (entries v')) - int (go_len (entries v)))"
    and "n \<le> max_entries_total (cfg c)"
  shows "rc_inv ((store_view r v' c)\<lparr>total_entries := n\<rparr>)"
proof -
  have "rc_shape (store_view r v' c)"
    by (rule store_live_shape [OF _ assms(2-6)]) (use assms(1) in \<open>simp add: rc_inv_def\<close>)
  then show ?thesis
    using assms(1,7,8) store_sum [OF assms(2), of v'] by (simp add: rc_inv_def)
qed

section \<open>Every operation keeps the invariant\<close>

lemma new_route_cache_inv [inv_intros]: "new_route_cache k = Some c \<Longrightarrow> rc_inv c"
  by (auto simp: new_route_cache_def default_config_def Let_def rc_inv_def rc_shape_def split: if_splits)

lemma open_session_inv [inv_intros]:
  assumes "rc_inv c"
  shows "rc_inv (fst (open_session sc c))"
proof -
  let ?r = "next_ref c"
  let ?s = "\<lparr>sc_scope = sc, view = Some (empty_view (policy_generation c) 0 False)\<rparr>"
  let ?c = "c\<lparr>sessions := fmupd sc ?r (sessions c), heap := fmupd ?r ?s (heap c), next_ref := ?r + 1\<rparr>"
  have "rc_inv ?c" if new: "fmlookup (sessions c) sc = None" and room: "int (go_len (sessions c)) < max_sessions (cfg c)"
  proof -
    have sh: "rc_shape c" using assms by (simp add: rc_inv_def)
    have fresh: "fmlookup (heap c) ?r = None"
    proof (rule ccontr)
      assume "fmlookup (heap c) ?r \<noteq> None"
      then obtain t where "fmlookup (heap c) ?r = Some t" by blast
      then show False using sh by (auto simp: rc_shape_def)
    qed
    have old: "sc_ok ?c q t \<and> q < ?r + 1" if "fmlookup (heap c) q = Some t" for q t
    proof -
      have k: "sc_ok c q t" "q < ?r" using sh that by (auto simp: rc_shape_def)
      then obtain v where v: "view t = Some v" by (auto simp: sc_ok_def)
      have "\<not> retired v \<Longrightarrow> sc_scope t \<noteq> sc" using k(1) v new by (auto simp: sc_ok_def)
      then show ?thesis using k v by (cases "retired v") (auto simp: sc_ok_def)
    qed
    moreover have "sc_ok ?c ?r ?s" using sh by (simp add: sc_ok_def empty_view_def rc_shape_def)
    moreover have "\<exists>s v. fmlookup (heap ?c) q = Some s \<and> sc_scope s = d \<and> view s = Some v \<and> \<not> retired v"
      if q: "fmlookup (sessions ?c) d = Some q" for d q
    proof (cases "d = sc")
      case True
      then show ?thesis using q by (simp add: empty_view_def)
    next
      case False
      then have "fmlookup (sessions c) d = Some q" using q by simp
      then obtain s v where "fmlookup (heap c) q = Some s" "sc_scope s = d" "view s = Some v" "\<not> retired v"
        using shape_sessions [OF sh] by metis
      moreover from this have "q \<noteq> ?r" using fresh by auto
      ultimately show ?thesis by simp
    qed
    ultimately have "rc_shape ?c" using sh new room unfolding rc_shape_def by (simp split: if_splits)
    moreover have "fmsum entry_count (heap ?c) = fmsum entry_count (heap c)"
      using fresh by (simp add: fmsum_notin entry_count_def empty_view_def)
    ultimately show ?thesis using assms by (simp add: rc_inv_def)
  qed
  then show ?thesis using assms by (auto simp: open_session_def Let_def split: option.split)
qed

lemma reset_session_shape: "rc_shape c \<Longrightarrow> rc_shape (reset_session g sc c)"
  unfolding reset_session_def
  by (auto split: option.split intro!: store_live_shape simp: empty_view_def) (simp add: rc_shape_def)

lemma reset_session_fields [simp]:
  "sessions (reset_session g sc c) = sessions c" "cfg (reset_session g sc c) = cfg c"
  "policy_generation (reset_session g sc c) = policy_generation c"
  by (auto simp: reset_session_def split: option.split)

lemma reset_all_fields [simp]:
  "sessions (fold (reset_session g) ks c) = sessions c" "cfg (fold (reset_session g) ks c) = cfg c"
  "policy_generation (fold (reset_session g) ks c) = policy_generation c"
  by (induction ks arbitrary: c) simp_all

lemma reset_all_shape: "rc_shape c \<Longrightarrow> rc_shape (fold (reset_session g) ks c)"
  by (induction ks arbitrary: c) (simp_all add: reset_session_shape)

lemma reset_session_load:
  "load_view (reset_session g sc c) r =
     (case load_view c r of
        None \<Rightarrow> None
      | Some v \<Rightarrow> if fmlookup (sessions c) sc = Some r \<and> \<not> retired v
                 then Some (empty_view g (unknown_until v) False) else Some v)"
proof (cases "fmlookup (sessions c) sc")
  case None
  then show ?thesis by (simp add: reset_session_def split: option.split)
next
  case (Some q)
  show ?thesis
  proof (cases "load_view c q")
    case None
    then show ?thesis using Some by (auto simp: reset_session_def split: option.split)
  next
    case w: (Some w)
    then show ?thesis using Some by (auto simp: reset_session_def load_store_Some [OF w] split: option.split)
  qed
qed

lemma reset_all_load:
  "load_view (fold (reset_session g) ks c) r =
     (case load_view c r of
        None \<Rightarrow> None
      | Some v \<Rightarrow> if (\<exists>sc \<in> set ks. fmlookup (sessions c) sc = Some r) \<and> \<not> retired v
                 then Some (empty_view g (unknown_until v) False) else Some v)"
  by (induction ks arbitrary: c) (auto simp: reset_session_load empty_view_def split: option.split)

text \<open>After a change of generation every view is empty.\<close>

lemma set_policy_generation_load:
  assumes "rc_shape c" "range_order ord" "g \<noteq> policy_generation c" "load_view (set_policy_generation ord g c) r = Some v"
  shows "entries v = fmempty"
proof -
  obtain w where w: "load_view c r = Some w"
    and v: "v = (if (\<exists>sc \<in> fset (fmdom (sessions c)). fmlookup (sessions c) sc = Some r) \<and> \<not> retired w
                 then empty_view g (unknown_until w) False else w)"
    using assms(2-4) by (fastforce simp: set_policy_generation_def reset_all_load range_orderD split: option.splits if_splits)
  show ?thesis
  proof (cases "retired w")
    case True
    then show ?thesis using shapeD(3) [OF assms(1) w] v by simp
  next
    case False
    then obtain sc where "fmlookup (sessions c) sc = Some r" using shapeD(2) [OF assms(1) w] by blast
    then have "\<exists>sc \<in> fset (fmdom (sessions c)). fmlookup (sessions c) sc = Some r" by (metis fmdomI)
    then show ?thesis using v False by (simp add: empty_view_def)
  qed
qed

lemma fmsum_zero: "(\<And>k v. fmlookup m k = Some v \<Longrightarrow> f v = 0) \<Longrightarrow> fmsum f m = 0"
  unfolding fmsum_def by (rule sum.neutral) (auto split: option.split)

lemma set_policy_generation_inv [inv_intros]:
  assumes "rc_inv c" "range_order ord"
  shows "rc_inv (set_policy_generation ord g c)"
proof (cases "g = policy_generation c")
  case True
  then show ?thesis using assms(1) by (simp add: set_policy_generation_def)
next
  case False
  let ?c = "set_policy_generation ord g c"
  have sh: "rc_shape c" using assms(1) by (simp add: rc_inv_def)
  have "rc_shape ?c" using sh False by (simp add: set_policy_generation_def reset_all_shape)
  moreover have "fmsum entry_count (heap ?c) = 0"
  proof (rule fmsum_zero)
    fix r s assume s: "fmlookup (heap ?c) r = Some s"
    show "entry_count s = 0"
    proof (cases "view s")
      case None
      then show ?thesis by (simp add: entry_count_def)
    next
      case (Some v)
      then have "load_view ?c r = Some v" using s by (simp add: load_view_def)
      then have "entries v = fmempty" by (rule set_policy_generation_load [OF sh assms(2) False])
      then show ?thesis using Some by (simp add: entry_count_def)
    qed
  qed
  moreover have "total_entries ?c = 0" "cfg ?c = cfg c" using False by (simp_all add: set_policy_generation_def)
  moreover have "0 < max_entries_total (cfg c)" using sh by (simp add: rc_shape_def)
  ultimately show ?thesis by (simp add: rc_inv_def)
qed

lemma invalidate_inv [inv_intros]:
  assumes "rc_inv c"
  shows "rc_inv (invalidate r c)"
proof (cases "load_view c r")
  case None
  have "fmlookup (heap c) r = None"
  proof (rule ccontr)
    assume "fmlookup (heap c) r \<noteq> None"
    then obtain s where s: "fmlookup (heap c) r = Some s" by blast
    then have "sc_ok c r s" using assms by (simp add: rc_inv_def rc_shape_def)
    then show False using s None by (auto simp: sc_ok_def load_view_def)
  qed
  then show ?thesis using assms by (simp add: invalidate_def)
next
  case (Some v)
  have sh: "rc_shape c" using assms by (simp add: rc_inv_def)
  obtain s where s: "fmlookup (heap c) r = Some s" "view s = Some v" "sc_ok c r s"
    using shapeD(1) [OF sh Some] by blast
  show ?thesis
  proof (cases "retired v")
    case True
    then show ?thesis using assms s by (simp add: invalidate_def)
  next
    case False
    let ?w = "empty_view [] 0 True"
    let ?s = "s\<lparr>view := Some ?w\<rparr>"
    let ?c = "c\<lparr>heap := fmupd r ?s (heap c), total_entries := total_entries c - int (go_len (entries v)),
                sessions := fmdrop (sc_scope s) (sessions c)\<rparr>"
    have eq: "invalidate r c = ?c" using s False by (simp add: invalidate_def store_view_def)
    have own: "fmlookup (sessions c) (sc_scope s) = Some r" using s False by (simp add: sc_ok_def)
    have "sc_ok ?c r ?s" using sh by (simp add: sc_ok_def empty_view_def rc_shape_def)
    moreover have "sc_ok ?c q t" if q: "fmlookup (heap c) q = Some t" "q \<noteq> r" for q t
    proof -
      have t: "sc_ok c q t" using sh q(1) by (simp add: rc_shape_def)
      then have "fmlookup (sessions c) (sc_scope t) = Some q \<Longrightarrow> sc_scope t \<noteq> sc_scope s" using own q(2) by auto
      then show ?thesis using t by (auto simp: sc_ok_def split: if_splits)
    qed
    moreover have "\<exists>s' v. fmlookup (heap ?c) q = Some s' \<and> sc_scope s' = d \<and> view s' = Some v \<and> \<not> retired v"
      if q: "fmlookup (sessions ?c) d = Some q" for d q
    proof -
      have d: "fmlookup (sessions c) d = Some q" "d \<noteq> sc_scope s" using q by (auto split: if_splits)
      then obtain s' v where s': "fmlookup (heap c) q = Some s'" "sc_scope s' = d" "view s' = Some v" "\<not> retired v"
        using shape_sessions [OF sh d(1)] by metis
      then have "q \<noteq> r" using d(2) s(1) by auto
      then show ?thesis using s' by simp
    qed
    ultimately have "rc_shape ?c" using sh s(1) own unfolding rc_shape_def by (auto simp: go_len_drop split: if_splits)
    moreover have "fmsum entry_count (heap ?c) = fmsum entry_count (heap c) - int (go_len (entries v))"
      using s by (simp add: fmsum_upd entry_count_def empty_view_def)
    ultimately show ?thesis using assms unfolding eq by (simp add: rc_inv_def)
  qed
qed

lemma unexpired_lookup: "fmlookup (unexpired now m) k = Some e \<longleftrightarrow> fmlookup m k = Some e \<and> now < expires_at e"
  by (auto simp: unexpired_def)

lemma unexpired_len: "go_len (unexpired now m) \<le> go_len m"
  unfolding unexpired_def by (rule go_len_filter_le)

lemma unexpired_empty [simp]: "unexpired now fmempty = fmempty"
  by (simp add: unexpired_def)

lemma rc_inv_count_nonneg: "rc_inv c \<Longrightarrow> 0 \<le> total_entries c"
  unfolding rc_inv_def by (auto intro!: fmsum_nonneg simp: entry_count_def split: option.split)

lemma sweep_session_inv:
  assumes "rc_inv c"
  shows "rc_inv (sweep_session now sc c)"
proof (cases "fmlookup (sessions c) sc")
  case None
  then show ?thesis using assms by (simp add: sweep_session_def)
next
  case (Some r)
  have sh: "rc_shape c" using assms by (simp add: rc_inv_def)
  obtain s v where v: "load_view c r = Some v" "\<not> retired v" using shape_sessions [OF sh Some] by metis
  let ?cleared = "unknown_until v \<noteq> 0 \<and> \<not> now < unknown_until v"
  let ?u = "if ?cleared then 0 else unknown_until v"
  let ?v = "\<lparr>entries = unexpired now (entries v), view_generation = view_generation v, unknown_until = ?u, retired = False\<rparr>"
  let ?pruned = "int (go_len (entries v)) - int (go_len (unexpired now (entries v)))"
  have st: "store_view r ?v (c\<lparr>total_entries := n\<rparr>) = (store_view r ?v c)\<lparr>total_entries := n\<rparr>" for n
    by (auto simp: store_view_def split: option.split)
  have "rc_inv ((store_view r ?v c)\<lparr>total_entries := total_entries c - ?pruned\<rparr>)"
  proof (rule store_live_inv [OF assms v])
    show "unknown_until ?v \<noteq> 0 \<longrightarrow> entries ?v = fmempty" using shapeD(3) [OF sh v(1)] by auto
    show "int (go_len (entries ?v)) \<le> max_entries_per_session (cfg c)"
      using unexpired_len [of now "entries v"] shapeD(4) [OF sh v(1)] by simp
    show "total_entries c - ?pruned \<le> max_entries_total (cfg c)"
      using assms unexpired_len [of now "entries v"] by (simp add: rc_inv_def)
  qed simp_all
  then show ?thesis using assms Some v by (simp add: sweep_session_def Let_def st)
qed

lemma sweep_inv [inv_intros]: "rc_inv c \<Longrightarrow> rc_inv (sweep ord now c)"
proof -
  have "rc_inv c \<Longrightarrow> rc_inv (fold (sweep_session now) ks c)" for ks
    by (induction ks arbitrary: c) (simp_all add: sweep_session_inv)
  then show "rc_inv c \<Longrightarrow> rc_inv (sweep ord now c)" by (simp add: sweep_def)
qed

section \<open>Observation, step by step\<close>

lemma validate_batch_None:
  "validate_batch now ttl batch = None \<Longrightarrow> obs \<in> set batch \<Longrightarrow>
     (obs_decision obs = Direct \<or> obs_decision obs = Proxy) \<and> is4 (obs_ip obs) \<and>
     validate_fetch_ip (obs_ip obs) = Inr () \<and> (obs_decision obs = Direct \<longrightarrow> now < obs_expires obs) \<and>
     obs_expires obs \<le> now + ttl"
  by (induction batch) (auto split: if_splits)

text \<open>What folding a batch leaves under a key: an observation of the batch, a proxy one if there is any.\<close>

definition has_proxy :: "observation list \<Rightarrow> ipv4 \<Rightarrow> bool" where
  "has_proxy batch k \<longleftrightarrow> (\<exists>o1 \<in> set batch. as4 (obs_ip o1) = k \<and> obs_decision o1 = Proxy)"

lemma fold_obs_source:
  "fmlookup (fold_obs o1 m) k = Some x \<Longrightarrow> fmlookup m k = Some x \<or> (x = o1 \<and> k = as4 (obs_ip o1))"
  unfolding fold_obs_def Let_def by (auto split: if_splits option.splits)

lemma fold_batch_source:
  assumes "fmlookup (fold_batch batch) k = Some x"
  shows "x \<in> set batch \<and> as4 (obs_ip x) = k"
proof -
  have "fmlookup (fold fold_obs os m) k = Some x \<Longrightarrow> fmlookup m k = Some x \<or> (x \<in> set os \<and> as4 (obs_ip x) = k)"
    for os m
  proof (induction os arbitrary: m)
    case (Cons a os)
    then show ?case using fold_obs_source by fastforce
  qed simp
  then show ?thesis using assms by (fastforce simp: fold_batch_def)
qed

lemma fold_obs_proxy:
  assumes "obs_decision o1 = Direct \<or> obs_decision o1 = Proxy"
    and "\<forall>x. fmlookup m k = Some x \<longrightarrow> obs_decision x = Direct \<or> obs_decision x = Proxy"
  shows "(\<exists>x. fmlookup (fold_obs o1 m) k = Some x \<and> obs_decision x = Proxy) \<longleftrightarrow>
           (\<exists>x. fmlookup m k = Some x \<and> obs_decision x = Proxy) \<or> (as4 (obs_ip o1) = k \<and> obs_decision o1 = Proxy)"
    and "\<forall>x. fmlookup (fold_obs o1 m) k = Some x \<longrightarrow> obs_decision x = Direct \<or> obs_decision x = Proxy"
  using assms unfolding fold_obs_def Let_def by (auto split: option.split)

lemma fold_batch_proxy:
  assumes "\<forall>o1 \<in> set batch. obs_decision o1 = Direct \<or> obs_decision o1 = Proxy"
  shows "(\<exists>x. fmlookup (fold_batch batch) k = Some x \<and> obs_decision x = Proxy) \<longleftrightarrow> has_proxy batch k"
proof -
  have "\<forall>o1 \<in> set os. obs_decision o1 = Direct \<or> obs_decision o1 = Proxy \<Longrightarrow>
      \<forall>x. fmlookup m k = Some x \<longrightarrow> obs_decision x = Direct \<or> obs_decision x = Proxy \<Longrightarrow>
      (\<exists>x. fmlookup (fold fold_obs os m) k = Some x \<and> obs_decision x = Proxy) \<longleftrightarrow>
        (\<exists>x. fmlookup m k = Some x \<and> obs_decision x = Proxy) \<or> has_proxy os k" for os m
  proof (induction os arbitrary: m)
    case Nil
    then show ?case by (simp add: has_proxy_def)
  next
    case (Cons a os)
    have a: "obs_decision a = Direct \<or> obs_decision a = Proxy" using Cons.prems(1) by simp
    note one = fold_obs_proxy [OF a Cons.prems(2)]
    show ?case using Cons.IH [OF _ one(2)] Cons.prems(1) one(1) by (auto simp: has_proxy_def)
  qed
  from this [OF assms, of fmempty] show ?thesis by (simp add: fold_batch_def)
qed

lemma merge_step_other: "j \<noteq> k \<Longrightarrow> fmlookup (merge_step now fd k m) j = fmlookup m j"
  unfolding merge_step_def by (auto split: option.split)

lemma merge_step_cong: "fmlookup m k = fmlookup m' k \<Longrightarrow> fmlookup (merge_step now fd k m) k = fmlookup (merge_step now fd k m') k"
  unfolding merge_step_def by (auto split: option.split)

lemma fold_merge_lookup:
  assumes "distinct ks"
  shows "fmlookup (fold (merge_step now fd) ks m) j = (if j \<in> set ks then fmlookup (merge_step now fd j m) j else fmlookup m j)"
  using assms
proof (induction ks arbitrary: m)
  case (Cons k ks)
  show ?case
  proof (cases "j = k")
    case True
    then show ?thesis using Cons by simp
  next
    case False
    then have m: "fmlookup (merge_step now fd k m) j = fmlookup m j" by (rule merge_step_other)
    show ?thesis using Cons False m merge_step_cong [OF m, of now fd] by simp
  qed
qed simp

lemma merge_lookup:
  assumes "range_order ord"
  shows "fmlookup (fst (merge_conflict_resolution ord m fd now)) j = fmlookup (merge_step now fd j m) j"
proof -
  have "fmlookup (merge_step now fd j m) j = fmlookup m j" if "j \<notin> fset (fmdom fd)"
    using that by (simp add: merge_step_def fmdom_notD)
  then show ?thesis
    by (auto simp: merge_conflict_resolution_def Let_def fold_merge_lookup range_orderD [OF assms])
qed

lemma evict_direct_sub: "fmlookup (fst (evict_direct n ks m e)) k = Some x \<Longrightarrow> fmlookup m k = Some x"
  by (induction n ks m e rule: evict_direct.induct) (auto split: option.splits if_splits)

lemma evict_direct_len: "go_len (fst (evict_direct n ks m e)) \<le> go_len m"
proof (induction n ks m e rule: evict_direct.induct)
  case (2 n k ks m e)
  have "go_len (fmdrop k m) \<le> go_len m" by (simp add: go_len_drop)
  then show ?case using 2 by (auto split: option.split intro: le_trans)
qed simp

lemma check_capacity_Some:
  assumes "check_capacity_and_evict ord c v new p = Some m"
  shows "int (go_len m) \<le> max_entries_per_session (cfg c)"
    and "total_entries c + (int (go_len m) - int (go_len (entries v))) \<le> max_entries_total (cfg c)"
    and "fmlookup m k = Some e \<Longrightarrow> fmlookup new k = Some e"
  using assms evict_direct_sub [of _ "ord (fmdom new)" new 0 k e]
  unfolding check_capacity_and_evict_def Let_def by (auto split: if_splits prod.splits) (metis fst_conv)+

lemma observe_cases:
  assumes "observe ord r g batch now c = (c', res)"
  obtains (Rejected) "c' = c" "res = Inr () \<longrightarrow> batch = []" "res \<noteq> Inl ErrCapacityExceeded"
  | (Extended) v w where "load_view c r = Some v" "\<not> retired v" "unknown_until v \<noteq> 0" "now < unknown_until v"
      "res = Inl ErrCapacityExceeded" "entries w = fmempty" "\<not> retired w"
      "c' = c \<or> c' = store_view r w c" "validate_batch now (max_ttl (cfg c)) batch = None"
  | (Quarantined) v where "load_view c r = Some v" "\<not> retired v" "res = Inl ErrCapacityExceeded"
      "c' = quarantine_session ord r v (fold_batch batch) c" "validate_batch now (max_ttl (cfg c)) batch = None"
  | (Published) v m w where "load_view c r = Some v" "\<not> retired v" "res = Inr ()"
      "unknown_until v = 0 \<or> unknown_until v \<le> now" "validate_batch now (max_ttl (cfg c)) batch = None"
      "check_capacity_and_evict ord c v (fst (merge_conflict_resolution ord (unexpired now (entries v)) (fold_batch batch) now))
         (snd (merge_conflict_resolution ord (unexpired now (entries v)) (fold_batch batch) now)) = Some m"
      "w = \<lparr>entries = m, view_generation = policy_generation c, unknown_until = 0, retired = False\<rparr>"
      "c' = (store_view r w c)\<lparr>total_entries := total_entries c + (int (go_len m) - int (go_len (entries v)))\<rparr>"
      "view_generation v = policy_generation c"
proof (cases "g = [] \<or> batch = [] \<or> validate_batch now (max_ttl (cfg c)) batch \<noteq> None \<or> load_view c r = None")
  case True
  have "validate_batch now t b \<noteq> Some ErrCapacityExceeded" for t b by (induction b) auto
  then show ?thesis using True assms by (intro Rejected) (auto simp: observe_def Let_def split: if_splits option.splits)
next
  case False
  then obtain v where v: "load_view c r = Some v" and b: "validate_batch now (max_ttl (cfg c)) batch = None"
    "g \<noteq> []" "batch \<noteq> []" by auto
  show ?thesis
  proof (cases "retired v \<or> g \<noteq> policy_generation c \<or> policy_generation c \<noteq> view_generation v")
    case True
    then have "observe ord r g batch now c = (c, Inl (if retired v then ErrSessionRetired else ErrGenerationMismatch))"
      using v b by (cases "retired v") (auto simp: observe_def Let_def)
    then show ?thesis using assms by (intro Rejected) (auto split: if_splits)
  next
    case ok: False
    show ?thesis
    proof (cases "unknown_until v \<noteq> 0 \<and> now < unknown_until v")
      case True
      show ?thesis
        using assms v b ok True
        by (intro Extended [OF v, where w = "empty_view (policy_generation c) (fold (\<lambda>k t. case fmlookup (fold_batch batch) k of
                                Some obs \<Rightarrow> if obs_decision obs = Proxy \<and> t < obs_expires obs then obs_expires obs else t
                              | None \<Rightarrow> t) (ord (fmdom (fold_batch batch))) (unknown_until v)) False"])
           (simp_all add: observe_def Let_def empty_view_def split: if_splits)
    next
      case nq: False
      let ?mg = "merge_conflict_resolution ord (unexpired now (entries v)) (fold_batch batch) now"
      show ?thesis
      proof (cases "check_capacity_and_evict ord c v (fst ?mg) (snd ?mg)")
        case None
        then have "observe ord r g batch now c = (quarantine_session ord r v (fold_batch batch) c, Inl ErrCapacityExceeded)"
          using v b ok nq by (cases "unknown_until v = 0") (simp_all add: observe_def Let_def case_prod_beta)
        then show ?thesis using assms v b ok by (intro Quarantined [OF v]) simp_all
      next
        case (Some m)
        let ?w = "\<lparr>entries = m, view_generation = policy_generation c, unknown_until = 0, retired = False\<rparr>"
        have "observe ord r g batch now c =
            ((store_view r ?w c)\<lparr>total_entries := total_entries c + (int (go_len m) - int (go_len (entries v)))\<rparr>, Inr ())"
          using Some v b ok nq by (cases "unknown_until v = 0") (simp_all add: observe_def Let_def case_prod_beta)
        then show ?thesis using assms v b ok nq Some
          by (intro Published [OF v, where m = m and w = ?w]) auto
      qed
    qed
  qed
qed

lemma quarantine_inv:
  assumes "rc_inv c" "load_view c r = Some v" "\<not> retired v"
  shows "rc_inv (quarantine_session ord r v fd c)"
  unfolding quarantine_session_def Let_def store_view_fields
proof (rule store_live_inv [OF assms])
  show "total_entries c - int (go_len (entries v)) \<le> max_entries_total (cfg c)"
    using assms(1) by (simp add: rc_inv_def)
  show "int (go_len (entries (empty_view g u False))) \<le> max_entries_per_session (cfg c)" for g u
    using assms(1) by (simp add: rc_inv_def rc_shape_def empty_view_def)
qed (simp_all add: empty_view_def)

lemma observe_inv [inv_intros]:
  assumes "rc_inv c"
  shows "rc_inv (fst (observe ord r g batch now c))"
proof -
  obtain c' res where o: "observe ord r g batch now c = (c', res)" by fastforce
  then have "rc_inv c'"
  proof (cases rule: observe_cases)
    case Rejected
    then show ?thesis using assms by simp
  next
    case (Extended v w)
    have e: "entries v = fmempty" using shapeD(3) [OF _ Extended(1)] Extended(3) assms by (simp add: rc_inv_def)
    have "rc_inv ((store_view r w c)\<lparr>total_entries := total_entries c\<rparr>)"
      by (rule store_live_inv [OF assms Extended(1,2,7)])
        (use Extended(6) e assms in \<open>simp_all add: rc_inv_def rc_shape_def\<close>)
    moreover have "(store_view r w c)\<lparr>total_entries := total_entries c\<rparr> = store_view r w c"
      by (auto simp: store_view_def split: option.split)
    ultimately show ?thesis using Extended(8) assms by auto
  next
    case (Quarantined v)
    then show ?thesis using quarantine_inv assms by simp
  next
    case (Published v m w)
    note cap = check_capacity_Some [OF Published(6)]
    show ?thesis unfolding Published(8)
      by (rule store_live_inv [OF assms Published(1,2)]) (use Published(7) cap(1,2) in simp_all)
  qed
  then show ?thesis using o by simp
qed

section \<open>Runs\<close>

inductive rc_step :: "route_cache \<Rightarrow> route_cache \<Rightarrow> bool" where
  step_generation: "range_order ord \<Longrightarrow> rc_step c (set_policy_generation ord g c)"
| step_open: "rc_step c (fst (open_session sc c))"
| step_observe: "range_order ord \<Longrightarrow> rc_step c (fst (observe ord r g batch now c))"
| step_invalidate: "rc_step c (invalidate r c)"
| step_sweep: "range_order ord \<Longrightarrow> rc_step c (sweep ord now c)"

definition rc_reach :: "cache_config \<Rightarrow> route_cache \<Rightarrow> bool" where
  "rc_reach k c \<longleftrightarrow> (\<exists>c0. new_route_cache k = Some c0 \<and> rc_step\<^sup>*\<^sup>* c0 c)"

lemma rc_step_inv: "rc_step c c' \<Longrightarrow> rc_inv c \<Longrightarrow> rc_inv c'"
  by (induction rule: rc_step.induct) (auto intro: inv_intros)

lemma rc_steps_inv: "rc_step\<^sup>*\<^sup>* c c' \<Longrightarrow> rc_inv c \<Longrightarrow> rc_inv c'"
  by (induction rule: rtranclp_induct) (auto intro: rc_step_inv)

lemma rc_reach_inv: "rc_reach k c \<Longrightarrow> rc_inv c"
  unfolding rc_reach_def using rc_steps_inv new_route_cache_inv by blast

section \<open>What one observation does to the lookups\<close>

lemma view_lookup_Direct:
  "view_lookup v0 ip g t = Direct \<longleftrightarrow>
     (\<exists>v a e. v0 = Some v \<and> ip = Addr4 a \<and> \<not> retired v \<and> view_generation v = g \<and> g \<noteq> [] \<and>
        (unknown_until v = 0 \<or> unknown_until v \<le> t) \<and> fmlookup (entries v) a = Some e \<and> t < expires_at e \<and>
        decision e = Direct)"
  by (cases ip) (auto simp: view_lookup_def is_valid_def split: option.splits if_splits)

lemma view_lookup_empty: "(\<And>v. v0 = Some v \<Longrightarrow> entries v = fmempty \<or> retired v) \<Longrightarrow> view_lookup v0 ip g t = Unknown"
  by (cases v0) (auto simp: view_lookup_def)

lemma merge_step_Direct:
  assumes "fmlookup (merge_step now fd k m) k = Some e" "decision e = Direct"
  shows "(\<nexists>x. fmlookup fd k = Some x \<and> obs_decision x = Proxy) \<and>
         (t < expires_at e \<longrightarrow> (\<exists>e'. fmlookup m k = Some e' \<and> decision e' = Direct \<and> t < expires_at e') \<or>
            (\<exists>x. fmlookup fd k = Some x \<and> obs_decision x = Direct \<and> t < obs_expires x))"
  using assms unfolding merge_step_def
  by (cases "fmlookup fd k"; cases "fmlookup m k") (auto split: if_splits simp: max_def)

lemma observe_other:
  assumes "observe ord r g batch now c = (c', res)" "r' \<noteq> r"
  shows "load_view c' r' = load_view c r'"
  using assms by (cases rule: observe_cases) (auto simp: load_store quarantine_session_def Let_def)

text \<open>The lookups of the observed session, on the outcomes that act on it.\<close>

lemma observe_Direct:
  assumes inv: "rc_inv c" and ord: "range_order ord" and o: "observe ord r g batch now c = (c', res)"
    and res: "res = Inr () \<or> res = Inl ErrCapacityExceeded" "batch \<noteq> []"
    and d: "route_lookup c' r (Addr4 a) g' t = Direct"
  shows "\<not> has_proxy batch a \<and>
         (now \<le> t \<longrightarrow> route_lookup c r (Addr4 a) g' t = Direct \<or>
            (\<exists>o1 \<in> set batch. obs_ip o1 = Addr4 a \<and> obs_decision o1 = Direct \<and> t < obs_expires o1 \<and>
               obs_expires o1 \<le> now + max_ttl (cfg c)))"
  using o
proof (cases rule: observe_cases)
  case Rejected
  then show ?thesis using res by auto
next
  case (Extended v w)
  have "entries v = fmempty" using shapeD(3) [OF _ Extended(1)] Extended(3) inv by (simp add: rc_inv_def)
  then have "view_lookup (load_view c' r) (Addr4 a) g' t = Unknown"
    using Extended by (intro view_lookup_empty) (auto simp: load_store_Some)
  then show ?thesis using d by (simp add: route_lookup_def)
next
  case (Quarantined v)
  have "view_lookup (load_view c' r) (Addr4 a) g' t = Unknown"
    using Quarantined
    by (intro view_lookup_empty) (auto simp: quarantine_session_def Let_def load_store_Some empty_view_def)
  then show ?thesis using d by (simp add: route_lookup_def)
next
  case (Published v m w)
  have lv: "load_view c' r = Some w" using Published(1,8) by (simp add: load_store_Some)
  then obtain e where e: "fmlookup m a = Some e" "decision e = Direct" "t < expires_at e" and g': "policy_generation c = g'" "g' \<noteq> []"
    using d Published(7) by (auto simp: route_lookup_def view_lookup_Direct)
  have "fmlookup (merge_step now (fold_batch batch) a (unexpired now (entries v))) a = Some e"
    using check_capacity_Some(3) [OF Published(6) e(1)] merge_lookup [OF ord] by simp
  note m = merge_step_Direct [OF this e(2), of t]
  have valid: "\<forall>o1 \<in> set batch. obs_decision o1 = Direct \<or> obs_decision o1 = Proxy"
    using validate_batch_None [OF Published(5)] by blast
  have "\<not> has_proxy batch a" using m fold_batch_proxy [OF valid] by blast
  moreover have "route_lookup c r (Addr4 a) g' t = Direct"
    if "now \<le> t" "fmlookup (unexpired now (entries v)) a = Some e'" "decision e' = Direct" "t < expires_at e'" for e'
    using that Published(1,2,4,9) g' by (auto simp: route_lookup_def view_lookup_Direct unexpired_lookup)
  moreover have "obs_ip x = Addr4 a \<and> x \<in> set batch \<and> obs_expires x \<le> now + max_ttl (cfg c)"
    if "fmlookup (fold_batch batch) a = Some x" for x
    using fold_batch_source [OF that] validate_batch_None [OF Published(5), of x] by (auto simp: is4_conv)
  ultimately show ?thesis using m e(3) by blast
qed

lemma merge_step_len: "go_len (merge_step now fd k m) \<le> Suc (go_len m)"
  unfolding merge_step_def by (auto split: option.split simp: go_len_drop)

lemma merge_len:
  assumes "range_order ord"
  shows "go_len (fst (merge_conflict_resolution ord m fd now)) \<le> go_len m + go_len fd"
proof -
  have "go_len (fold (merge_step now fd) ks m) \<le> go_len m + length ks" for ks
  proof (induction ks arbitrary: m)
    case (Cons k ks)
    show ?case using Cons.IH [of "merge_step now fd k m"] merge_step_len [of now fd k m] by simp
  qed simp
  moreover have "length (ord (fmdom fd)) = go_len fd"
    using range_orderD [OF assms] by (metis distinct_card go_len_card)
  ultimately show ?thesis by (metis fst_conv merge_conflict_resolution_def)
qed

lemma fold_batch_len: "go_len (fold_batch batch) \<le> length batch"
proof -
  have "go_len (fold_obs o1 m) \<le> Suc (go_len m)" for o1 m
    unfolding fold_obs_def Let_def by (auto split: option.split)
  then have step: "go_len (fold_obs o1 m) \<le> Suc (go_len m)" for o1 m .
  have "go_len (fold fold_obs os m) \<le> go_len m + length os" for os m
  proof (induction os arbitrary: m)
    case (Cons a os)
    show ?case using Cons.IH [of "fold_obs a m"] step [of a m] by simp
  qed simp
  from this [of batch fmempty] show ?thesis by (simp add: fold_batch_def)
qed

text \<open>With room for the whole batch nothing is evicted and the batch is recorded.\<close>

lemma observe_room:
  assumes inv: "rc_inv c" and ord: "range_order ord" and v: "load_view c r = Some v" "\<not> retired v"
    and g: "g \<noteq> []" "policy_generation c = g" "view_generation v = g"
    and q: "unknown_until v \<le> now" and b: "batch \<noteq> []" "validate_batch now (max_ttl (cfg c)) batch = None"
    and room: "int (go_len (entries v)) + int (length batch) \<le> max_entries_per_session (cfg c)"
      "total_entries c + int (length batch) \<le> max_entries_total (cfg c)"
  shows "\<exists>c' m. observe ord r g batch now c = (c', Inr ()) \<and>
           load_view c' r = Some \<lparr>entries = m, view_generation = g, unknown_until = 0, retired = False\<rparr> \<and>
           (\<forall>a. fmlookup m a = fmlookup (merge_step now (fold_batch batch) a (unexpired now (entries v))) a)"
proof -
  let ?mg = "merge_conflict_resolution ord (unexpired now (entries v)) (fold_batch batch) now"
  let ?w = "\<lparr>entries = fst ?mg, view_generation = policy_generation c, unknown_until = 0, retired = False\<rparr>"
  have len: "int (go_len (fst ?mg)) \<le> int (go_len (entries v)) + int (length batch)"
    using merge_len [OF ord, of "unexpired now (entries v)" "fold_batch batch" now]
      unexpired_len [of now "entries v"] fold_batch_len [of batch] by linarith
  then have cap: "check_capacity_and_evict ord c v (fst ?mg) p = Some (fst ?mg)" for p
    using room unfolding check_capacity_and_evict_def Let_def by simp
  have "\<not> (unknown_until v \<noteq> 0 \<and> now < unknown_until v)" using q by simp
  then have "observe ord r g batch now c =
      ((store_view r ?w c)\<lparr>total_entries := total_entries c + (int (go_len (fst ?mg)) - int (go_len (entries v)))\<rparr>, Inr ())"
    using v g b cap by (simp add: observe_def Let_def case_prod_beta)
  then show ?thesis using v(1) g(2) merge_lookup [OF ord] by (auto simp: load_store_Some)
qed

text \<open>The folded observation of an address without proxy evidence has the latest deadline.\<close>

definition direct_from :: "folded \<Rightarrow> ipv4 \<Rightarrow> time \<Rightarrow> bool" where
  "direct_from m a t \<longleftrightarrow> (\<exists>x. fmlookup m a = Some x \<and> obs_decision x = Direct \<and> t \<le> obs_expires x)"

lemma fold_obs_direct:
  assumes "as4 (obs_ip o1) = a \<longrightarrow> obs_decision o1 = Direct"
  shows "direct_from m a t \<Longrightarrow> direct_from (fold_obs o1 m) a t"
    and "\<forall>x. fmlookup m a = Some x \<longrightarrow> obs_decision x = Direct \<Longrightarrow>
           \<forall>x. fmlookup (fold_obs o1 m) a = Some x \<longrightarrow> obs_decision x = Direct"
    and "\<forall>x. fmlookup m a = Some x \<longrightarrow> obs_decision x = Direct \<Longrightarrow> as4 (obs_ip o1) = a \<Longrightarrow>
           direct_from (fold_obs o1 m) a (obs_expires o1)"
  using assms unfolding fold_obs_def direct_from_def Let_def by (auto split: option.split)

lemma fold_batch_direct:
  assumes v: "\<forall>o1 \<in> set batch. obs_decision o1 = Direct \<or> obs_decision o1 = Proxy" and n: "\<not> has_proxy batch a"
    and o: "obs \<in> set batch" "as4 (obs_ip obs) = a"
  shows "direct_from (fold_batch batch) a (obs_expires obs)"
proof -
  have d: "as4 (obs_ip o1) = a \<longrightarrow> obs_decision o1 = Direct" if "o1 \<in> set batch" for o1
    using v n that by (auto simp: has_proxy_def)
  obtain pre post where b: "batch = pre @ obs # post" using o(1) by (meson split_list)
  have "\<forall>x. fmlookup m a = Some x \<longrightarrow> obs_decision x = Direct \<Longrightarrow> set os \<subseteq> set batch \<Longrightarrow>
      \<forall>x. fmlookup (fold fold_obs os m) a = Some x \<longrightarrow> obs_decision x = Direct" for os m
  proof (induction os arbitrary: m)
    case (Cons c os)
    then show ?case using fold_obs_direct(2) [OF d, of c m] by simp
  qed simp
  from this [of fmempty pre] have "\<forall>x. fmlookup (fold fold_obs pre fmempty) a = Some x \<longrightarrow> obs_decision x = Direct"
    using b by auto
  then have 1: "direct_from (fold_obs obs (fold fold_obs pre fmempty)) a (obs_expires obs)"
    by (rule fold_obs_direct(3) [OF d [OF o(1)] _ o(2)])
  have "direct_from m a t \<Longrightarrow> set os \<subseteq> set batch \<Longrightarrow> direct_from (fold fold_obs os m) a t" for os m t
  proof (induction os arbitrary: m)
    case (Cons c os)
    then show ?case using fold_obs_direct(1) [OF d, of c m t] by simp
  qed simp
  from this [OF 1, of post] show ?thesis using b by (auto simp: fold_batch_def)
qed

lemma merge_step_direct:
  assumes "direct_from fd a t" "\<forall>e. fmlookup m a = Some e \<longrightarrow> decision e = Direct"
  shows "\<exists>e. fmlookup (merge_step now fd a m) a = Some e \<and> decision e = Direct \<and> t \<le> expires_at e"
  using assms unfolding direct_from_def merge_step_def by (auto split: option.split)

section \<open>Properties\<close>

text \<open>
  C27: in every reachable state the cache respects its limits: at most MaxSessions sessions, at
  most MaxEntriesPerSession entries in a view, at most MaxEntriesTotal in all; the running total
  is the sum over all session caches, and retired or quarantined views hold no entries.
\<close>

theorem route_cache_bounded:
  assumes "rc_reach k c"
  shows "int (go_len (sessions c)) \<le> max_sessions (cfg c) \<and>
         total_entries c \<le> max_entries_total (cfg c) \<and> total_entries c = fmsum entry_count (heap c) \<and>
         (\<forall>r v. load_view c r = Some v \<longrightarrow> int (go_len (entries v)) \<le> max_entries_per_session (cfg c) \<and>
            (retired v \<or> unknown_until v \<noteq> 0 \<longrightarrow> entries v = fmempty))"
proof -
  have i: "rc_inv c" using assms by (rule rc_reach_inv)
  then have sh: "rc_shape c" by (simp add: rc_inv_def)
  show ?thesis
    using i shapeD(3,4) [OF sh] sh by (auto simp: rc_inv_def rc_shape_def)
qed

text \<open>
  C1: proxy evidence wins. Once an observation batch that says "proxy" for an address has been
  taken (or has pushed the session into quarantine), no lookup of that address in that session
  answers "direct", whatever the batch and the cache said before, at any instant and under any
  generation, for every iteration order of Go's maps.
\<close>

theorem proxy_wins:
  assumes "rc_reach k c" "range_order ord" "observe ord r g batch now c = (c', res)"
    and "res = Inr () \<or> res = Inl ErrCapacityExceeded"
    and "obs \<in> set batch" "obs_decision obs = Proxy" "obs_ip obs = Addr4 a"
  shows "route_lookup c' r (Addr4 a) g' t \<noteq> Direct"
proof
  assume d: "route_lookup c' r (Addr4 a) g' t = Direct"
  have "batch \<noteq> []" "has_proxy batch a" using assms(5-7) by (auto simp: has_proxy_def intro!: bexI [of _ obs])
  then show False using observe_Direct [OF rc_reach_inv [OF assms(1)] assms(2-4) _ d] by blast
qed

text \<open>
  Direct routing needs evidence: after an observation, a lookup from then on that answers
  "direct" either answered so before or rests on a direct observation of the batch for that very
  address, in that very session, whose deadline is ahead and within the time-to-live bound.
\<close>

theorem direct_needs_evidence:
  assumes "rc_reach k c" "range_order ord" "observe ord r g batch now c = (c', res)"
    and "route_lookup c' r' (Addr4 a) g' t = Direct" "now \<le> t"
  shows "route_lookup c r' (Addr4 a) g' t = Direct \<or>
         (r' = r \<and> (\<exists>obs \<in> set batch. obs_ip obs = Addr4 a \<and> obs_decision obs = Direct \<and> t < obs_expires obs \<and>
                       obs_expires obs \<le> now + max_ttl (cfg c)))"
proof (cases "r' = r \<and> (res = Inr () \<or> res = Inl ErrCapacityExceeded) \<and> batch \<noteq> []")
  case True
  then show ?thesis using observe_Direct [OF rc_reach_inv [OF assms(1)] assms(2,3), of a g' t] assms(4,5) by blast
next
  case False
  show ?thesis
  proof (cases "r' = r")
    case True
    have "c' = c" using assms(3)
    proof (cases rule: observe_cases)
      case (Extended v w)
      then show ?thesis using False True assms(3) by (auto simp: observe_def split: if_splits)
    next
      case (Quarantined v)
      then show ?thesis using False True assms(3) by (auto simp: observe_def split: if_splits)
    next
      case (Published v m w)
      then show ?thesis using False True assms(3) by (auto simp: observe_def split: if_splits)
    qed
    then show ?thesis using assms(4) by simp
  next
    case r: False
    then show ?thesis using observe_other [OF assms(3)] assms(4) by (simp add: route_lookup_def)
  qed
qed

text \<open>
  A change of policy generation forgets everything: afterwards every lookup in every session,
  under the old, the new or any other generation, answers "unknown".
\<close>

theorem generation_change_forgets:
  assumes "rc_reach k c" "range_order ord" "g \<noteq> policy_generation c"
  shows "route_lookup (set_policy_generation ord g c) r ip g' t = Unknown"
proof -
  have "rc_shape c" using rc_reach_inv [OF assms(1)] by (simp add: rc_inv_def)
  then show ?thesis unfolding route_lookup_def
    by (intro view_lookup_empty disjI1) (rule set_policy_generation_load [OF _ assms(2,3)])
qed

definition is_retired :: "route_cache \<Rightarrow> ref \<Rightarrow> bool" where
  "is_retired c r \<longleftrightarrow> (\<exists>v. load_view c r = Some v \<and> retired v)"

lemma reset_keeps_retired: "is_retired c r \<Longrightarrow> is_retired (reset_session g sc c) r"
  by (auto simp: is_retired_def reset_session_load)

lemma sweep_session_keeps_retired: "is_retired c r \<Longrightarrow> is_retired (sweep_session now sc c) r"
  by (auto simp: is_retired_def sweep_session_def Let_def load_store split: option.split)

lemma rc_step_keeps_retired:
  assumes "rc_step c c'" "rc_inv c" "is_retired c r"
  shows "is_retired c' r"
  using assms
proof (induction rule: rc_step.induct)
  case (step_generation ord c g)
  have "is_retired c r \<Longrightarrow> is_retired (fold (reset_session g) ks c) r" for ks and c
    by (induction ks arbitrary: c) (simp_all add: reset_keeps_retired)
  moreover have "is_retired (c\<lparr>policy_generation := g\<rparr>) r" using step_generation by (simp add: is_retired_def)
  ultimately show ?case using step_generation by (auto simp: set_policy_generation_def is_retired_def)
next
  case (step_open c sc)
  have "r < next_ref c"
    using step_open by (auto simp: is_retired_def load_view_def rc_inv_def rc_shape_def split: option.splits)
  then show ?case
    using step_open by (auto simp: open_session_def Let_def is_retired_def load_view_def split: option.splits)
next
  case (step_observe ord c q g batch now)
  obtain c' res where o: "observe ord q g batch now c = (c', res)" by fastforce
  have "is_retired c' r" using o step_observe(3)
    by (cases rule: observe_cases) (auto simp: is_retired_def load_store quarantine_session_def Let_def)
  then show ?case using o by simp
next
  case (step_invalidate c q)
  then show ?case
    by (auto simp: invalidate_def Let_def is_retired_def load_store empty_view_def split: option.split)
next
  case (step_sweep ord c now)
  have "is_retired c r \<Longrightarrow> is_retired (fold (sweep_session now) ks c) r" for ks and c
    by (induction ks arbitrary: c) (simp_all add: sweep_session_keeps_retired)
  then show ?case using step_sweep by (simp add: sweep_def)
qed

lemma invalidate_retires:
  assumes "rc_inv c" "load_view c r \<noteq> None"
  shows "is_retired (invalidate r c) r"
proof -
  obtain s v where "fmlookup (heap c) r = Some s" "view s = Some v"
    using assms(2) by (auto simp: load_view_def split: option.splits)
  then show ?thesis
    by (auto simp: invalidate_def is_retired_def load_store empty_view_def Let_def) (simp_all add: load_view_def)
qed

text \<open>
  Retirement is final: from the moment a session cache is invalidated, whatever happens to the
  cache later (a session of the same scope may be opened again), a holder of the old reference
  reads "unknown" for every address and cannot add evidence.
\<close>

theorem retired_forever:
  assumes "rc_reach k c" "load_view c r \<noteq> None" "rc_step\<^sup>*\<^sup>* (invalidate r c) c'"
  shows "route_lookup c' r ip g t = Unknown \<and> fst (observe ord r g batch now c') = c'"
proof -
  have i: "rc_inv (invalidate r c)" using rc_reach_inv [OF assms(1)] by (rule invalidate_inv)
  have "is_retired c' r \<and> rc_inv c'" using assms(3)
  proof (induction rule: rtranclp_induct)
    case base
    then show ?case using i invalidate_retires [OF rc_reach_inv [OF assms(1)] assms(2)] by simp
  next
    case (step y z)
    then show ?case using rc_step_inv rc_step_keeps_retired by blast
  qed
  then obtain v where "load_view c' r = Some v" "retired v" by (auto simp: is_retired_def)
  then show ?thesis
    by (auto simp: route_lookup_def view_lookup_def observe_def Let_def split: option.split)
qed

text \<open>
  An observation is recorded: in a live, unquarantined session whose limits leave room for the
  whole batch, a valid batch is accepted, and a direct observation for an address without proxy
  evidence is what lookups answer until its deadline.
\<close>

theorem observation_recorded:
  assumes "rc_reach k c" "range_order ord" "load_view c r = Some v" "\<not> retired v"
    and "g \<noteq> []" "policy_generation c = g" "view_generation v = g" "unknown_until v \<le> now"
    and "validate_batch now (max_ttl (cfg c)) batch = None"
    and "int (go_len (entries v)) + int (length batch) \<le> max_entries_per_session (cfg c)"
    and "total_entries c + int (length batch) \<le> max_entries_total (cfg c)"
    and "obs \<in> set batch" "obs_ip obs = Addr4 a" "\<not> has_proxy batch a"
    and "\<forall>e. fmlookup (entries v) a = Some e \<longrightarrow> decision e = Direct"
  shows "\<exists>c'. observe ord r g batch now c = (c', Inr ()) \<and>
           (\<forall>t. t < obs_expires obs \<longrightarrow> 0 \<le> t \<longrightarrow> route_lookup c' r (Addr4 a) g t = Direct)"
proof -
  have "batch \<noteq> []" using assms(12) by auto
  then obtain c' m where c': "observe ord r g batch now c = (c', Inr ())"
    "load_view c' r = Some \<lparr>entries = m, view_generation = g, unknown_until = 0, retired = False\<rparr>"
    "\<forall>a. fmlookup m a = fmlookup (merge_step now (fold_batch batch) a (unexpired now (entries v))) a"
    using observe_room [OF rc_reach_inv [OF assms(1)] assms(2-4) assms(5-8) _ assms(9-11)] by blast
  have "direct_from (fold_batch batch) a (obs_expires obs)"
    by (rule fold_batch_direct [OF _ assms(14) assms(12)])
      (use validate_batch_None [OF assms(9)] assms(13) in auto)
  moreover have "\<forall>e. fmlookup (unexpired now (entries v)) a = Some e \<longrightarrow> decision e = Direct"
    using assms(15) by (simp add: unexpired_lookup)
  ultimately obtain e where "fmlookup m a = Some e" "decision e = Direct" "obs_expires obs \<le> expires_at e"
    using merge_step_direct c'(3) by fastforce
  then show ?thesis using c' assms(5) by (auto simp: route_lookup_def view_lookup_Direct)
qed

section \<open>Witnesses\<close>

definition demo_cfg :: cache_config where
  "demo_cfg = \<lparr>max_sessions = 2, max_entries_per_session = 4, max_entries_total = 8, max_ttl = 100\<rparr>"

definition demo_0 :: route_cache where
  "demo_0 = \<lparr>cfg = demo_cfg, policy_generation = [], sessions = fmempty, total_entries = 0, heap = fmempty, next_ref = 0\<rparr>"

definition ord_ip :: ip_order where "ord_ip = sorted_list_of_fset"

definition ord_scope :: "scope fset \<Rightarrow> scope list" where
  "ord_scope A = map (\<lambda>(s, e). \<lparr>scope_session = s, scope_epoch = e\<rparr>)
     (sorted_list_of_set ((\<lambda>s. (scope_session s, scope_epoch s)) ` fset A))"

lemma range_order_ip: "range_order ord_ip"
  unfolding ord_ip_def by (rule range_order_sorted)

lemma range_order_scope: "range_order ord_scope"
proof -
  let ?f = "\<lambda>(s, e). \<lparr>scope_session = s, scope_epoch = e\<rparr>"
  have "inj_on ?f X" for X by (auto intro: inj_onI)
  moreover have "(?f \<circ> (\<lambda>s. (scope_session s, scope_epoch s))) = id" by (auto simp: fun_eq_iff)
  then have "?f ` (\<lambda>s. (scope_session s, scope_epoch s)) ` X = X" for X by (simp add: image_comp)
  ultimately show ?thesis by (simp add: range_order_def ord_scope_def distinct_map)
qed

definition demo_scope :: scope where "demo_scope = \<lparr>scope_session = ''s1'', scope_epoch = 1\<rparr>"

definition demo_1 :: route_cache where "demo_1 = set_policy_generation ord_scope ''g1'' demo_0"
definition demo_2 :: route_cache where "demo_2 = fst (open_session demo_scope demo_1)"

lemma demo_1_eq: "demo_1 = demo_0\<lparr>policy_generation := ''g1''\<rparr>"
proof -
  have "ord_scope {||} = []" using range_orderD(2) [OF range_order_scope, of "{||}"] by simp
  then show ?thesis by (simp add: demo_1_def set_policy_generation_def demo_0_def)
qed

lemma demo_2_eq:
  "demo_2 = demo_0\<lparr>policy_generation := ''g1'', sessions := fmupd demo_scope 0 fmempty, next_ref := 1,
     heap := fmupd 0 \<lparr>sc_scope = demo_scope, view = Some (empty_view ''g1'' 0 False)\<rparr> fmempty\<rparr>"
  unfolding demo_2_def demo_1_eq
  by (simp add: open_session_def demo_scope_def demo_0_def demo_cfg_def Let_def)

lemma demo_reach_0: "rc_reach demo_cfg demo_0"
  by (auto simp: rc_reach_def new_route_cache_def default_config_def demo_cfg_def demo_0_def Let_def time_defs)

lemma rc_reach_step: "rc_reach k c \<Longrightarrow> rc_step c c' \<Longrightarrow> rc_reach k c'"
  unfolding rc_reach_def by (meson rtranclp.rtrancl_into_rtrancl)

lemma demo_reach_2: "rc_reach demo_cfg demo_2"
  unfolding demo_2_def demo_1_def
  by (rule rc_reach_step [OF rc_reach_step [OF demo_reach_0 step_generation [OF range_order_scope]] step_open])

definition demo_obs :: "decision \<Rightarrow> observation" where
  "demo_obs d = \<lparr>obs_ip = Addr4 0x08080808, obs_decision = d, obs_expires = 50\<rparr>"

lemma demo_valid: "d = Direct \<or> d = Proxy \<Longrightarrow> validate_batch 10 100 [demo_obs d] = None"
  using public_dns_allowed by (auto simp: demo_obs_def is_valid_def)

definition demo_view :: route_view where "demo_view = empty_view ''g1'' 0 False"

lemma demo_view_load: "load_view demo_2 0 = Some demo_view"
  by (simp add: demo_2_eq load_view_def demo_view_def)

lemma demo_observe:
  assumes "d = Direct \<or> d = Proxy"
  shows "\<exists>c' m. observe ord_ip 0 ''g1'' [demo_obs d] 10 demo_2 = (c', Inr ()) \<and>
           load_view c' 0 = Some \<lparr>entries = m, view_generation = ''g1'', unknown_until = 0, retired = False\<rparr> \<and>
           (\<forall>a. fmlookup m a = fmlookup (merge_step 10 (fold_batch [demo_obs d]) a (unexpired 10 (entries demo_view))) a)"
  by (rule observe_room [OF rc_reach_inv [OF demo_reach_2] range_order_ip demo_view_load])
    (use demo_valid [OF assms] in \<open>simp_all add: demo_view_def empty_view_def demo_2_eq demo_0_def demo_cfg_def\<close>)

theorem route_cache_bounded_witness: "total_entries demo_2 \<le> 8"
  using route_cache_bounded [OF demo_reach_2] by (simp add: demo_2_eq demo_0_def demo_cfg_def)

theorem proxy_wins_witness:
  "\<exists>c'. observe ord_ip 0 ''g1'' [demo_obs Proxy] 10 demo_2 = (c', Inr ()) \<and>
     route_lookup c' 0 (Addr4 0x08080808) ''g1'' 20 \<noteq> Direct"
proof -
  obtain c' where o: "observe ord_ip 0 ''g1'' [demo_obs Proxy] 10 demo_2 = (c', Inr ())"
    using demo_observe [of Proxy] by blast
  then show ?thesis
    using proxy_wins [OF demo_reach_2 range_order_ip o, of "demo_obs Proxy" "0x08080808" "''g1''" 20]
    by (simp add: demo_obs_def)
qed

lemma demo_direct:
  "\<exists>c'. observe ord_ip 0 ''g1'' [demo_obs Direct] 10 demo_2 = (c', Inr ()) \<and>
     route_lookup c' 0 (Addr4 0x08080808) ''g1'' 20 = Direct"
proof -
  obtain c' m where c': "observe ord_ip 0 ''g1'' [demo_obs Direct] 10 demo_2 = (c', Inr ())"
    "load_view c' 0 = Some \<lparr>entries = m, view_generation = ''g1'', unknown_until = 0, retired = False\<rparr>"
    "\<forall>a. fmlookup m a = fmlookup (merge_step 10 (fold_batch [demo_obs Direct]) a (unexpired 10 (entries demo_view))) a"
    using demo_observe [of Direct] by blast
  then show ?thesis
    by (simp add: route_lookup_def view_lookup_def is_valid_def fold_batch_def fold_obs_def merge_step_def
        demo_obs_def demo_view_def empty_view_def)
qed

theorem direct_needs_evidence_witness:
  "\<exists>obs \<in> set [demo_obs Direct]. obs_ip obs = Addr4 0x08080808 \<and> obs_decision obs = Direct"
proof -
  obtain c' where c': "observe ord_ip 0 ''g1'' [demo_obs Direct] 10 demo_2 = (c', Inr ())"
    "route_lookup c' 0 (Addr4 0x08080808) ''g1'' 20 = Direct" using demo_direct by blast
  have "route_lookup demo_2 0 (Addr4 0x08080808) ''g1'' 20 \<noteq> Direct"
    by (simp add: route_lookup_def demo_view_load view_lookup_Direct demo_view_def empty_view_def)
  then show ?thesis
    using direct_needs_evidence [OF demo_reach_2 range_order_ip c'] by auto
qed

theorem generation_change_forgets_witness:
  "route_lookup (set_policy_generation ord_scope ''g2'' demo_2) 0 (Addr4 0x08080808) ''g2'' 20 = Unknown"
  by (rule generation_change_forgets [OF demo_reach_2 range_order_scope]) (simp add: demo_2_eq)

theorem retired_forever_witness:
  "route_lookup (fst (open_session demo_scope (invalidate 0 demo_2))) 0 (Addr4 0x08080808) ''g1'' 20 = Unknown"
proof -
  have "rc_step\<^sup>*\<^sup>* (invalidate 0 demo_2) (fst (open_session demo_scope (invalidate 0 demo_2)))"
    by (intro r_into_rtranclp step_open)
  from retired_forever [OF demo_reach_2 _ this] show ?thesis by (simp add: demo_view_load)
qed

theorem observation_recorded_witness:
  "\<exists>c'. observe ord_ip 0 ''g1'' [demo_obs Direct] 10 demo_2 = (c', Inr ()) \<and>
     route_lookup c' 0 (Addr4 0x08080808) ''g1'' 40 = Direct"
proof -
  have "\<exists>c'. observe ord_ip 0 ''g1'' [demo_obs Direct] 10 demo_2 = (c', Inr ()) \<and>
      (\<forall>t. t < obs_expires (demo_obs Direct) \<longrightarrow> 0 \<le> t \<longrightarrow> route_lookup c' 0 (Addr4 0x08080808) ''g1'' t = Direct)"
    by (rule observation_recorded [OF demo_reach_2 range_order_ip demo_view_load])
      (use demo_valid [of Direct] in \<open>simp_all add: demo_view_def empty_view_def demo_2_eq demo_0_def demo_cfg_def
        demo_obs_def has_proxy_def\<close>)
  then show ?thesis by (auto simp: demo_obs_def)
qed

end
