(* ===== verification/Models.thy ===== *)
theory Models
  imports Nexus_Prelude
begin

text \<open>
  The data the connection components share, from \<^verbatim>\<open>internal/models/models.go\<close>: backend tunnels with
  their protocol families, and client sessions, with every field the code gives them.
\<close>

section \<open>Protocols\<close>

definition normalize_protocol :: "string \<Rightarrow> string" where
  "normalize_protocol p =
     (if p = ''awg2'' \<or> p = ''awg_legacy'' then ''awg''
      else if p = ''vless-reality'' \<or> p = ''vless_reality'' then ''vless''
      else if p = ''naiveproxy'' then ''naive'' else p)"

definition normalize_tunnel_protocol :: "string \<Rightarrow> string" where
  "normalize_tunnel_protocol p = (if p = [] then ''awg'' else normalize_protocol p)"

section \<open>Backend tunnels\<close>

text \<open>Counts and identifiers are compared and added only; they stay far inside 64 bits.\<close>

record backend_tunnel =
  tun_id :: int
  tun_server :: int
  tun_interface :: string
  tun_public_key :: string
  tun_private_key :: string
  tun_probe_key :: string
  tun_endpoint :: string
  tun_enabled :: bool
  tun_status :: string
  tun_disable_reason :: string
  tun_state_version :: int
  tun_last_check :: "time option"
  tun_latency :: int
  tun_conns :: int
  tun_created_at :: time
  tun_protocol :: string
  tun_params :: string

definition status_active :: string where "status_active = ''active''"
definition status_handshake_blocked :: string where "status_handshake_blocked = ''handshake_blocked''"

text \<open>Slices of \<^verbatim>\<open>*BackendTunnel\<close> may hold nil.\<close>

type_synonym tunnels = "backend_tunnel option list"

definition filter_tunnels_by_protocol :: "tunnels \<Rightarrow> string \<Rightarrow> tunnels" where
  "filter_tunnels_by_protocol ts proto =
     filter (\<lambda>t. case t of None \<Rightarrow> False
               | Some b \<Rightarrow> normalize_tunnel_protocol (tun_protocol b) = normalize_tunnel_protocol proto) ts"

lemma normalize_tunnel_protocol_idem [simp]:
  "normalize_tunnel_protocol (normalize_tunnel_protocol p) = normalize_tunnel_protocol p"
  by (simp add: normalize_tunnel_protocol_def normalize_protocol_def)

section \<open>Client sessions\<close>

record vpn_session =
  sess_id :: string
  sess_user :: string
  sess_backend :: int
  sess_peer :: string
  sess_ip :: string
  sess_connected_at :: time
  sess_last_seen :: time
  sess_rx :: int
  sess_tx :: int
  sess_status :: string
  sess_connection_name :: string
  sess_username :: string
  sess_connection_id :: string
  sess_generation :: "64 word"
  sess_admitted_via :: string
  sess_timed_out_at :: time

definition admission_direct :: string where "admission_direct = []"
definition admission_ingress :: string where "admission_ingress = ''ingress''"

end
