(* ===== verification/Balancers.thy ===== *)
theory Balancers
  imports Models Net_Addr
begin

text \<open>
  The load balancers of \<^verbatim>\<open>internal/vpn/loadbalancer\<close>: the health and capacity admission they share
  (\<^verbatim>\<open>balancer.go\<close>), round robin, least connections, and smooth weighted round robin. A result is an
  error, or a pointer to a tunnel, which the weighted balancer can leave nil. Dereferencing a nil
  entry of the candidate slice is the error \<open>NilDereference\<close>.
\<close>

section \<open>Requests, capacities, admission\<close>

datatype lb_error = NoActiveBackends | CapacityLimit | InvalidAlgorithm | NilRequest | NilDereference

type_synonym lb_result = "lb_error + backend_tunnel option"

record capacity_config =
  max_total_peers :: int
  max_peers_per_backend :: int
  caps_affinity_ttl :: duration

record routing_request =
  rq_user :: string
  rq_peer :: string
  rq_client_ip :: net_ip
  rq_tunnels :: tunnels

definition usable :: "int \<Rightarrow> backend_tunnel \<Rightarrow> bool" where
  "usable maxPeers t \<longleftrightarrow>
     tun_enabled t \<and> equal_fold (tun_status t) ''active'' \<and> \<not> (0 < maxPeers \<and> maxPeers \<le> tun_conns t)"

fun filter_healthy :: "tunnels \<Rightarrow> int \<Rightarrow> backend_tunnel list" where
  "filter_healthy [] maxPeers = []"
| "filter_healthy (None # ts) maxPeers = filter_healthy ts maxPeers"
| "filter_healthy (Some t # ts) maxPeers =
     (if usable maxPeers t then t # filter_healthy ts maxPeers else filter_healthy ts maxPeers)"

fun total_connections :: "tunnels \<Rightarrow> int option" where
  "total_connections [] = Some 0"
| "total_connections (None # ts) = None"
| "total_connections (Some t # ts) = map_option (\<lambda>n. tun_conns t + n) (total_connections ts)"

definition candidates :: "tunnels \<Rightarrow> routing_request \<Rightarrow> tunnels" where
  "candidates stored rq = (if rq_tunnels rq = [] then stored else rq_tunnels rq)"

text \<open>The prologue every \<open>SelectBackend\<close> repeats: health filter, then the total capacity.\<close>

definition admission :: "capacity_config \<Rightarrow> tunnels \<Rightarrow> lb_error + backend_tunnel list" where
  "admission caps cands =
     (let healthy = filter_healthy cands (max_peers_per_backend caps)
      in if healthy = [] then Inl NoActiveBackends
         else if 0 < max_total_peers caps
         then (case total_connections cands of
                 None \<Rightarrow> Inl NilDereference
               | Some n \<Rightarrow> if max_total_peers caps \<le> n then Inl CapacityLimit else Inr healthy)
         else Inr healthy)"

lemma filter_healthy_iff: "t \<in> set (filter_healthy ts m) \<longleftrightarrow> Some t \<in> set ts \<and> usable m t"
  by (induction ts m rule: filter_healthy.induct) auto

lemma admission_Inr:
  "admission caps cands = Inr h \<Longrightarrow> h = filter_healthy cands (max_peers_per_backend caps) \<and> h \<noteq> [] \<and>
     (0 < max_total_peers caps \<longrightarrow> (\<exists>n. total_connections cands = Some n \<and> n < max_total_peers caps))"
  unfolding admission_def Let_def by (auto split: if_splits option.splits)

section \<open>Round robin\<close>

record round_robin =
  rr_counter :: "64 word"
  rr_caps :: capacity_config
  rr_tunnels :: tunnels

definition new_round_robin :: "capacity_config \<Rightarrow> round_robin" where
  "new_round_robin caps = \<lparr>rr_counter = 0, rr_caps = caps, rr_tunnels = []\<rparr>"

definition rr_update :: "round_robin \<Rightarrow> tunnels \<Rightarrow> round_robin" where
  "rr_update rb ts = rb\<lparr>rr_tunnels := ts\<rparr>"

definition rr_select :: "round_robin \<Rightarrow> routing_request \<Rightarrow> round_robin \<times> lb_result" where
  "rr_select rb rq =
     (case admission (rr_caps rb) (candidates (rr_tunnels rb) rq) of
        Inl e \<Rightarrow> (rb, Inl e)
      | Inr healthy \<Rightarrow>
          let rb' = rb\<lparr>rr_counter := rr_counter rb + 1\<rparr>;
              idx = rr_counter rb' - 1
          in (rb', Inr (Some (healthy ! (unat idx mod length healthy)))))"

text \<open>The conversion \<open>uint64(len(healthy))\<close> is exact, so the 64-bit remainder is the one of the naturals.\<close>

section \<open>Least connections\<close>

record least_conn =
  lc_caps :: capacity_config
  lc_tunnels :: tunnels

definition new_least_conn :: "capacity_config \<Rightarrow> least_conn" where
  "new_least_conn caps = \<lparr>lc_caps = caps, lc_tunnels = []\<rparr>"

definition lc_update :: "least_conn \<Rightarrow> tunnels \<Rightarrow> least_conn" where
  "lc_update lb ts = lb\<lparr>lc_tunnels := ts\<rparr>"

fun lc_step :: "backend_tunnel \<Rightarrow> backend_tunnel option \<Rightarrow> backend_tunnel option" where
  "lc_step t None = Some t"
| "lc_step t (Some best) =
     (if tun_conns t < tun_conns best then Some t
      else if tun_conns t = tun_conns best then
        (if tun_latency t < tun_latency best then Some t
         else if tun_latency t = tun_latency best \<and> tun_id t < tun_id best then Some t
         else Some best)
      else Some best)"

definition lc_select :: "least_conn \<Rightarrow> routing_request \<Rightarrow> least_conn \<times> lb_result" where
  "lc_select lb rq =
     (case admission (lc_caps lb) (candidates (lc_tunnels lb) rq) of
        Inl e \<Rightarrow> (lb, Inl e)
      | Inr healthy \<Rightarrow> (lb, Inr (fold lc_step healthy None)))"

section \<open>Smooth weighted round robin\<close>

type_synonym weight_map = "(int, int) fmap"

record weighted_rr =
  wrr_weights :: weight_map
  wrr_current :: weight_map
  wrr_caps :: capacity_config
  wrr_tunnels :: tunnels

definition positive_weights :: "weight_map \<Rightarrow> weight_map" where
  "positive_weights w = fmfilter (\<lambda>k. case fmlookup w k of Some v \<Rightarrow> 0 < v | None \<Rightarrow> False) w"

definition new_weighted_rr :: "weight_map \<Rightarrow> capacity_config \<Rightarrow> weighted_rr" where
  "new_weighted_rr w caps =
     \<lparr>wrr_weights = positive_weights w, wrr_current = fmempty, wrr_caps = caps, wrr_tunnels = []\<rparr>"

text \<open>\<open>UpdateBackends\<close> drops the state of servers without a tunnel; it panics on a nil tunnel.\<close>

definition wrr_update :: "weighted_rr \<Rightarrow> tunnels \<Rightarrow> weighted_rr option" where
  "wrr_update wb ts =
     (if None \<in> set ts then None
      else let present = tun_server ` the ` set ts
           in Some (wb\<lparr>wrr_tunnels := ts,
                       wrr_current := fmfilter (\<lambda>sid. sid \<in> present) (wrr_current wb),
                       wrr_weights := fmfilter (\<lambda>sid. sid \<in> present) (wrr_weights wb)\<rparr>))"

definition wrr_set_weights :: "weighted_rr \<Rightarrow> weight_map \<Rightarrow> weighted_rr" where
  "wrr_set_weights wb w = wb\<lparr>wrr_weights := positive_weights w, wrr_current := fmempty\<rparr>"

definition weight_of :: "weight_map \<Rightarrow> int \<Rightarrow> int" where
  "weight_of m sid = (case fmlookup m sid of None \<Rightarrow> 0 | Some v \<Rightarrow> v)"

definition effective_weight :: "weight_map \<Rightarrow> int \<Rightarrow> int" where
  "effective_weight w sid = (case fmlookup w sid of None \<Rightarrow> 100 | Some v \<Rightarrow> if v \<le> 0 then 100 else v)"

fun wrr_step :: "weight_map \<Rightarrow> backend_tunnel \<Rightarrow> weight_map \<times> int \<times> int \<times> backend_tunnel option \<Rightarrow>
    weight_map \<times> int \<times> int \<times> backend_tunnel option" where
  "wrr_step w t (cw, tw, mx, best) =
     (let e = effective_weight w (tun_server t);
          cw' = fmupd (tun_server t) (weight_of cw (tun_server t) + e) cw;
          c = weight_of cw' (tun_server t)
      in if mx < c then (cw', tw + e, c, Some t) else (cw', tw + e, mx, best))"

definition min_current_weight :: int where "min_current_weight = - 2147483648"

definition wrr_select :: "weighted_rr \<Rightarrow> routing_request \<Rightarrow> weighted_rr \<times> lb_result" where
  "wrr_select wb rq =
     (case admission (wrr_caps wb) (candidates (wrr_tunnels wb) rq) of
        Inl e \<Rightarrow> (wb, Inl e)
      | Inr healthy \<Rightarrow>
          (case fold (wrr_step (wrr_weights wb)) healthy (wrr_current wb, 0, min_current_weight, None) of
             (cw, tw, mx, best) \<Rightarrow>
               (case best of
                  None \<Rightarrow> (wb\<lparr>wrr_current := cw\<rparr>, Inr None)
                | Some b \<Rightarrow>
                    (wb\<lparr>wrr_current := fmupd (tun_server b) (weight_of cw (tun_server b) - tw) cw\<rparr>,
                     Inr (Some b)))))"

section \<open>The balancer behind the interface\<close>

datatype balancer = RoundRobin round_robin | LeastConn least_conn | WeightedRR weighted_rr

definition new_load_balancer :: "string \<Rightarrow> weight_map \<Rightarrow> capacity_config \<Rightarrow> lb_error + balancer" where
  "new_load_balancer algo w caps =
     (if algo = ''least_conn'' \<or> algo = [] then Inr (LeastConn (new_least_conn caps))
      else if algo = ''weighted'' then Inr (WeightedRR (new_weighted_rr w caps))
      else if algo = ''round_robin'' then Inr (RoundRobin (new_round_robin caps))
      else Inl InvalidAlgorithm)"

fun select_backend :: "balancer \<Rightarrow> routing_request \<Rightarrow> balancer \<times> lb_result" where
  "select_backend (RoundRobin b) rq = (case rr_select b rq of (b', r) \<Rightarrow> (RoundRobin b', r))"
| "select_backend (LeastConn b) rq = (case lc_select b rq of (b', r) \<Rightarrow> (LeastConn b', r))"
| "select_backend (WeightedRR b) rq = (case wrr_select b rq of (b', r) \<Rightarrow> (WeightedRR b', r))"

fun balancer_caps :: "balancer \<Rightarrow> capacity_config" where
  "balancer_caps (RoundRobin b) = rr_caps b"
| "balancer_caps (LeastConn b) = lc_caps b"
| "balancer_caps (WeightedRR b) = wrr_caps b"

fun balancer_tunnels :: "balancer \<Rightarrow> tunnels" where
  "balancer_tunnels (RoundRobin b) = rr_tunnels b"
| "balancer_tunnels (LeastConn b) = lc_tunnels b"
| "balancer_tunnels (WeightedRR b) = wrr_tunnels b"

section \<open>The interface: a backend selector\<close>

text \<open>
  What the sticky session manager relies on: a selected tunnel is one of the healthy candidates,
  an error is the admission's and leaves the state alone, and selecting never changes the
  capacities or the stored tunnels.
\<close>

locale backend_selector =
  fixes sel :: "'s \<Rightarrow> routing_request \<Rightarrow> 's \<times> lb_result"
    and caps :: "'s \<Rightarrow> capacity_config"
    and stored :: "'s \<Rightarrow> tunnels"
  assumes sel_member: "sel s rq = (s', Inr (Some t)) \<Longrightarrow>
      t \<in> set (filter_healthy (candidates (stored s) rq) (max_peers_per_backend (caps s)))"
    and sel_error: "sel s rq = (s', Inl e) \<Longrightarrow> s' = s \<and> admission (caps s) (candidates (stored s) rq) = Inl e"
    and sel_admitted: "sel s rq = (s', Inr r) \<Longrightarrow> \<exists>h. admission (caps s) (candidates (stored s) rq) = Inr h"
    and sel_caps: "caps (fst (sel s rq)) = caps s"
    and sel_stored: "stored (fst (sel s rq)) = stored s"
begin

lemma sel_usable:
  assumes "sel s rq = (s', Inr (Some t))"
  shows "Some t \<in> set (candidates (stored s) rq) \<and> usable (max_peers_per_backend (caps s)) t"
  using sel_member [OF assms] by (simp add: filter_healthy_iff)

lemma sel_under_capacity:
  assumes "sel s rq = (s', Inr r)" "0 < max_total_peers (caps s)"
  shows "\<exists>n. total_connections (candidates (stored s) rq) = Some n \<and> n < max_total_peers (caps s)"
  using sel_admitted [OF assms(1)] admission_Inr assms(2) by blast

text \<open>Selecting again from the same request fails in the same way.\<close>

lemma sel_error_stable:
  assumes "sel s rq = (s', Inl e)"
  shows "snd (sel s' rq) = Inl e"
  using sel_error [OF assms] assms by simp

end

lemma lc_fold_Some: "fold lc_step xs b = None \<longleftrightarrow> xs = [] \<and> b = None"
proof (induction xs arbitrary: b)
  case (Cons x xs)
  have "lc_step x b \<noteq> None" by (cases b) auto
  then show ?case using Cons.IH by simp
qed simp

definition lc_key :: "backend_tunnel \<Rightarrow> int \<times> int \<times> int" where
  "lc_key t = (tun_conns t, tun_latency t, tun_id t)"

lemma lc_step_min: "lc_step t (Some b) = Some (if lc_key t < lc_key b then t else b)"
  by (auto simp: lc_key_def)

lemma lc_fold_min:
  assumes "fold lc_step xs b0 = Some b"
  shows "(b \<in> set xs \<or> b0 = Some b) \<and> (\<forall>t \<in> set xs \<union> set_option b0. lc_key b \<le> lc_key t)"
  using assms
proof (induction xs arbitrary: b0)
  case (Cons x xs)
  show ?case
  proof (cases b0)
    case None
    then show ?thesis using Cons.IH [of "Some x"] Cons.prems by auto
  next
    case (Some c)
    have "fold lc_step xs (Some (if lc_key x < lc_key c then x else c)) = Some b"
      using Cons.prems Some by (simp only: fold_simps lc_step_min comp_apply)
    from Cons.IH [OF this] show ?thesis using Some by (auto split: if_splits)
  qed
qed auto

section \<open>The weighted fold\<close>

definition servers :: "backend_tunnel list \<Rightarrow> int set" where
  "servers h = tun_server ` set h"

definition total_weight :: "weight_map \<Rightarrow> backend_tunnel list \<Rightarrow> int" where
  "total_weight w h = sum_list (map (\<lambda>t. effective_weight w (tun_server t)) h)"

lemma effective_weight_pos: "0 < effective_weight w s"
  by (simp add: effective_weight_def split: option.split)

lemma weight_of_upd [simp]: "weight_of (fmupd k v m) j = (if j = k then v else weight_of m j)"
  by (simp add: weight_of_def)

lemma weight_of_empty [simp]: "weight_of fmempty s = 0"
  by (simp add: weight_of_def)

lemma wrr_fold:
  assumes "distinct (map tun_server h)"
    and "fold (wrr_step w) h (cw, 0, min_current_weight, None) = (cw', tw, mx, best)"
  shows "(\<forall>s. weight_of cw' s = weight_of cw s + (if s \<in> servers h then effective_weight w s else 0)) \<and>
         tw = total_weight w h \<and> (\<forall>t \<in> set h. weight_of cw' (tun_server t) \<le> mx) \<and>
         (case best of None \<Rightarrow> mx = min_current_weight
          | Some b \<Rightarrow> b \<in> set h \<and> mx = weight_of cw' (tun_server b))"
  using assms
proof (induction h arbitrary: cw' tw mx best rule: rev_induct)
  case Nil
  then show ?case by (simp add: servers_def total_weight_def)
next
  case (snoc t h)
  obtain c0 t0 m0 b0 where f: "fold (wrr_step w) h (cw, 0, min_current_weight, None) = (c0, t0, m0, b0)"
    by (metis prod.exhaust)
  have d: "distinct (map tun_server h)" "tun_server t \<notin> servers h" using snoc.prems(1) by (auto simp: servers_def)
  note IH = snoc.IH [OF d(1) f]
  have ne: "tun_server x \<noteq> tun_server t" if "x \<in> set h" for x using d(2) that unfolding servers_def by (metis image_eqI)
  have step: "wrr_step w t (c0, t0, m0, b0) = (cw', tw, mx, best)" using snoc.prems(2) f by simp
  let ?e = "effective_weight w (tun_server t)"
  have cw': "cw' = fmupd (tun_server t) (weight_of c0 (tun_server t) + ?e) c0" and tw: "tw = t0 + ?e"
    using step by (auto simp: Let_def split: if_splits)
  have cases: "(m0 < weight_of c0 (tun_server t) + ?e \<and> mx = weight_of c0 (tun_server t) + ?e \<and> best = Some t) \<or>
      (weight_of c0 (tun_server t) + ?e \<le> m0 \<and> mx = m0 \<and> best = b0)"
    using step by (auto simp: Let_def split: if_splits)
  have s: "servers (h @ [t]) = insert (tun_server t) (servers h)" by (auto simp: servers_def)
  have "tw = total_weight w (h @ [t])" using tw IH by (simp add: total_weight_def)
  moreover have "\<forall>x. weight_of cw' x = weight_of cw x + (if x \<in> servers (h @ [t]) then effective_weight w x else 0)"
    using IH d(2) unfolding s cw' by auto
  moreover have "\<forall>x \<in> set (h @ [t]). weight_of cw' (tun_server x) \<le> mx"
    using IH cases ne unfolding cw' by fastforce
  moreover have "case best of None \<Rightarrow> mx = min_current_weight
      | Some b \<Rightarrow> b \<in> set (h @ [t]) \<and> mx = weight_of cw' (tun_server b)"
    using IH cases ne unfolding cw' by (auto split: option.splits)
  ultimately show ?case by blast
qed

lemma wrr_fold_best:
  assumes "h \<noteq> []" "fold (wrr_step w) h (cw, 0, min_current_weight, None) = (cw', tw, mx, Some b)"
  shows "b \<in> set h"
proof -
  have "fold (wrr_step w) xs st = (c, n, m, Some b) \<Longrightarrow> snd (snd (snd st)) = Some b \<or> b \<in> set xs" for xs st c n m
  proof (induction xs arbitrary: st)
    case (Cons x xs)
    obtain a1 a2 a3 a4 where st: "st = (a1, a2, a3, a4)" by (metis prod.exhaust)
    have "snd (snd (snd (wrr_step w x st))) = Some b \<Longrightarrow> snd (snd (snd st)) = Some b \<or> b = x"
      by (auto simp: st Let_def split: if_splits)
    then show ?case using Cons.IH [of "wrr_step w x st"] Cons.prems by auto
  qed auto
  from this [OF assms(2)] show ?thesis by simp
qed

section \<open>The three balancers meet the interface\<close>

lemma rr_admitted_member:
  assumes "admission caps cands = Inr h"
  shows "h ! (n mod length h) \<in> set (filter_healthy cands (max_peers_per_backend caps))"
  using admission_Inr [OF assms] by (auto intro!: nth_mem)

interpretation rr: backend_selector rr_select rr_caps rr_tunnels
proof unfold_locales
  show "t \<in> set (filter_healthy (candidates (rr_tunnels s) rq) (max_peers_per_backend (rr_caps s)))"
    if "rr_select s rq = (s', Inr (Some t))" for s rq s' t
    using that rr_admitted_member by (auto simp: rr_select_def Let_def split: sum.splits)
qed (auto simp: rr_select_def Let_def split: sum.splits)

interpretation lc: backend_selector lc_select lc_caps lc_tunnels
proof unfold_locales
  show "t \<in> set (filter_healthy (candidates (lc_tunnels s) rq) (max_peers_per_backend (lc_caps s)))"
    if "lc_select s rq = (s', Inr (Some t))" for s rq s' t
    using that lc_fold_min [of _ None t] by (auto simp: lc_select_def split: sum.splits dest!: admission_Inr)
qed (auto simp: lc_select_def split: sum.splits)

interpretation wrr: backend_selector wrr_select wrr_caps wrr_tunnels
proof unfold_locales
  show "t \<in> set (filter_healthy (candidates (wrr_tunnels s) rq) (max_peers_per_backend (wrr_caps s)))"
    if sel: "wrr_select s rq = (s', Inr (Some t))" for s rq s' t
  proof -
    obtain h where h: "admission (wrr_caps s) (candidates (wrr_tunnels s) rq) = Inr h"
      using sel by (auto simp: wrr_select_def split: sum.splits)
    obtain cw tw mx best where f:
      "fold (wrr_step (wrr_weights s)) h (wrr_current s, 0, min_current_weight, None) = (cw, tw, mx, best)"
      by (metis prod.exhaust)
    then have "best = Some t" using sel h by (auto simp: wrr_select_def split: option.splits)
    then show ?thesis using wrr_fold_best [of h] f admission_Inr [OF h] by metis
  qed
qed (auto simp: wrr_select_def split: sum.splits option.splits prod.splits)

interpretation any: backend_selector select_backend balancer_caps balancer_tunnels
proof unfold_locales
  fix s rq s' t e r
  show "t \<in> set (filter_healthy (candidates (balancer_tunnels s) rq) (max_peers_per_backend (balancer_caps s)))"
    if "select_backend s rq = (s', Inr (Some t))"
    using that by (cases s) (auto dest: rr.sel_member lc.sel_member wrr.sel_member split: prod.splits)
  show "s' = s \<and> admission (balancer_caps s) (candidates (balancer_tunnels s) rq) = Inl e"
    if "select_backend s rq = (s', Inl e)"
    using that by (cases s) (auto dest: rr.sel_error lc.sel_error wrr.sel_error split: prod.splits)
  show "\<exists>h. admission (balancer_caps s) (candidates (balancer_tunnels s) rq) = Inr h"
    if "select_backend s rq = (s', Inr r)"
    using that by (cases s) (auto dest: rr.sel_admitted lc.sel_admitted wrr.sel_admitted split: prod.splits)
  show "balancer_caps (fst (select_backend s rq)) = balancer_caps s"
    by (cases s) (auto simp: case_prod_beta rr.sel_caps lc.sel_caps wrr.sel_caps)
  show "balancer_tunnels (fst (select_backend s rq)) = balancer_tunnels s"
    by (cases s) (auto simp: case_prod_beta rr.sel_stored lc.sel_stored wrr.sel_stored)
qed

section \<open>Repeated selection\<close>

fun select_many :: "('s \<Rightarrow> routing_request \<Rightarrow> 's \<times> lb_result) \<Rightarrow> nat \<Rightarrow> 's \<Rightarrow> routing_request \<Rightarrow> 's \<times> lb_result list" where
  "select_many sel 0 s rq = (s, [])"
| "select_many sel (Suc n) s rq =
     (case sel s rq of (s', r) \<Rightarrow> (case select_many sel n s' rq of (s'', rs) \<Rightarrow> (s'', r # rs)))"

lemma rr_select_many:
  assumes "admission (rr_caps rb) (candidates (rr_tunnels rb) rq) = Inr h"
    and "unat (rr_counter rb) + n < 18446744073709551616"
  shows "snd (select_many rr_select n rb rq) =
           map (\<lambda>i. Inr (Some (h ! ((unat (rr_counter rb) + i) mod length h)))) [0..<n]"
  using assms
proof (induction n arbitrary: rb)
  case (Suc n)
  let ?rb = "rb\<lparr>rr_counter := rr_counter rb + 1\<rparr>"
  have u: "unat (rr_counter rb + 1) = unat (rr_counter rb) + 1"
    using Suc.prems(2) by (simp add: unat_word_ariths)
  have sel: "rr_select rb rq = (?rb, Inr (Some (h ! (unat (rr_counter rb) mod length h))))"
    using Suc.prems(1) by (simp add: rr_select_def Let_def)
  have IH: "snd (select_many rr_select n ?rb rq) =
      map (\<lambda>i. Inr (Some (h ! ((unat (rr_counter rb) + 1 + i) mod length h)))) [0..<n]"
    using Suc.IH [of ?rb] Suc.prems u by simp
  have "map f [0..<Suc n] = f 0 # map (\<lambda>i. f (Suc i)) [0..<n]" for f :: "nat \<Rightarrow> lb_result"
    by (simp only: upt_conv_Cons map_Suc_upt [symmetric] list.map) (simp add: o_def del: upt_Suc)
  then show ?case using sel IH by (simp add: case_prod_beta del: upt_Suc)
qed simp

lemma picks_rotate:
  "h \<noteq> [] \<Longrightarrow> map (\<lambda>i. h ! ((m + i) mod length h)) [0..<length h] = rotate m h"
  by (rule nth_equalityI) (simp_all add: nth_rotate)

subsection \<open>Weighted round robin is proportionally fair\<close>

definition wrr_balanced :: "weight_map \<Rightarrow> backend_tunnel list \<Rightarrow> weight_map \<Rightarrow> bool" where
  "wrr_balanced w h cw \<longleftrightarrow>
     sum_list (map (\<lambda>t. weight_of cw (tun_server t)) h) = 0 \<and>
     (\<forall>t \<in> set h. - total_weight w h < weight_of cw (tun_server t))"

lemma total_weight_pos: "h \<noteq> [] \<Longrightarrow> 0 < total_weight w h"
proof (induction h)
  case (Cons t h)
  then show ?case using effective_weight_pos [of w "tun_server t"]
    by (cases h) (auto simp: total_weight_def)
qed simp

lemma sum_list_pos_ex:
  assumes "0 < sum_list (map (f :: 'a \<Rightarrow> int) xs)"
  shows "\<exists>x \<in> set xs. 0 < f x"
proof (rule ccontr)
  assume "\<not> ?thesis"
  then have "sum_list (map f xs) \<le> 0" by (induction xs) auto
  then show False using assms by simp
qed

lemma sum_list_single:
  assumes "distinct (map g xs)" "b \<in> set xs"
  shows "sum_list (map (\<lambda>t. if g t = g b then (v::int) else 0) xs) = v"
  using assms
proof (induction xs)
  case (Cons x xs)
  have z: "b' \<notin> g ` set xs \<Longrightarrow> sum_list (map (\<lambda>t. if g t = b' then v else 0) xs) = 0" for b'
    by (induction xs) auto
  then show ?case using Cons by (cases "g x = g b") auto
qed simp

text \<open>One round on a balanced state: the chosen server pays the total, everyone earns its weight.\<close>

lemma wrr_round:
  assumes adm: "admission (wrr_caps wb) (candidates (wrr_tunnels wb) rq) = Inr h"
    and d: "distinct (map tun_server h)" and bal: "wrr_balanced (wrr_weights wb) h (wrr_current wb)"
  shows "\<exists>b wb'. wrr_select wb rq = (wb', Inr (Some b)) \<and> b \<in> set h \<and> wrr_weights wb' = wrr_weights wb \<and>
           wrr_caps wb' = wrr_caps wb \<and> wrr_tunnels wb' = wrr_tunnels wb \<and>
           wrr_balanced (wrr_weights wb) h (wrr_current wb') \<and>
           (\<forall>t \<in> set h. weight_of (wrr_current wb') (tun_server t) =
              weight_of (wrr_current wb) (tun_server t) + effective_weight (wrr_weights wb) (tun_server t) -
              (if tun_server t = tun_server b then total_weight (wrr_weights wb) h else 0))"
proof -
  let ?w = "wrr_weights wb" and ?W = "total_weight (wrr_weights wb) h" and ?c = "wrr_current wb"
  obtain cw tw mx best where f: "fold (wrr_step ?w) h (?c, 0, min_current_weight, None) = (cw, tw, mx, best)"
    by (metis prod.exhaust)
  note F = wrr_fold [OF d f]
  have W: "0 < ?W" using admission_Inr [OF adm] total_weight_pos by blast
  have cw: "weight_of cw (tun_server t) = weight_of ?c (tun_server t) + effective_weight ?w (tun_server t)"
    if "t \<in> set h" for t using F that by (auto simp: servers_def)
  have "sum_list (map (\<lambda>t. weight_of cw (tun_server t)) h) =
      sum_list (map (\<lambda>t. weight_of ?c (tun_server t) + effective_weight ?w (tun_server t)) h)"
    using cw by (intro arg_cong [of _ _ sum_list] map_cong) simp_all
  also have "\<dots> = ?W" using bal by (simp add: sum_list_addf wrr_balanced_def total_weight_def)
  finally have sum: "sum_list (map (\<lambda>t. weight_of cw (tun_server t)) h) = ?W" .
  then obtain t0 where "t0 \<in> set h" "0 < weight_of cw (tun_server t0)"
    using W sum_list_pos_ex [of "\<lambda>t. weight_of cw (tun_server t)" h] by auto
  then have mx: "0 < mx" using F by fastforce
  then obtain b where b: "best = Some b" "b \<in> set h" "mx = weight_of cw (tun_server b)"
    using F by (cases best) (auto simp: min_current_weight_def)
  let ?cw' = "fmupd (tun_server b) (weight_of cw (tun_server b) - tw) cw"
  let ?wb' = "wb\<lparr>wrr_current := ?cw'\<rparr>"
  have sel: "wrr_select wb rq = (?wb', Inr (Some b))" using adm f b(1) by (simp add: wrr_select_def)
  have upd: "weight_of ?cw' (tun_server t) = weight_of ?c (tun_server t) + effective_weight ?w (tun_server t) -
      (if tun_server t = tun_server b then ?W else 0)" if "t \<in> set h" for t
    using cw [OF that] F by auto
  have "sum_list (map (\<lambda>t. weight_of ?cw' (tun_server t)) h) =
      sum_list (map (\<lambda>t. weight_of cw (tun_server t) - (if tun_server t = tun_server b then ?W else 0)) h)"
    using upd cw by (intro arg_cong [of _ _ sum_list] map_cong) simp_all
  also have "\<dots> = 0" using sum sum_list_single [OF d b(2), of ?W] by (simp add: sum_list_subtractf)
  finally have "sum_list (map (\<lambda>t. weight_of ?cw' (tun_server t)) h) = 0" .
  moreover have "- ?W < weight_of ?cw' (tun_server t)" if t: "t \<in> set h" for t
  proof (cases "tun_server t = tun_server b")
    case True
    then show ?thesis using F mx b(3) by simp
  next
    case False
    then show ?thesis using upd [OF t] bal t effective_weight_pos [of ?w "tun_server t"]
      by (auto simp: wrr_balanced_def)
  qed
  ultimately have "wrr_balanced ?w h ?cw'" by (simp add: wrr_balanced_def)
  then show ?thesis using sel b(2) upd by auto
qed

definition picks :: "backend_tunnel \<Rightarrow> lb_result list \<Rightarrow> nat" where
  "picks t rs = length (filter (\<lambda>r. case r of Inr (Some b) \<Rightarrow> tun_server b = tun_server t | _ \<Rightarrow> False) rs)"

lemma wrr_rounds:
  assumes "admission (wrr_caps wb) (candidates (wrr_tunnels wb) rq) = Inr h"
    and "distinct (map tun_server h)" "wrr_balanced (wrr_weights wb) h (wrr_current wb)"
    and "select_many wrr_select k wb rq = (wb', rs)"
  shows "wrr_balanced (wrr_weights wb) h (wrr_current wb') \<and> (\<forall>r \<in> set rs. \<exists>b \<in> set h. r = Inr (Some b)) \<and>
         (\<forall>t \<in> set h. weight_of (wrr_current wb') (tun_server t) =
            weight_of (wrr_current wb) (tun_server t) + int k * effective_weight (wrr_weights wb) (tun_server t) -
            total_weight (wrr_weights wb) h * int (picks t rs))"
  using assms
proof (induction k arbitrary: wb wb' rs)
  case 0
  then show ?case by (simp add: picks_def)
next
  case (Suc k)
  obtain b wb1 where r: "wrr_select wb rq = (wb1, Inr (Some b))" "b \<in> set h" "wrr_weights wb1 = wrr_weights wb"
      "wrr_caps wb1 = wrr_caps wb" "wrr_tunnels wb1 = wrr_tunnels wb"
      "wrr_balanced (wrr_weights wb) h (wrr_current wb1)"
    and upd: "\<forall>t \<in> set h. weight_of (wrr_current wb1) (tun_server t) =
              weight_of (wrr_current wb) (tun_server t) + effective_weight (wrr_weights wb) (tun_server t) -
              (if tun_server t = tun_server b then total_weight (wrr_weights wb) h else 0)"
    using wrr_round [OF Suc.prems(1-3)] by blast
  obtain rs1 where rs: "select_many wrr_select k wb1 rq = (wb', rs1)" "rs = Inr (Some b) # rs1"
    using Suc.prems(4) r(1) by (auto split: prod.splits)
  have IH: "wrr_balanced (wrr_weights wb) h (wrr_current wb') \<and> (\<forall>r \<in> set rs1. \<exists>b \<in> set h. r = Inr (Some b)) \<and>
         (\<forall>t \<in> set h. weight_of (wrr_current wb') (tun_server t) =
            weight_of (wrr_current wb1) (tun_server t) + int k * effective_weight (wrr_weights wb) (tun_server t) -
            total_weight (wrr_weights wb) h * int (picks t rs1))"
    using Suc.IH [OF _ Suc.prems(2) _ rs(1)] r Suc.prems(1) by simp
  have p: "int (picks t rs) = int (picks t rs1) + (if tun_server t = tun_server b then 1 else 0)" for t
    by (auto simp: rs(2) picks_def)
  have "weight_of (wrr_current wb') (tun_server t) =
      weight_of (wrr_current wb) (tun_server t) + int (Suc k) * effective_weight (wrr_weights wb) (tun_server t) -
      total_weight (wrr_weights wb) h * int (picks t rs)" if t: "t \<in> set h" for t
  proof -
    have 1: "weight_of (wrr_current wb') (tun_server t) =
        weight_of (wrr_current wb1) (tun_server t) + int k * effective_weight (wrr_weights wb) (tun_server t) -
        total_weight (wrr_weights wb) h * int (picks t rs1)" using IH t by blast
    have 2: "weight_of (wrr_current wb1) (tun_server t) =
        weight_of (wrr_current wb) (tun_server t) + effective_weight (wrr_weights wb) (tun_server t) -
        (if tun_server t = tun_server b then total_weight (wrr_weights wb) h else 0)" using upd t by blast
    show ?thesis using p [of t] unfolding 1 2
      by (cases "tun_server t = tun_server b") (simp_all add: algebra_simps)
  qed
  then show ?case using IH rs(2) r(2) by auto
qed

text \<open>A balanced vector is bounded above as well.\<close>

lemma balanced_upper:
  assumes "wrr_balanced w h cw" "distinct (map tun_server h)" "t \<in> set h"
  shows "weight_of cw (tun_server t) \<le> (int (length h) - 1) * total_weight w h"
proof -
  obtain p q where h: "h = p @ t # q" using assms(3) by (meson split_list)
  have ge: "- (int (length xs) * total_weight w h) \<le> sum_list (map (\<lambda>t. weight_of cw (tun_server t)) xs)"
    if "set xs \<subseteq> set h" for xs
    using that
  proof (induction xs)
    case (Cons x xs)
    have "- total_weight w h < weight_of cw (tun_server x)" using assms(1) Cons.prems by (auto simp: wrr_balanced_def)
    then show ?case using Cons by (simp add: algebra_simps)
  qed simp
  have "weight_of cw (tun_server t) + (sum_list (map (\<lambda>t. weight_of cw (tun_server t)) p) +
      sum_list (map (\<lambda>t. weight_of cw (tun_server t)) q)) = 0"
    using assms(1) by (simp add: wrr_balanced_def h)
  moreover have "- (int (length p) * total_weight w h) \<le> sum_list (map (\<lambda>t. weight_of cw (tun_server t)) p)"
    "- (int (length q) * total_weight w h) \<le> sum_list (map (\<lambda>t. weight_of cw (tun_server t)) q)"
    using ge [of p] ge [of q] h by auto
  moreover have "int (length h) - 1 = int (length p) + int (length q)" by (simp add: h)
  ultimately show ?thesis by (simp add: algebra_simps)
qed

section \<open>Properties\<close>

text \<open>
  Whichever algorithm is configured, a selected backend is one of the offered candidates,
  enabled, active and below the per-backend limit, and when a total limit is set the candidates
  carry fewer connections than it.
\<close>

theorem selected_backend_admissible:
  assumes "select_backend b rq = (b', Inr (Some t))"
  shows "Some t \<in> set (candidates (balancer_tunnels b) rq) \<and> usable (max_peers_per_backend (balancer_caps b)) t \<and>
         (0 < max_total_peers (balancer_caps b) \<longrightarrow>
            (\<exists>n. total_connections (candidates (balancer_tunnels b) rq) = Some n \<and> n < max_total_peers (balancer_caps b)))"
  using any.sel_usable [OF assms] any.sel_under_capacity [OF assms] by blast

text \<open>
  Round robin visits every healthy backend once per round: as long as the 64-bit counter does
  not wrap, as many selections as there are healthy backends return them in rotated order.
\<close>

theorem round_robin_visits_all:
  assumes "admission (rr_caps rb) (candidates (rr_tunnels rb) rq) = Inr h"
    and "unat (rr_counter rb) + length h < 18446744073709551616"
  shows "snd (select_many rr_select (length h) rb rq) =
           map (\<lambda>t. Inr (Some t)) (rotate (unat (rr_counter rb)) h)"
proof -
  have "h \<noteq> []" using admission_Inr [OF assms(1)] by blast
  then show ?thesis unfolding rr_select_many [OF assms] by (simp add: picks_rotate [symmetric])
qed

text \<open>
  Least connections answers exactly when admission does, with a healthy backend that no other
  healthy backend beats on (connections, latency, identifier).
\<close>

theorem least_connections_minimal:
  assumes "admission (lc_caps lb) (candidates (lc_tunnels lb) rq) = Inr h"
  shows "\<exists>t. lc_select lb rq = (lb, Inr (Some t)) \<and> t \<in> set h \<and> (\<forall>u \<in> set h. lc_key t \<le> lc_key u)"
proof -
  have "h \<noteq> []" using admission_Inr [OF assms] by blast
  then obtain t where t: "fold lc_step h None = Some t" using lc_fold_Some [of h None] by auto
  then show ?thesis using lc_fold_min [OF t] assms by (auto simp: lc_select_def)
qed

text \<open>
  C30: smooth weighted round robin is proportionally fair. From a fresh scheduler, over any number
  k of selections from the same healthy backends (one per server), no selection fails, and a
  server of weight w out of a total of W is chosen fewer than k w / W + 1 times and at least
  k w / W - (n - 1) times.
\<close>

theorem weighted_rr_fair:
  assumes "admission (wrr_caps wb) (candidates (wrr_tunnels wb) rq) = Inr h"
    and "distinct (map tun_server h)" "wrr_current wb = fmempty"
    and "select_many wrr_select k wb rq = (wb', rs)" "t \<in> set h"
  shows "(\<forall>r \<in> set rs. \<exists>b \<in> set h. r = Inr (Some b)) \<and>
         total_weight (wrr_weights wb) h * int (picks t rs) <
           int k * effective_weight (wrr_weights wb) (tun_server t) + total_weight (wrr_weights wb) h \<and>
         int k * effective_weight (wrr_weights wb) (tun_server t) \<le>
           total_weight (wrr_weights wb) h * (int (picks t rs) + int (length h) - 1)"
proof -
  have h: "h \<noteq> []" using admission_Inr [OF assms(1)] by blast
  then have "wrr_balanced (wrr_weights wb) h (wrr_current wb)"
    using total_weight_pos [OF h] by (simp add: wrr_balanced_def assms(3))
  note R = wrr_rounds [OF assms(1,2) this assms(4)]
  then have low: "- total_weight (wrr_weights wb) h < weight_of (wrr_current wb') (tun_server t)"
    using assms(5) unfolding wrr_balanced_def by blast
  have up: "weight_of (wrr_current wb') (tun_server t) \<le> (int (length h) - 1) * total_weight (wrr_weights wb) h"
    using R balanced_upper [OF _ assms(2,5)] by blast
  have "weight_of (wrr_current wb') (tun_server t) =
      int k * effective_weight (wrr_weights wb) (tun_server t) - total_weight (wrr_weights wb) h * int (picks t rs)"
    using R assms(3,5) by simp
  then show ?thesis using R low up by (simp add: algebra_simps)
qed

text \<open>
  A nil entry among the candidates, which the health filter skips, still stops every balancer
  once a total capacity is set and some backend is healthy: the loop that sums the connections
  dereferences it.
\<close>

theorem nil_candidate_stops_selection:
  assumes "None \<in> set (candidates (balancer_tunnels b) rq)" "0 < max_total_peers (balancer_caps b)"
    and "filter_healthy (candidates (balancer_tunnels b) rq) (max_peers_per_backend (balancer_caps b)) \<noteq> []"
  shows "snd (select_backend b rq) = Inl NilDereference"
proof -
  have "None \<in> set ts \<Longrightarrow> total_connections ts = None" for ts
    by (induction ts rule: total_connections.induct) auto
  then have "admission (balancer_caps b) (candidates (balancer_tunnels b) rq) = Inl NilDereference"
    using assms by (simp add: admission_def)
  then show ?thesis
    by (cases b) (auto simp: rr_select_def lc_select_def wrr_select_def)
qed

section \<open>Witnesses\<close>

definition mk_tunnel :: "int \<Rightarrow> int \<Rightarrow> int \<Rightarrow> backend_tunnel" where
  "mk_tunnel i lat conns = \<lparr>tun_id = i, tun_server = 10 * i, tun_interface = [], tun_public_key = [], tun_private_key = [],
     tun_probe_key = [], tun_endpoint = [], tun_enabled = True, tun_status = ''active'', tun_disable_reason = [],
     tun_state_version = 0, tun_last_check = None, tun_latency = lat, tun_conns = conns, tun_created_at = 0,
     tun_protocol = ''awg'', tun_params = []\<rparr>"

definition demo_caps :: capacity_config where
  "demo_caps = \<lparr>max_total_peers = 100, max_peers_per_backend = 50, caps_affinity_ttl = 0\<rparr>"

definition demo_req :: routing_request where
  "demo_req = \<lparr>rq_user = ''u'', rq_peer = ''p'', rq_client_ip = [],
     rq_tunnels = [Some (mk_tunnel 1 20 4), Some (mk_tunnel 2 10 4), Some (mk_tunnel 3 5 60)]\<rparr>"

lemma demo_admission: "admission demo_caps (candidates ts demo_req) = Inr [mk_tunnel 1 20 4, mk_tunnel 2 10 4]"
  by (simp add: admission_def candidates_def demo_req_def demo_caps_def usable_def mk_tunnel_def)

theorem selected_backend_admissible_witness:
  "\<exists>b'. select_backend (LeastConn (new_least_conn demo_caps)) demo_req = (b', Inr (Some (mk_tunnel 2 10 4))) \<and>
     usable 50 (mk_tunnel 2 10 4)"
proof -
  have "select_backend (LeastConn (new_least_conn demo_caps)) demo_req =
      (LeastConn (new_least_conn demo_caps), Inr (Some (mk_tunnel 2 10 4)))"
    by (simp add: lc_select_def new_least_conn_def demo_admission) (simp add: mk_tunnel_def)
  then show ?thesis using selected_backend_admissible [of "LeastConn (new_least_conn demo_caps)" demo_req]
    by (auto simp: new_least_conn_def demo_caps_def)
qed

theorem round_robin_visits_all_witness:
  "snd (select_many rr_select 2 (new_round_robin demo_caps) demo_req) =
     [Inr (Some (mk_tunnel 1 20 4)), Inr (Some (mk_tunnel 2 10 4))]"
  using round_robin_visits_all [of "new_round_robin demo_caps" demo_req "[mk_tunnel 1 20 4, mk_tunnel 2 10 4]"]
  by (simp add: new_round_robin_def demo_admission numeral_2_eq_2)

theorem least_connections_minimal_witness:
  "\<exists>t. lc_select (new_least_conn demo_caps) demo_req = (new_least_conn demo_caps, Inr (Some t)) \<and>
       lc_key t \<le> (4, 10, 2)"
  using least_connections_minimal [of "new_least_conn demo_caps" demo_req "[mk_tunnel 1 20 4, mk_tunnel 2 10 4]"]
  by (auto simp: new_least_conn_def demo_admission mk_tunnel_def lc_key_def)

definition demo_wrr :: weighted_rr where
  "demo_wrr = new_weighted_rr (fmupd 10 3 (fmupd 20 1 fmempty)) demo_caps"

theorem weighted_rr_fair_witness:
  "\<exists>wb' rs. select_many wrr_select 40 demo_wrr demo_req = (wb', rs) \<and> picks (mk_tunnel 1 20 4) rs \<le> 30"
proof -
  obtain wb' rs where r: "select_many wrr_select 40 demo_wrr demo_req = (wb', rs)" by (metis prod.exhaust)
  let ?h = "[mk_tunnel 1 20 4, mk_tunnel 2 10 4]"
  have w: "effective_weight (wrr_weights demo_wrr) 10 = 3" "effective_weight (wrr_weights demo_wrr) 20 = 1"
    by (simp_all add: demo_wrr_def new_weighted_rr_def positive_weights_def effective_weight_def)
  have "total_weight (wrr_weights demo_wrr) ?h = 4" by (simp add: total_weight_def mk_tunnel_def w)
  moreover have "tun_server (mk_tunnel 1 20 4) = 10" by (simp add: mk_tunnel_def)
  moreover have "admission (wrr_caps demo_wrr) (candidates (wrr_tunnels demo_wrr) demo_req) = Inr ?h"
    by (simp add: demo_wrr_def new_weighted_rr_def demo_admission)
  moreover have "distinct (map tun_server ?h)" by (simp add: mk_tunnel_def)
  moreover have "wrr_current demo_wrr = fmempty" by (simp add: demo_wrr_def new_weighted_rr_def)
  ultimately show ?thesis
    using weighted_rr_fair [of demo_wrr demo_req ?h 40 wb' rs "mk_tunnel 1 20 4"] r w by auto
qed

theorem nil_candidate_stops_selection_witness:
  "snd (select_backend (LeastConn (new_least_conn demo_caps)) (demo_req\<lparr>rq_tunnels := None # rq_tunnels demo_req\<rparr>)) =
     Inl NilDereference"
proof (rule nil_candidate_stops_selection)
  show "filter_healthy (candidates (balancer_tunnels (LeastConn (new_least_conn demo_caps)))
      (demo_req\<lparr>rq_tunnels := None # rq_tunnels demo_req\<rparr>))
      (max_peers_per_backend (balancer_caps (LeastConn (new_least_conn demo_caps)))) \<noteq> []"
    by (simp add: candidates_def new_least_conn_def demo_caps_def demo_req_def usable_def mk_tunnel_def)
qed (simp_all add: candidates_def new_least_conn_def demo_caps_def)

end
