(* ===== verification/Sticky.thy ===== *)
theory Sticky
  imports Balancers
begin

text \<open>
  Session affinity and failover (\<^verbatim>\<open>internal/vpn/loadbalancer/sticky.go\<close>) over any backend selector.
  The clock is an argument. The failover runs in phases with the mutex released in between: what
  other goroutines do to the affinity maps meanwhile is the argument \<open>env\<close>. The database is an
  argument too: the answer of the session query (\<open>None\<close> when it fails) and the outcome of the n-th
  row write.
\<close>

section \<open>State\<close>

record affinity =
  aff_tunnel :: int
  aff_last_seen :: time

type_synonym affinities = "(string, affinity) fmap"

record 'b sticky =
  base :: 'b
  st_caps :: capacity_config
  affinity_ttl :: duration
  user_affinity :: affinities
  peer_affinity :: affinities
  skip_counter :: int
  has_db :: bool

definition default_affinity_ttl :: duration where "default_affinity_ttl = 30 * 60 * second"

definition new_sticky :: "bool \<Rightarrow> 'b \<Rightarrow> capacity_config \<Rightarrow> 'b sticky" where
  "new_sticky db b caps =
     \<lparr>base = b, st_caps = caps,
      affinity_ttl = (if caps_affinity_ttl caps \<le> 0 then default_affinity_ttl else caps_affinity_ttl caps),
      user_affinity = fmempty, peer_affinity = fmempty, skip_counter = 0, has_db = db\<rparr>"

definition expired :: "duration \<Rightarrow> time \<Rightarrow> affinity \<Rightarrow> bool" where
  "expired ttl now a \<longleftrightarrow> ttl < time_sub now (aff_last_seen a)"

section \<open>Assignment\<close>

definition lookup_affinity :: "duration \<Rightarrow> time \<Rightarrow> string \<Rightarrow> affinities \<Rightarrow> affinities \<times> int option" where
  "lookup_affinity ttl now key m =
     (if key = [] then (m, None)
      else case fmlookup m key of
        None \<Rightarrow> (m, None)
      | Some a \<Rightarrow> if expired ttl now a then (fmdrop key m, None) else (m, Some (aff_tunnel a)))"

definition viable :: "backend_tunnel \<Rightarrow> bool" where
  "viable t \<longleftrightarrow> equal_fold (tun_status t) status_active \<or> equal_fold (tun_status t) status_handshake_blocked"

definition sticky_match :: "int \<Rightarrow> int \<Rightarrow> backend_tunnel \<Rightarrow> bool" where
  "sticky_match target maxPeers t \<longleftrightarrow>
     tun_id t = target \<and> tun_enabled t \<and> viable t \<and> (maxPeers \<le> 0 \<or> tun_conns t < maxPeers)"

fun sticky_scan :: "int \<Rightarrow> int \<Rightarrow> tunnels \<Rightarrow> lb_result" where
  "sticky_scan target maxPeers [] = Inr None"
| "sticky_scan target maxPeers (None # ts) = Inl NilDereference"
| "sticky_scan target maxPeers (Some t # ts) =
     (if sticky_match target maxPeers t then Inr (Some t) else sticky_scan target maxPeers ts)"

definition record_affinity :: "routing_request \<Rightarrow> int \<Rightarrow> time \<Rightarrow> 'b sticky \<Rightarrow> 'b sticky" where
  "record_affinity rq tid now sm =
     (let a = \<lparr>aff_tunnel = tid, aff_last_seen = now\<rparr>
      in sm\<lparr>peer_affinity := (if rq_peer rq \<noteq> [] then fmupd (rq_peer rq) a (peer_affinity sm) else peer_affinity sm),
            user_affinity := (if rq_user rq \<noteq> [] then fmupd (rq_user rq) a (user_affinity sm) else user_affinity sm)\<rparr>)"

type_synonym 'b selector = "'b \<Rightarrow> routing_request \<Rightarrow> 'b \<times> lb_result"

definition get_or_assign ::
    "'b selector \<Rightarrow> time \<Rightarrow> routing_request option \<Rightarrow> 'b sticky \<Rightarrow> 'b sticky \<times> (lb_error + backend_tunnel \<times> bool)" where
  "get_or_assign sel now rq0 sm =
     (case rq0 of
        None \<Rightarrow> (sm, Inl NilRequest)
      | Some rq \<Rightarrow>
          (case lookup_affinity (affinity_ttl sm) now (rq_peer rq) (peer_affinity sm) of
             (pa, peerTarget) \<Rightarrow>
               (case (if peerTarget = None then lookup_affinity (affinity_ttl sm) now (rq_user rq) (user_affinity sm)
                      else (user_affinity sm, None)) of
                  (ua, userTarget) \<Rightarrow>
                    let sm1 = sm\<lparr>peer_affinity := pa, user_affinity := ua\<rparr>;
                        target = (case peerTarget of Some t \<Rightarrow> Some t | None \<Rightarrow> userTarget)
                    in case (case target of None \<Rightarrow> Inr None
                               | Some tid \<Rightarrow> sticky_scan tid (max_peers_per_backend (st_caps sm)) (rq_tunnels rq)) of
                         Inl e \<Rightarrow> (sm1, Inl e)
                       | Inr (Some t) \<Rightarrow> (record_affinity rq (the target) now sm1, Inr (t, False))
                       | Inr None \<Rightarrow>
                           (case sel (base sm1) rq of
                              (b', Inl e) \<Rightarrow> (sm1\<lparr>base := b'\<rparr>, Inl e)
                            | (b', Inr None) \<Rightarrow> (sm1\<lparr>base := b'\<rparr>, Inl NilDereference)
                            | (b', Inr (Some t)) \<Rightarrow>
                                (record_affinity rq (tun_id t) now (sm1\<lparr>base := b'\<rparr>), Inr (t, True))))))"

definition assign_affinity :: "time \<Rightarrow> string \<Rightarrow> int \<Rightarrow> 'b sticky \<Rightarrow> 'b sticky" where
  "assign_affinity now userID tid sm =
     (if userID = [] then sm
      else sm\<lparr>user_affinity := fmupd userID \<lparr>aff_tunnel = tid, aff_last_seen = now\<rparr> (user_affinity sm)\<rparr>)"

definition assign_peer_affinity :: "time \<Rightarrow> string \<Rightarrow> int \<Rightarrow> 'b sticky \<Rightarrow> 'b sticky" where
  "assign_peer_affinity now peerKey tid sm =
     (if peerKey = [] then sm
      else sm\<lparr>peer_affinity := fmupd peerKey \<lparr>aff_tunnel = tid, aff_last_seen = now\<rparr> (peer_affinity sm)\<rparr>)"

definition clear_affinity :: "string \<Rightarrow> 'b sticky \<Rightarrow> 'b sticky" where
  "clear_affinity userID sm = (if userID = [] then sm else sm\<lparr>user_affinity := fmdrop userID (user_affinity sm)\<rparr>)"

definition clear_peer_affinity :: "string \<Rightarrow> 'b sticky \<Rightarrow> 'b sticky" where
  "clear_peer_affinity peerKey sm = (if peerKey = [] then sm else sm\<lparr>peer_affinity := fmdrop peerKey (peer_affinity sm)\<rparr>)"

definition get_affinity :: "time \<Rightarrow> string \<Rightarrow> 'b sticky \<Rightarrow> 'b sticky \<times> int option" where
  "get_affinity now userID sm =
     (case fmlookup (user_affinity sm) userID of
        None \<Rightarrow> (sm, None)
      | Some a \<Rightarrow> if expired (affinity_ttl sm) now a
                 then (sm\<lparr>user_affinity := fmdrop userID (user_affinity sm)\<rparr>, None)
                 else (sm, Some (aff_tunnel a)))"

definition get_peer_affinity :: "time \<Rightarrow> string \<Rightarrow> 'b sticky \<Rightarrow> 'b sticky \<times> int option" where
  "get_peer_affinity now peerKey sm =
     (case fmlookup (peer_affinity sm) peerKey of
        None \<Rightarrow> (sm, None)
      | Some a \<Rightarrow> if expired (affinity_ttl sm) now a
                 then (sm\<lparr>peer_affinity := fmdrop peerKey (peer_affinity sm)\<rparr>, None)
                 else (sm, Some (aff_tunnel a)))"

definition unexpired_affinities :: "duration \<Rightarrow> time \<Rightarrow> affinities \<Rightarrow> affinities" where
  "unexpired_affinities ttl now m =
     fmfilter (\<lambda>k. case fmlookup m k of Some a \<Rightarrow> \<not> expired ttl now a | None \<Rightarrow> False) m"

definition prune_expired :: "time \<Rightarrow> 'b sticky \<Rightarrow> 'b sticky \<times> int" where
  "prune_expired now sm =
     (let ua = unexpired_affinities (affinity_ttl sm) now (user_affinity sm);
          pa = unexpired_affinities (affinity_ttl sm) now (peer_affinity sm)
      in (sm\<lparr>user_affinity := ua, peer_affinity := pa\<rparr>,
          (int (go_len (user_affinity sm)) - int (go_len ua)) + (int (go_len (peer_affinity sm)) - int (go_len pa))))"

definition affinity_count :: "'b sticky \<Rightarrow> nat \<times> nat" where
  "affinity_count sm = (go_len (user_affinity sm), go_len (peer_affinity sm))"

section \<open>Failover\<close>

datatype skip_reason = SelectionFailed lb_error | PersistFailed

record migration =
  mig_peer :: string
  mig_user :: string
  mig_backend :: int

record skipped_peer =
  skp_peer :: string
  skp_user :: string
  skp_reason :: skip_reason

record failover_result =
  fo_migrations :: "migration list"
  fo_skipped :: "skipped_peer list"

record failover_snapshot =
  degraded_users :: "string list"
  expired_users :: "string fset"
  degraded_peers :: "string list"
  expired_peers :: "string fset"

definition on_backend :: "int \<Rightarrow> affinities \<Rightarrow> (affinity \<Rightarrow> bool) \<Rightarrow> string fset" where
  "on_backend tid m P = ffilter (\<lambda>k. case fmlookup m k of Some a \<Rightarrow> aff_tunnel a = tid \<and> P a | None \<Rightarrow> False) (fmdom m)"

definition snapshot_failover_targets ::
    "time \<Rightarrow> int \<Rightarrow> tunnels \<Rightarrow> 'b sticky \<Rightarrow> lb_error + (backend_tunnel list \<times> failover_snapshot)" where
  "snapshot_failover_targets now degraded avail sm =
     (let healthy = filter_healthy avail (max_peers_per_backend (st_caps sm));
          old = expired (affinity_ttl sm) now
      in if healthy = [] then Inl NoActiveBackends
         else Inr (healthy,
           \<lparr>degraded_users = sorted_list_of_fset (on_backend degraded (user_affinity sm) (\<lambda>a. \<not> old a)),
            expired_users = on_backend degraded (user_affinity sm) old,
            degraded_peers = sorted_list_of_fset (on_backend degraded (peer_affinity sm) (\<lambda>a. \<not> old a)),
            expired_peers = on_backend degraded (peer_affinity sm) old\<rparr>))"

text \<open>The computation phase threads the base balancer and collects moves and skips.\<close>

record peer_move =
  mv_peer :: string
  mv_user :: string
  mv_new :: int

record 'b plan =
  pl_base :: 'b
  pl_seen :: "string list"
  pl_skipped :: "skipped_peer list"
  pl_moves :: "peer_move list"

definition plan_skip :: "string \<Rightarrow> string \<Rightarrow> lb_error \<Rightarrow> 'b plan \<Rightarrow> 'b plan" where
  "plan_skip peer user e p =
     p\<lparr>pl_seen := peer # pl_seen p,
       pl_skipped := pl_skipped p @ [\<lparr>skp_peer = peer, skp_user = user, skp_reason = SelectionFailed e\<rparr>]\<rparr>"

definition move_request :: "string \<Rightarrow> string \<Rightarrow> backend_tunnel list \<Rightarrow> routing_request" where
  "move_request user peer healthy = \<lparr>rq_user = user, rq_peer = peer, rq_client_ip = [], rq_tunnels = map Some healthy\<rparr>"

fun plan_peers :: "'b selector \<Rightarrow> backend_tunnel list \<Rightarrow> (string \<Rightarrow> string) \<Rightarrow> string list \<Rightarrow> 'b plan \<Rightarrow> 'b plan option" where
  "plan_peers sel healthy userOf [] p = Some p"
| "plan_peers sel healthy userOf (k # ks) p =
     (case sel (pl_base p) (move_request (userOf k) k healthy) of
        (b', Inl e) \<Rightarrow> plan_peers sel healthy userOf ks (plan_skip k (userOf k) e (p\<lparr>pl_base := b'\<rparr>))
      | (b', Inr None) \<Rightarrow> None
      | (b', Inr (Some t)) \<Rightarrow>
          plan_peers sel healthy userOf ks
            (p\<lparr>pl_base := b', pl_moves := pl_moves p @ [\<lparr>mv_peer = k, mv_user = userOf k, mv_new = tun_id t\<rparr>]\<rparr>))"

definition move_by_peer :: "peer_move list \<Rightarrow> string \<Rightarrow> int option" where
  "move_by_peer moves k = map_option mv_new (find (\<lambda>m. mv_peer m = k) (rev moves))"

text \<open>\<open>planDBSessionMoves\<close>: rows on the degraded backend get the peer's move or a selection of their own.\<close>

fun plan_rows :: "'b selector \<Rightarrow> backend_tunnel list \<Rightarrow> int \<Rightarrow> peer_move list \<Rightarrow> vpn_session list \<Rightarrow> 'b plan \<Rightarrow>
    (vpn_session \<times> int) list \<Rightarrow> ('b plan \<times> (vpn_session \<times> int) list) option" where
  "plan_rows sel healthy degraded moves [] p dm = Some (p, dm)"
| "plan_rows sel healthy degraded moves (s # ss) p dm =
     (if sess_backend s \<noteq> degraded then plan_rows sel healthy degraded moves ss p dm
      else if sess_peer s \<in> set (pl_seen p) then plan_rows sel healthy degraded moves ss p dm
      else case move_by_peer moves (sess_peer s) of
        Some newID \<Rightarrow> plan_rows sel healthy degraded moves ss p (dm @ [(s, newID)])
      | None \<Rightarrow>
          (case sel (pl_base p) (move_request (sess_user s) (sess_peer s) healthy) of
             (b', Inl e) \<Rightarrow>
               plan_rows sel healthy degraded moves ss (plan_skip (sess_peer s) (sess_user s) e (p\<lparr>pl_base := b'\<rparr>)) dm
           | (b', Inr None) \<Rightarrow> None
           | (b', Inr (Some t)) \<Rightarrow>
               plan_rows sel healthy degraded moves ss (p\<lparr>pl_base := b'\<rparr>) (dm @ [(s, tun_id t)])))"

definition drop_still_on :: "int \<Rightarrow> (string \<Rightarrow> bool) \<Rightarrow> affinities \<Rightarrow> affinities" where
  "drop_still_on degraded P m =
     fmfilter (\<lambda>k. case fmlookup m k of Some a \<Rightarrow> \<not> (P k \<and> aff_tunnel a = degraded) | None \<Rightarrow> False) m"

definition apply_move :: "time \<Rightarrow> int \<Rightarrow> peer_move \<Rightarrow> affinities \<Rightarrow> affinities" where
  "apply_move now degraded mv m =
     (case fmlookup m (mv_peer mv) of
        None \<Rightarrow> fmupd (mv_peer mv) \<lparr>aff_tunnel = mv_new mv, aff_last_seen = now\<rparr> m
      | Some a \<Rightarrow>
          if aff_tunnel a = degraded \<or> aff_tunnel a = 0
          then fmupd (mv_peer mv) \<lparr>aff_tunnel = mv_new mv, aff_last_seen = now\<rparr> m else m)"

definition apply_failover_moves ::
    "time \<Rightarrow> int \<Rightarrow> failover_snapshot \<Rightarrow> peer_move list \<Rightarrow> 'b sticky \<Rightarrow> 'b sticky \<times> migration list" where
  "apply_failover_moves now degraded snap moves sm =
     (let ua = drop_still_on degraded (\<lambda>k. k \<in> set (degraded_users snap))
                 (drop_still_on degraded (\<lambda>k. k |\<in>| expired_users snap) (user_affinity sm));
          pa = drop_still_on degraded (\<lambda>k. k |\<in>| expired_peers snap) (peer_affinity sm)
      in (sm\<lparr>user_affinity := ua, peer_affinity := fold (apply_move now degraded) moves pa\<rparr>,
          map (\<lambda>mv. \<lparr>mig_peer = mv_peer mv, mig_user = mv_user mv, mig_backend = mv_new mv\<rparr>) moves))"

text \<open>\<open>persistSession\<close>: one retry. The counter numbers the row writes.\<close>

definition persist_session :: "bool \<Rightarrow> (nat \<Rightarrow> bool) \<Rightarrow> nat \<Rightarrow> nat \<times> bool" where
  "persist_session db write n =
     (if \<not> db then (n, True) else if write n then (n + 1, True) else (n + 2, write (n + 1)))"

fun persist_rows :: "bool \<Rightarrow> (nat \<Rightarrow> bool) \<Rightarrow> nat \<Rightarrow> (vpn_session \<times> int) list \<Rightarrow> skipped_peer list \<Rightarrow> skipped_peer list" where
  "persist_rows db write n [] skipped = skipped"
| "persist_rows db write n ((s, newID) # dm) skipped =
     (case persist_session db write n of
        (n', ok) \<Rightarrow>
          persist_rows db write n' dm
            (if ok then skipped
             else skipped @ [\<lparr>skp_peer = sess_peer s, skp_user = sess_user s, skp_reason = PersistFailed\<rparr>]))"

definition persist_failover_moves ::
    "bool \<Rightarrow> (nat \<Rightarrow> bool) \<Rightarrow> (vpn_session \<times> int) list \<Rightarrow> failover_result \<Rightarrow> failover_result" where
  "persist_failover_moves db write dm res =
     (let failures = persist_rows db write 0 dm [];
          failed = skp_peer ` set failures;
          migrated = mig_peer ` set (fo_migrations res);
          extra = map (\<lambda>(s, newID). \<lparr>mig_peer = sess_peer s, mig_user = sess_user s, mig_backend = newID\<rparr>)
                    (filter (\<lambda>(s, newID). sess_peer s \<notin> failed \<and> sess_peer s \<notin> migrated) dm)
      in res\<lparr>fo_skipped := fo_skipped res @ failures, fo_migrations := fo_migrations res @ extra\<rparr>)"

definition source_family :: "string list \<Rightarrow> string" where
  "source_family sourceProto =
     (case sourceProto of [] \<Rightarrow> ''awg'' | p # _ \<Rightarrow> if p \<noteq> [] then normalize_tunnel_protocol p else ''awg'')"

definition user_of_peer :: "vpn_session list \<Rightarrow> string \<Rightarrow> string" where
  "user_of_peer ss k = (case find (\<lambda>s. sess_peer s = k) (rev ss) of Some s \<Rightarrow> sess_user s | None \<Rightarrow> [])"

text \<open>
  \<open>HandleFailover\<close>. The two instants are the clock readings of the snapshot and of the apply phase;
  \<open>rows\<close> is the answer of \<open>GetActiveVPNSessions\<close>; \<open>env\<close> is the interference between the phases.
\<close>

definition handle_failover ::
    "'b selector \<Rightarrow> time \<Rightarrow> time \<Rightarrow> vpn_session list option \<Rightarrow> (nat \<Rightarrow> bool) \<Rightarrow>
     (affinities \<times> affinities \<Rightarrow> affinities \<times> affinities) \<Rightarrow> int \<Rightarrow> tunnels \<Rightarrow> string list \<Rightarrow> 'b sticky \<Rightarrow>
     'b sticky \<times> (lb_error + failover_result)" where
  "handle_failover sel now1 now2 rows write env degraded avail sourceProto sm =
     (if \<exists>t \<in> set avail. case t of None \<Rightarrow> False
           | Some b \<Rightarrow> tun_id b = degraded \<and> equal_fold (tun_status b) status_handshake_blocked
      then (sm, Inr \<lparr>fo_migrations = [], fo_skipped = []\<rparr>)
      else
        let filtered = filter_tunnels_by_protocol avail (source_family sourceProto)
        in if filtered = [] then (sm, Inl NoActiveBackends)
           else case snapshot_failover_targets now1 degraded filtered sm of
             Inl e \<Rightarrow> (sm, Inl e)
           | Inr (healthy, snap) \<Rightarrow>
               let active = (if has_db sm then (case rows of None \<Rightarrow> [] | Some ss \<Rightarrow> ss) else []);
                   p0 = \<lparr>pl_base = base sm, pl_seen = [], pl_skipped = [], pl_moves = []\<rparr>
               in case plan_peers sel healthy (user_of_peer active) (degraded_peers snap) p0 of
                    None \<Rightarrow> (sm, Inl NilDereference)
                  | Some p1 \<Rightarrow>
                      (case plan_rows sel healthy degraded (pl_moves p1) active p1 [] of
                         None \<Rightarrow> (sm, Inl NilDereference)
                       | Some (p2, dm) \<Rightarrow>
                           let maps = env (user_affinity sm, peer_affinity sm);
                               sm1 = sm\<lparr>user_affinity := fst maps, peer_affinity := snd maps, base := pl_base p2\<rparr>;
                               (sm2, migs) = apply_failover_moves now2 degraded snap (pl_moves p1) sm1;
                               res = persist_failover_moves (has_db sm) write dm
                                       \<lparr>fo_migrations = migs, fo_skipped = pl_skipped p2\<rparr>
                           in (sm2\<lparr>skip_counter := skip_counter sm2 + int (length (fo_skipped res))\<rparr>,
                               Inr (res\<lparr>fo_migrations := sort_key mig_peer (fo_migrations res)\<rparr>))))"

section \<open>Planning over any selector\<close>

definition plan_ok :: "backend_tunnel list \<Rightarrow> 'b plan \<Rightarrow> bool" where
  "plan_ok healthy p \<longleftrightarrow>
     (\<forall>mv \<in> set (pl_moves p). \<exists>t \<in> set healthy. mv_new mv = tun_id t) \<and>
     set (pl_seen p) = skp_peer ` set (pl_skipped p)"

lemma plan_ok_start: "plan_ok h \<lparr>pl_base = b, pl_seen = [], pl_skipped = [], pl_moves = []\<rparr>"
  by (simp add: plan_ok_def)

lemma plan_ok_skip: "plan_ok h p \<Longrightarrow> plan_ok h (plan_skip k u e (p\<lparr>pl_base := b\<rparr>))"
  by (simp add: plan_ok_def plan_skip_def)

context backend_selector
begin

lemma sel_healthy:
  assumes "sel s (move_request u k healthy) = (s', Inr (Some t))" "healthy \<noteq> []"
  shows "t \<in> set healthy"
  using sel_member [OF assms(1)] assms(2) by (auto simp: filter_healthy_iff candidates_def move_request_def)

lemma plan_peers_spec:
  assumes "plan_peers sel healthy userOf ks p = Some p'" "plan_ok healthy p" "healthy \<noteq> []"
  shows "plan_ok healthy p' \<and>
         mv_peer ` set (pl_moves p') \<union> set (pl_seen p') = mv_peer ` set (pl_moves p) \<union> set (pl_seen p) \<union> set ks"
  using assms
proof (induction ks arbitrary: p)
  case (Cons k ks)
  obtain b' r where sel: "sel (pl_base p) (move_request (userOf k) k healthy) = (b', r)" by (metis prod.exhaust)
  show ?case
  proof (cases r)
    case (Inl e)
    have "plan_ok healthy (plan_skip k (userOf k) e (p\<lparr>pl_base := b'\<rparr>))" using Cons.prems(2) by (rule plan_ok_skip)
    then show ?thesis using Cons.IH [OF _ _ Cons.prems(3)] Cons.prems(1) sel Inl by (simp add: plan_skip_def)
  next
    case (Inr q)
    then obtain t where q: "q = Some t" using Cons.prems(1) sel by (cases q) simp_all
    let ?p = "p\<lparr>pl_base := b', pl_moves := pl_moves p @ [\<lparr>mv_peer = k, mv_user = userOf k, mv_new = tun_id t\<rparr>]\<rparr>"
    have "t \<in> set healthy" using sel_healthy sel Inr q Cons.prems(3) by blast
    then have "plan_ok healthy ?p" using Cons.prems(2) by (auto simp: plan_ok_def)
    then show ?thesis using Cons.IH [of ?p] Cons.prems(1,3) sel Inr q by auto
  qed
qed simp

lemma plan_rows_spec:
  assumes "plan_rows sel healthy degraded moves ss p dm = Some (p', dm')" "plan_ok healthy p" "healthy \<noteq> []"
    and "\<forall>mv \<in> set moves. \<exists>t \<in> set healthy. mv_new mv = tun_id t"
    and "\<forall>(s, n) \<in> set dm. \<exists>t \<in> set healthy. n = tun_id t"
  shows "plan_ok healthy p' \<and> pl_moves p' = pl_moves p \<and> set (pl_seen p) \<subseteq> set (pl_seen p') \<and>
         set dm \<subseteq> set dm' \<and> (\<forall>(s, n) \<in> set dm'. \<exists>t \<in> set healthy. n = tun_id t) \<and>
         (\<forall>s \<in> set ss. sess_backend s = degraded \<longrightarrow> sess_peer s \<in> set (pl_seen p') \<or> s \<in> fst ` set dm')"
  using assms
proof (induction ss arbitrary: p dm)
  case (Cons s ss)
  show ?case
  proof (cases "sess_backend s \<noteq> degraded \<or> sess_peer s \<in> set (pl_seen p)")
    case True
    then have "plan_rows sel healthy degraded moves ss p dm = Some (p', dm')" using Cons.prems(1) by (auto split: if_splits)
    from Cons.IH [OF this Cons.prems(2-5)] show ?thesis using True by auto
  next
    case False
    show ?thesis
    proof (cases "move_by_peer moves (sess_peer s)")
      case (Some newID)
      then obtain mv where "mv \<in> set moves" "mv_new mv = newID"
        by (auto simp: move_by_peer_def dest: find_Some_iff2)
      then have dm: "\<forall>(s, n) \<in> set (dm @ [(s, newID)]). \<exists>t \<in> set healthy. n = tun_id t"
        using Cons.prems(4,5) by auto
      have "plan_rows sel healthy degraded moves ss p (dm @ [(s, newID)]) = Some (p', dm')"
        using Cons.prems(1) False Some by simp
      from Cons.IH [OF this Cons.prems(2-4) dm] show ?thesis by force
    next
      case None
      obtain b' r where sel: "sel (pl_base p) (move_request (sess_user s) (sess_peer s) healthy) = (b', r)"
        by (metis prod.exhaust)
      show ?thesis
      proof (cases r)
        case (Inl e)
        let ?p = "plan_skip (sess_peer s) (sess_user s) e (p\<lparr>pl_base := b'\<rparr>)"
        have "plan_rows sel healthy degraded moves ss ?p dm = Some (p', dm')"
          using Cons.prems(1) False None sel Inl by simp
        from Cons.IH [OF this plan_ok_skip [OF Cons.prems(2)] Cons.prems(3-5)]
        show ?thesis by (auto simp: plan_skip_def)
      next
        case (Inr q)
        then obtain t where q: "q = Some t" using Cons.prems(1) False None sel by (cases q) simp_all
        have t: "t \<in> set healthy" using sel_healthy sel Inr q Cons.prems(3) by blast
        have run: "plan_rows sel healthy degraded moves ss (p\<lparr>pl_base := b'\<rparr>) (dm @ [(s, tun_id t)]) = Some (p', dm')"
          using Cons.prems(1) False None sel Inr q by simp
        have ok: "plan_ok healthy (p\<lparr>pl_base := b'\<rparr>)" using Cons.prems(2) by (simp add: plan_ok_def)
        have dm: "\<forall>(s, n) \<in> set (dm @ [(s, tun_id t)]). \<exists>t \<in> set healthy. n = tun_id t"
          using Cons.prems(5) t by auto
        have "pl_moves (p\<lparr>pl_base := b'\<rparr>) = pl_moves p" "pl_seen (p\<lparr>pl_base := b'\<rparr>) = pl_seen p" by simp_all
        note IH = Cons.IH [OF run ok Cons.prems(3,4) dm, unfolded this]
        then have sub: "set (dm @ [(s, tun_id t)]) \<subseteq> set dm'" by (elim conjE)
        have "s \<in> fst ` set dm'" using sub by (intro image_eqI [of s fst "(s, tun_id t)"]) simp_all
        moreover have "set dm \<subseteq> set dm'" using sub by simp
        ultimately show ?thesis using IH by simp
      qed
    qed
  qed
qed auto

end

section \<open>Applying and persisting\<close>

lemma persist_rows_append: "persist_rows db write n dm sk = sk @ persist_rows db write n dm []"
proof (induction dm arbitrary: n sk)
  case (Cons x dm)
  obtain s newID where x: "x = (s, newID)" by (metis prod.exhaust)
  obtain n' ok where ok: "persist_session db write n = (n', ok)" by (metis prod.exhaust)
  let ?f = "\<lparr>skp_peer = sess_peer s, skp_user = sess_user s, skp_reason = PersistFailed\<rparr>"
  show ?case
  proof (cases ok)
    case True
    show ?thesis unfolding x using ok True Cons.IH [of n' sk] by simp
  next
    case False
    have "persist_rows db write n' dm (sk @ [?f]) = sk @ [?f] @ persist_rows db write n' dm []"
      using Cons.IH [of n' "sk @ [?f]"] by simp
    moreover have "persist_rows db write n' dm [?f] = [?f] @ persist_rows db write n' dm []"
      by (rule Cons.IH)
    ultimately show ?thesis unfolding x using ok False by simp
  qed
qed simp

lemma drop_still_on_lookup:
  "fmlookup (drop_still_on d P m) k =
     (case fmlookup m k of None \<Rightarrow> None | Some a \<Rightarrow> if P k \<and> aff_tunnel a = d then None else Some a)"
  by (auto simp: drop_still_on_def split: option.split)

lemma apply_move_other: "mv_peer mv \<noteq> k \<Longrightarrow> fmlookup (apply_move now d mv m) k = fmlookup m k"
  by (auto simp: apply_move_def split: option.split)

lemma apply_moves_keep:
  assumes "fmlookup m k = Some a" "aff_tunnel a \<noteq> d" "aff_tunnel a \<noteq> 0"
  shows "fmlookup (fold (apply_move now d) mvs m) k = Some a"
  using assms
proof (induction mvs arbitrary: m)
  case (Cons mv mvs)
  have "fmlookup (apply_move now d mv m) k = Some a"
  proof (cases "mv_peer mv = k")
    case True
    then show ?thesis using Cons.prems by (simp add: apply_move_def)
  next
    case False
    then show ?thesis using Cons.prems by (simp add: apply_move_other)
  qed
  then show ?case using Cons by simp
qed simp

lemma apply_moves_result:
  assumes "\<forall>mv \<in> set mvs. mv_new mv \<noteq> d"
    and "fmlookup (fold (apply_move now d) mvs m) k = Some a" "aff_tunnel a = d"
  shows "fmlookup m k = Some a \<and> k \<notin> mv_peer ` set mvs"
  using assms
proof (induction mvs arbitrary: m)
  case (Cons mv mvs)
  then have 1: "fmlookup (apply_move now d mv m) k = Some a" "k \<notin> mv_peer ` set mvs" by auto
  show ?case
  proof (cases "mv_peer mv = k")
    case True
    then show ?thesis using 1 Cons.prems(1,3) by (auto simp: apply_move_def split: option.splits if_splits)
  next
    case False
    then show ?thesis using 1 by (auto simp: apply_move_other)
  qed
qed simp

lemma on_backend_iff:
  "k |\<in>| on_backend tid m P \<longleftrightarrow> (\<exists>a. fmlookup m k = Some a \<and> aff_tunnel a = tid \<and> P a)"
  by (auto simp: on_backend_def fmlookup_dom_iff split: option.splits)

lemma set_sorted_fset [simp]: "set (sorted_list_of_fset A) = fset A"
  by (simp add: sorted_list_of_fset.rep_eq)

definition not_blocked :: "int \<Rightarrow> tunnels \<Rightarrow> bool" where
  "not_blocked degraded avail \<longleftrightarrow>
     (\<forall>b. Some b \<in> set avail \<and> tun_id b = degraded \<longrightarrow> \<not> equal_fold (tun_status b) status_handshake_blocked)"

definition active_rows :: "'b sticky \<Rightarrow> vpn_session list option \<Rightarrow> vpn_session list" where
  "active_rows sm rows = (if has_db sm then (case rows of None \<Rightarrow> [] | Some ss \<Rightarrow> ss) else [])"

text \<open>What a completed failover went through.\<close>

lemma handle_failover_runs:
  assumes "handle_failover sel now1 now2 rows write env d avail proto sm = (sm', Inr res)" "not_blocked d avail"
  obtains healthy snap p1 p2 dm where
    "healthy = filter_healthy (filter_tunnels_by_protocol avail (source_family proto)) (max_peers_per_backend (st_caps sm))"
    "healthy \<noteq> []" "snapshot_failover_targets now1 d (filter_tunnels_by_protocol avail (source_family proto)) sm = Inr (healthy, snap)"
    "plan_peers sel healthy (user_of_peer (active_rows sm rows)) (degraded_peers snap)
       \<lparr>pl_base = base sm, pl_seen = [], pl_skipped = [], pl_moves = []\<rparr> = Some p1"
    "plan_rows sel healthy d (pl_moves p1) (active_rows sm rows) p1 [] = Some (p2, dm)"
    "mset (fo_migrations res) =
       mset (fo_migrations (persist_failover_moves (has_db sm) write dm
         \<lparr>fo_migrations = map (\<lambda>mv. \<lparr>mig_peer = mv_peer mv, mig_user = mv_user mv, mig_backend = mv_new mv\<rparr>) (pl_moves p1),
          fo_skipped = pl_skipped p2\<rparr>))"
    "fo_skipped res = pl_skipped p2 @ persist_rows (has_db sm) write 0 dm []"
    "skip_counter sm' = skip_counter sm + int (length (fo_skipped res))"
    "peer_affinity sm' = fold (apply_move now2 d) (pl_moves p1)
       (drop_still_on d (\<lambda>k. k |\<in>| expired_peers snap) (snd (env (user_affinity sm, peer_affinity sm))))"
proof -
  let ?f = "filter_tunnels_by_protocol avail (source_family proto)"
  let ?p0 = "\<lparr>pl_base = base sm, pl_seen = [], pl_skipped = [], pl_moves = []\<rparr>"
  have nb: "\<not> (\<exists>t \<in> set avail. case t of None \<Rightarrow> False
           | Some b \<Rightarrow> tun_id b = d \<and> equal_fold (tun_status b) status_handshake_blocked)"
    using assms(2) by (auto simp: not_blocked_def split: option.splits)
  have run: "(if ?f = [] then (sm, Inl NoActiveBackends)
      else case snapshot_failover_targets now1 d ?f sm of
             Inl e \<Rightarrow> (sm, Inl e)
           | Inr (healthy, snap) \<Rightarrow>
               (case plan_peers sel healthy (user_of_peer (active_rows sm rows)) (degraded_peers snap) ?p0 of
                    None \<Rightarrow> (sm, Inl NilDereference)
                  | Some p1 \<Rightarrow>
                      (case plan_rows sel healthy d (pl_moves p1) (active_rows sm rows) p1 [] of
                         None \<Rightarrow> (sm, Inl NilDereference)
                       | Some (p2, dm) \<Rightarrow>
                           let maps = env (user_affinity sm, peer_affinity sm);
                               sm1 = sm\<lparr>user_affinity := fst maps, peer_affinity := snd maps, base := pl_base p2\<rparr>;
                               (sm2, migs) = apply_failover_moves now2 d snap (pl_moves p1) sm1;
                               res = persist_failover_moves (has_db sm) write dm
                                       \<lparr>fo_migrations = migs, fo_skipped = pl_skipped p2\<rparr>
                           in (sm2\<lparr>skip_counter := skip_counter sm2 + int (length (fo_skipped res))\<rparr>,
                               Inr (res\<lparr>fo_migrations := sort_key mig_peer (fo_migrations res)\<rparr>))))) = (sm', Inr res)"
    using assms(1) nb unfolding handle_failover_def active_rows_def by (simp only: Let_def if_False)
  obtain healthy snap where sn: "snapshot_failover_targets now1 d ?f sm = Inr (healthy, snap)"
    using run by (auto split: if_splits sum.splits)
  then have h: "healthy = filter_healthy ?f (max_peers_per_backend (st_caps sm))" "healthy \<noteq> []"
    by (auto simp: snapshot_failover_targets_def Let_def split: if_splits)
  obtain p1 where p1: "plan_peers sel healthy (user_of_peer (active_rows sm rows)) (degraded_peers snap) ?p0 = Some p1"
    using run sn by (auto split: if_splits option.splits)
  obtain p2 dm where p2: "plan_rows sel healthy d (pl_moves p1) (active_rows sm rows) p1 [] = Some (p2, dm)"
    using run sn p1 by (auto split: if_splits option.splits)
  note R = run [unfolded sn p1 p2 sum.case option.case prod.case Let_def apply_failover_moves_def persist_failover_moves_def]
  show ?thesis
    by (rule that [OF h sn p1 p2]) (use R in \<open>auto simp: persist_failover_moves_def Let_def split: if_splits\<close>)
qed

section \<open>What a failover achieves\<close>

lemma persist_result:
  "fo_migrations (persist_failover_moves db write dm res0) =
     fo_migrations res0 @ map (\<lambda>(s, newID). \<lparr>mig_peer = sess_peer s, mig_user = sess_user s, mig_backend = newID\<rparr>)
       (filter (\<lambda>(s, newID). sess_peer s \<notin> skp_peer ` set (persist_rows db write 0 dm []) \<and>
                            sess_peer s \<notin> mig_peer ` set (fo_migrations res0)) dm)"
  by (simp add: persist_failover_moves_def Let_def)

lemma healthy_iff:
  "t \<in> set (filter_healthy (filter_tunnels_by_protocol avail fam) m) \<longleftrightarrow>
     Some t \<in> set avail \<and> usable m t \<and> normalize_tunnel_protocol (tun_protocol t) = normalize_tunnel_protocol fam"
  by (auto simp: filter_healthy_iff filter_tunnels_by_protocol_def)

text \<open>One fact about a completed run, from which the properties below are read off.\<close>

lemma failover_run:
  assumes "handle_failover select_backend now1 now2 rows write env d avail proto sm = (sm', Inr res)" "not_blocked d avail"
  obtains snap :: failover_snapshot and p1 :: "balancer plan" where
    "\<forall>m \<in> set (fo_migrations res). \<exists>t. Some t \<in> set avail \<and> usable (max_peers_per_backend (st_caps sm)) t \<and>
       normalize_tunnel_protocol (tun_protocol t) = normalize_tunnel_protocol (source_family proto) \<and> mig_backend m = tun_id t"
    "\<forall>mv \<in> set (pl_moves p1). \<exists>t. Some t \<in> set avail \<and> usable (max_peers_per_backend (st_caps sm)) t \<and>
       normalize_tunnel_protocol (tun_protocol t) = normalize_tunnel_protocol (source_family proto) \<and> mv_new mv = tun_id t"
    "\<forall>k a. fmlookup (peer_affinity sm) k = Some a \<and> aff_tunnel a = d \<and> \<not> expired (affinity_ttl sm) now1 a \<longrightarrow>
       k \<in> mv_peer ` set (pl_moves p1) \<or> k \<in> skp_peer ` set (fo_skipped res)"
    "mv_peer ` set (pl_moves p1) \<subseteq> mig_peer ` set (fo_migrations res)"
    "\<forall>s \<in> set (active_rows sm rows). sess_backend s = d \<longrightarrow>
       sess_peer s \<in> mig_peer ` set (fo_migrations res) \<union> skp_peer ` set (fo_skipped res)"
    "skip_counter sm' = skip_counter sm + int (length (fo_skipped res))"
    "\<forall>k. k |\<in>| expired_peers snap \<longleftrightarrow>
       (\<exists>a. fmlookup (peer_affinity sm) k = Some a \<and> aff_tunnel a = d \<and> expired (affinity_ttl sm) now1 a)"
    "peer_affinity sm' = fold (apply_move now2 d) (pl_moves p1)
       (drop_still_on d (\<lambda>k. k |\<in>| expired_peers snap) (snd (env (user_affinity sm, peer_affinity sm))))"
proof -
  obtain healthy snap p1 p2 dm where r:
    "healthy = filter_healthy (filter_tunnels_by_protocol avail (source_family proto)) (max_peers_per_backend (st_caps sm))"
    "healthy \<noteq> []" "snapshot_failover_targets now1 d (filter_tunnels_by_protocol avail (source_family proto)) sm = Inr (healthy, snap)"
    "plan_peers select_backend healthy (user_of_peer (active_rows sm rows)) (degraded_peers snap)
       \<lparr>pl_base = base sm, pl_seen = [], pl_skipped = [], pl_moves = []\<rparr> = Some p1"
    "plan_rows select_backend healthy d (pl_moves p1) (active_rows sm rows) p1 [] = Some (p2, dm)"
    and mig: "mset (fo_migrations res) =
       mset (fo_migrations (persist_failover_moves (has_db sm) write dm
         \<lparr>fo_migrations = map (\<lambda>mv. \<lparr>mig_peer = mv_peer mv, mig_user = mv_user mv, mig_backend = mv_new mv\<rparr>) (pl_moves p1),
          fo_skipped = pl_skipped p2\<rparr>))"
    and fin: "fo_skipped res = pl_skipped p2 @ persist_rows (has_db sm) write 0 dm []"
    "skip_counter sm' = skip_counter sm + int (length (fo_skipped res))"
    "peer_affinity sm' = fold (apply_move now2 d) (pl_moves p1)
       (drop_still_on d (\<lambda>k. k |\<in>| expired_peers snap) (snd (env (user_affinity sm, peer_affinity sm))))"
    by (rule handle_failover_runs [OF assms])
  have P: "plan_ok healthy p1 \<and> mv_peer ` set (pl_moves p1) \<union> set (pl_seen p1) = set (degraded_peers snap)"
    using any.plan_peers_spec [OF r(4) _ r(2)] by (simp add: plan_ok_start)
  then have mv1: "\<forall>mv \<in> set (pl_moves p1). \<exists>t \<in> set healthy. mv_new mv = tun_id t" by (simp add: plan_ok_def)
  have Q: "plan_ok healthy p2" "set (pl_seen p1) \<subseteq> set (pl_seen p2)"
      "\<forall>(s, n) \<in> set dm. \<exists>t \<in> set healthy. n = tun_id t"
      "\<forall>s \<in> set (active_rows sm rows). sess_backend s = d \<longrightarrow> sess_peer s \<in> set (pl_seen p2) \<or> s \<in> fst ` set dm"
    using any.plan_rows_spec [OF r(5) _ r(2) mv1] P by auto
  have seen: "set (pl_seen p2) \<subseteq> skp_peer ` set (fo_skipped res)" using Q(1) fin(1) by (auto simp: plan_ok_def)
  have snapd: "set (degraded_peers snap) = fset (on_backend d (peer_affinity sm) (\<lambda>a. \<not> expired (affinity_ttl sm) now1 a))"
      "expired_peers snap = on_backend d (peer_affinity sm) (expired (affinity_ttl sm) now1)"
    using r(3) by (auto simp: snapshot_failover_targets_def Let_def split: if_splits)
  have ms: "set (fo_migrations res) = set (fo_migrations (persist_failover_moves (has_db sm) write dm
         \<lparr>fo_migrations = map (\<lambda>mv. \<lparr>mig_peer = mv_peer mv, mig_user = mv_user mv, mig_backend = mv_new mv\<rparr>) (pl_moves p1),
          fo_skipped = pl_skipped p2\<rparr>))"
    using mig by (rule mset_eq_setD)
  have h: "t \<in> set healthy \<Longrightarrow> Some t \<in> set avail \<and> usable (max_peers_per_backend (st_caps sm)) t \<and>
       normalize_tunnel_protocol (tun_protocol t) = normalize_tunnel_protocol (source_family proto)" for t
    unfolding r(1) healthy_iff .
  have moved: "mv_peer ` set (pl_moves p1) \<subseteq> mig_peer ` set (fo_migrations res)"
    unfolding ms persist_result by (simp add: image_Un image_image)
  show ?thesis
  proof (rule that [of p1 snap])
    show "\<forall>m \<in> set (fo_migrations res). \<exists>t. Some t \<in> set avail \<and> usable (max_peers_per_backend (st_caps sm)) t \<and>
       normalize_tunnel_protocol (tun_protocol t) = normalize_tunnel_protocol (source_family proto) \<and> mig_backend m = tun_id t"
    proof
      fix m assume "m \<in> set (fo_migrations res)"
      then have "\<exists>t \<in> set healthy. mig_backend m = tun_id t"
        unfolding ms persist_result using mv1 Q(3) by auto
      then show "\<exists>t. Some t \<in> set avail \<and> usable (max_peers_per_backend (st_caps sm)) t \<and>
        normalize_tunnel_protocol (tun_protocol t) = normalize_tunnel_protocol (source_family proto) \<and> mig_backend m = tun_id t"
        using h by blast
    qed
    show "\<forall>mv \<in> set (pl_moves p1). \<exists>t. Some t \<in> set avail \<and> usable (max_peers_per_backend (st_caps sm)) t \<and>
       normalize_tunnel_protocol (tun_protocol t) = normalize_tunnel_protocol (source_family proto) \<and> mv_new mv = tun_id t"
      using mv1 h by blast
    show "\<forall>k a. fmlookup (peer_affinity sm) k = Some a \<and> aff_tunnel a = d \<and> \<not> expired (affinity_ttl sm) now1 a \<longrightarrow>
       k \<in> mv_peer ` set (pl_moves p1) \<or> k \<in> skp_peer ` set (fo_skipped res)"
    proof (intro allI impI)
      fix k a assume "fmlookup (peer_affinity sm) k = Some a \<and> aff_tunnel a = d \<and> \<not> expired (affinity_ttl sm) now1 a"
      then have "k |\<in>| on_backend d (peer_affinity sm) (\<lambda>a. \<not> expired (affinity_ttl sm) now1 a)"
        by (auto simp: on_backend_iff)
      then have "k \<in> set (degraded_peers snap)" by (simp add: snapd(1))
      then show "k \<in> mv_peer ` set (pl_moves p1) \<or> k \<in> skp_peer ` set (fo_skipped res)"
        using P Q(2) seen by blast
    qed
    show "mv_peer ` set (pl_moves p1) \<subseteq> mig_peer ` set (fo_migrations res)" by (rule moved)
    show "\<forall>s \<in> set (active_rows sm rows). sess_backend s = d \<longrightarrow>
       sess_peer s \<in> mig_peer ` set (fo_migrations res) \<union> skp_peer ` set (fo_skipped res)"
    proof (intro ballI impI)
      fix s assume s: "s \<in> set (active_rows sm rows)" "sess_backend s = d"
      show "sess_peer s \<in> mig_peer ` set (fo_migrations res) \<union> skp_peer ` set (fo_skipped res)"
      proof (cases "sess_peer s \<in> set (pl_seen p2)")
        case True
        then show ?thesis using seen by blast
      next
        case False
        then obtain n where n: "(s, n) \<in> set dm" using Q(4) s by force
        show ?thesis
        proof (cases "sess_peer s \<in> skp_peer ` set (fo_skipped res) \<or> sess_peer s \<in> mv_peer ` set (pl_moves p1)")
          case True
          then show ?thesis using moved by blast
        next
          case False
          then have "\<lparr>mig_peer = sess_peer s, mig_user = sess_user s, mig_backend = n\<rparr> \<in> set (fo_migrations res)"
            unfolding ms persist_result using n fin(1) by (force simp: image_iff)
          then show ?thesis by (metis UnI1 image_eqI migration.select_convs(1))
        qed
      qed
    qed
    show "\<forall>k. k |\<in>| expired_peers snap \<longleftrightarrow>
       (\<exists>a. fmlookup (peer_affinity sm) k = Some a \<and> aff_tunnel a = d \<and> expired (affinity_ttl sm) now1 a)"
      by (simp add: snapd(2) on_backend_iff)
  qed (use fin in simp_all)
qed

section \<open>Properties\<close>

text \<open>
  C35: a peer sticks to its backend: after a successful assignment, any later request of that peer
  within the affinity lifetime, to a list in which some tunnel with that identifier is enabled,
  still active or only handshake-blocked, and below its limit, gets that backend again, without
  asking the balancer.
\<close>

theorem peer_sticks_to_backend:
  assumes "get_or_assign sel now (Some rq) sm = (sm1, Inr (t, fresh))" "rq_peer rq \<noteq> []"
    and "rq_peer rq' = rq_peer rq" "time_sub now' now \<le> affinity_ttl sm" "None \<notin> set (rq_tunnels rq')"
    and "Some u \<in> set (rq_tunnels rq')" "sticky_match (tun_id t) (max_peers_per_backend (st_caps sm)) u"
  shows "\<exists>v. snd (get_or_assign sel now' (Some rq') sm1) = Inr (v, False) \<and> tun_id v = tun_id t \<and>
             base (fst (get_or_assign sel now' (Some rq') sm1)) = base sm1"
proof -
  have scan: "\<exists>v. sticky_scan tid m ts = Inr (Some v) \<and> sticky_match tid m v"
    if "None \<notin> set ts" "Some u \<in> set ts" "sticky_match tid m u" for tid m ts
    using that by (induction tid m ts rule: sticky_scan.induct) auto
  have tid: "sticky_scan tid m ts = Inr (Some v) \<Longrightarrow> tun_id v = tid" for tid m ts v
    by (induction tid m ts rule: sticky_scan.induct) (auto simp: sticky_match_def split: if_splits)
  have keep: "fmlookup (peer_affinity sm1) (rq_peer rq) = Some \<lparr>aff_tunnel = tun_id t, aff_last_seen = now\<rparr> \<and>
      affinity_ttl sm1 = affinity_ttl sm \<and> st_caps sm1 = st_caps sm"
    using assms(1,2) tid unfolding get_or_assign_def
    by (auto simp: record_affinity_def Let_def split: prod.splits sum.splits option.splits if_splits)
  obtain v where v: "sticky_scan (tun_id t) (max_peers_per_backend (st_caps sm)) (rq_tunnels rq') = Inr (Some v)"
    using scan [OF assms(5-7)] by blast
  have "lookup_affinity (affinity_ttl sm1) now' (rq_peer rq') (peer_affinity sm1) = (peer_affinity sm1, Some (tun_id t))"
    using keep assms(2-4) by (simp add: lookup_affinity_def expired_def)
  then show ?thesis using v tid [OF v] keep
    by (simp add: get_or_assign_def Let_def record_affinity_def)
qed


text \<open>
  A failover only moves sessions to offered backends that are enabled, active, below the
  per-backend limit and of the source's protocol family.
\<close>

theorem failover_targets_admissible:
  assumes "handle_failover select_backend now1 now2 rows write env d avail proto sm = (sm', Inr res)"
    and "not_blocked d avail" "m \<in> set (fo_migrations res)"
  shows "\<exists>t. Some t \<in> set avail \<and> usable (max_peers_per_backend (st_caps sm)) t \<and>
             normalize_tunnel_protocol (tun_protocol t) = normalize_tunnel_protocol (source_family proto) \<and>
             mig_backend m = tun_id t"
  by (rule failover_run [OF assms(1,2)]) (use assms(3) in blast)

text \<open>
  The apply phase respects concurrent reassignment and clears the rest: a peer that moved to
  another backend while the mutex was free keeps that newer assignment; and if the degraded backend
  is not itself selectable, a peer that is on it afterwards was reported as skipped or was put on
  it by someone else in between.
\<close>

theorem failover_respects_reassignment:
  assumes "handle_failover select_backend now1 now2 rows write env d avail proto sm = (sm', Inr res)"
    and "not_blocked d avail"
    and "\<forall>t. Some t \<in> set avail \<longrightarrow> usable (max_peers_per_backend (st_caps sm)) t \<longrightarrow> tun_id t \<noteq> d"
  shows "(\<forall>k a. fmlookup (snd (env (user_affinity sm, peer_affinity sm))) k = Some a \<and> aff_tunnel a \<noteq> d \<and>
            aff_tunnel a \<noteq> 0 \<longrightarrow> fmlookup (peer_affinity sm') k = Some a) \<and>
         (\<forall>k a. fmlookup (peer_affinity sm') k = Some a \<and> aff_tunnel a = d \<longrightarrow>
            k \<in> skp_peer ` set (fo_skipped res) \<or>
            (\<nexists>b. fmlookup (peer_affinity sm) k = Some b \<and> aff_tunnel b = d))"
proof (rule failover_run [OF assms(1,2)])
  fix snap and p1 :: "balancer plan"
  let ?m = "drop_still_on d (\<lambda>k. k |\<in>| expired_peers snap) (snd (env (user_affinity sm, peer_affinity sm)))"
  assume mv: "\<forall>mv \<in> set (pl_moves p1). \<exists>t. Some t \<in> set avail \<and> usable (max_peers_per_backend (st_caps sm)) t \<and>
       normalize_tunnel_protocol (tun_protocol t) = normalize_tunnel_protocol (source_family proto) \<and> mv_new mv = tun_id t"
    and cover: "\<forall>k a. fmlookup (peer_affinity sm) k = Some a \<and> aff_tunnel a = d \<and> \<not> expired (affinity_ttl sm) now1 a \<longrightarrow>
       k \<in> mv_peer ` set (pl_moves p1) \<or> k \<in> skp_peer ` set (fo_skipped res)"
    and ex: "\<forall>k. k |\<in>| expired_peers snap \<longleftrightarrow>
       (\<exists>a. fmlookup (peer_affinity sm) k = Some a \<and> aff_tunnel a = d \<and> expired (affinity_ttl sm) now1 a)"
    and fin: "peer_affinity sm' = fold (apply_move now2 d) (pl_moves p1) ?m"
  have new: "\<forall>mv \<in> set (pl_moves p1). mv_new mv \<noteq> d"
  proof
    fix x assume "x \<in> set (pl_moves p1)"
    then obtain t where "Some t \<in> set avail" "usable (max_peers_per_backend (st_caps sm)) t" "mv_new x = tun_id t"
      using mv by blast
    then show "mv_new x \<noteq> d" using assms(3) by simp
  qed
  have 1: "fmlookup (peer_affinity sm') k = Some a"
    if "fmlookup (snd (env (user_affinity sm, peer_affinity sm))) k = Some a" "aff_tunnel a \<noteq> d" "aff_tunnel a \<noteq> 0" for k a
  proof -
    have "fmlookup ?m k = Some a" unfolding drop_still_on_lookup that(1) using that(2) by simp
    then show ?thesis unfolding fin by (rule apply_moves_keep) (rule that(2,3))+
  qed
  have 2: "k \<in> skp_peer ` set (fo_skipped res)"
    if a: "fmlookup (peer_affinity sm') k = Some a" "aff_tunnel a = d"
      and b: "fmlookup (peer_affinity sm) k = Some b" "aff_tunnel b = d" for k a b
  proof -
    have k: "fmlookup ?m k = Some a" "k \<notin> mv_peer ` set (pl_moves p1)"
      using apply_moves_result [OF new a(1) [unfolded fin] a(2)] by blast+
    then have "\<not> k |\<in>| expired_peers snap" using a(2) by (auto simp: drop_still_on_lookup split: option.splits if_splits)
    then have "\<not> expired (affinity_ttl sm) now1 b" using ex b by blast
    then show ?thesis using cover b k(2) by blast
  qed
  show ?thesis using 1 2 by blast
qed

section \<open>Witnesses\<close>

definition demo_sticky :: "balancer sticky" where
  "demo_sticky = assign_peer_affinity 0 ''alice'' 9 (new_sticky True (LeastConn (new_least_conn demo_caps)) demo_caps)"

definition demo_row :: vpn_session where
  "demo_row = \<lparr>sess_id = ''i'', sess_user = ''u'', sess_backend = 9, sess_peer = ''bob'', sess_ip = ''10.0.0.2'',
     sess_connected_at = 0, sess_last_seen = 0, sess_rx = 0, sess_tx = 0, sess_status = ''connected'',
     sess_connection_name = ''c'', sess_username = [], sess_connection_id = [], sess_generation = 0, sess_admitted_via = [], sess_timed_out_at = 0\<rparr>"

definition demo_failover :: "balancer sticky \<times> (lb_error + failover_result)" where
  "demo_failover = handle_failover select_backend 1 2 (Some [demo_row]) (\<lambda>_. False) id 9
     [None, Some (mk_tunnel 1 20 4), Some (mk_tunnel 2 10 4)] [] demo_sticky"

definition demo_result :: failover_result where
  "demo_result = \<lparr>fo_migrations = [\<lparr>mig_peer = ''alice'', mig_user = [], mig_backend = 2\<rparr>],
     fo_skipped = [\<lparr>skp_peer = ''bob'', skp_user = ''u'', skp_reason = PersistFailed\<rparr>]\<rparr>"

lemma demo_failover_result: "snd demo_failover = Inr demo_result"
  by code_simp

lemma demo_failover_runs: "demo_failover = (fst demo_failover, Inr demo_result)"
  by (simp add: demo_failover_result prod_eq_iff)


theorem failover_targets_admissible_witness:
  "\<exists>t. Some t \<in> set [None, Some (mk_tunnel 1 20 4), Some (mk_tunnel 2 10 4)] \<and> tun_id t = 2 \<and> usable 50 t"
proof -
  have run: "handle_failover select_backend 1 2 (Some [demo_row]) (\<lambda>_. False) id 9
     [None, Some (mk_tunnel 1 20 4), Some (mk_tunnel 2 10 4)] [] demo_sticky = (fst demo_failover, Inr demo_result)"
    using demo_failover_runs by (simp add: demo_failover_def)
  have nb: "not_blocked 9 [None, Some (mk_tunnel 1 20 4), Some (mk_tunnel 2 10 4)]"
    by (auto simp: not_blocked_def mk_tunnel_def)
  have c: "max_peers_per_backend (st_caps demo_sticky) = 50"
    by (simp add: demo_sticky_def assign_peer_affinity_def new_sticky_def demo_caps_def)
  have "\<lparr>mig_peer = ''alice'', mig_user = [], mig_backend = 2\<rparr> \<in> set (fo_migrations demo_result)"
    by (simp add: demo_result_def)
  from failover_targets_admissible [OF run nb this] show ?thesis by (auto simp: c)
qed

theorem failover_respects_reassignment_witness:
  "\<exists>sm' res. handle_failover select_backend 1 2 (Some []) (\<lambda>_. True)
     (\<lambda>(u, p). (u, fmupd ''alice'' \<lparr>aff_tunnel = 1, aff_last_seen = 2\<rparr> p)) 9
     [Some (mk_tunnel 1 20 4), Some (mk_tunnel 2 10 4)] [] demo_sticky = (sm', Inr res) \<and>
     fmlookup (peer_affinity sm') ''alice'' = Some \<lparr>aff_tunnel = 1, aff_last_seen = 2\<rparr>"
proof -
  let ?e = "\<lambda>(u, p). (u :: affinities, fmupd ''alice'' \<lparr>aff_tunnel = 1, aff_last_seen = 2\<rparr> (p :: affinities))"
  let ?av = "[Some (mk_tunnel 1 20 4), Some (mk_tunnel 2 10 4)]"
  let ?run = "handle_failover select_backend 1 2 (Some []) (\<lambda>_. True) ?e 9 ?av [] demo_sticky"
  have "snd ?run = Inr \<lparr>fo_migrations = [\<lparr>mig_peer = ''alice'', mig_user = [], mig_backend = 2\<rparr>], fo_skipped = []\<rparr>"
    by code_simp
  then obtain sm' where run: "?run = (sm', Inr \<lparr>fo_migrations = [\<lparr>mig_peer = ''alice'', mig_user = [], mig_backend = 2\<rparr>], fo_skipped = []\<rparr>)"
    by (metis prod.collapse)
  have nb: "not_blocked 9 ?av" by (auto simp: not_blocked_def mk_tunnel_def)
  have u: "\<forall>t. Some t \<in> set ?av \<longrightarrow> usable (max_peers_per_backend (st_caps demo_sticky)) t \<longrightarrow> tun_id t \<noteq> 9"
    by (auto simp: mk_tunnel_def)
  have "fmlookup (peer_affinity sm') ''alice'' = Some \<lparr>aff_tunnel = 1, aff_last_seen = 2\<rparr>"
    by (rule conjunct1 [OF failover_respects_reassignment [OF run nb u], rule_format]) simp
  then show ?thesis using run by blast
qed

theorem peer_sticks_to_backend_witness:
  "\<exists>sm1 v. get_or_assign select_backend 5 (Some (demo_req\<lparr>rq_peer := ''carol''\<rparr>)) demo_sticky = (sm1, Inr (mk_tunnel 2 10 4, True)) \<and>
     snd (get_or_assign select_backend 6 (Some (demo_req\<lparr>rq_peer := ''carol'', rq_tunnels := [Some (mk_tunnel 2 99 40)]\<rparr>)) sm1) =
       Inr (v, False) \<and> tun_id v = 2"
proof -
  let ?rq = "demo_req\<lparr>rq_peer := ''carol''\<rparr>"
  let ?rq' = "demo_req\<lparr>rq_peer := ''carol'', rq_tunnels := [Some (mk_tunnel 2 99 40)]\<rparr>"
  let ?run = "get_or_assign select_backend 5 (Some ?rq) demo_sticky"
  have "snd ?run = Inr (mk_tunnel 2 10 4, True)" by code_simp
  then have run: "?run = (fst ?run, Inr (mk_tunnel 2 10 4, True))" by (simp add: prod_eq_iff)
  have m: "sticky_match (tun_id (mk_tunnel 2 10 4)) (max_peers_per_backend (st_caps demo_sticky)) (mk_tunnel 2 99 40)"
    by code_simp
  have t: "time_sub 6 5 \<le> affinity_ttl demo_sticky" by code_simp
  have "\<exists>v. snd (get_or_assign select_backend 6 (Some ?rq') (fst ?run)) = Inr (v, False) \<and>
      tun_id v = tun_id (mk_tunnel 2 10 4) \<and>
      base (fst (get_or_assign select_backend 6 (Some ?rq') (fst ?run))) = base (fst ?run)"
    by (rule peer_sticks_to_backend [OF run _ _ t _ _ m]) (simp_all)
  then obtain v where v: "snd (get_or_assign select_backend 6 (Some ?rq') (fst ?run)) = Inr (v, False)"
    "tun_id v = 2" by (auto simp: mk_tunnel_def)
  show ?thesis by (intro exI conjI, rule run, rule v(1), rule v(2))
qed

end
