(* ===== verification/Ipam.thy ===== *)
theory Ipam
  imports Net_Addr
begin

text \<open>
  The address manager of \<^verbatim>\<open>internal/vpn/ipam/ipam.go\<close>: a pool of IPv4 addresses leased to peers
  by a moving cursor. The two Go maps \<open>allocated\<close> (peer to address) and \<open>reverse\<close> (rendered
  address to peer) are kept as two finite maps; the invariant says they are inverse to each other
  and stay inside the pool, and the pool bounds are 32-bit words, so that the wrap-around of the
  range computation is the code's.
\<close>

section \<open>State\<close>

datatype ipam_error =
    ErrSubnetExhausted
  | ErrInvalidSubnet
  | ErrIPAlreadyAllocated
  | ErrIPNotInSubnet
  | ErrPeerNotFoundInIPAM
  | ErrIPReserved
  | ErrSubnetTooSmall
  | ErrEmptyPeerKey

record ipam =
  cidr :: string
  ipNet :: "ipv4 \<times> ipv4"
  gatewayIP :: ipv4
  startIP :: ipv4
  endIP :: ipv4
  cursor :: ipv4
  allocated :: "(string, ipv4) fmap"
  reverse :: "(string, string) fmap"

definition new_ipam :: "string \<Rightarrow> ipam_error + ipam" where
  "new_ipam c =
     (case parse_cidr4 c of
        None \<Rightarrow> Inl ErrInvalidSubnet
      | Some (ip, n) \<Rightarrow>
          let m = netmask n;
              netInt = ip AND m;
              bcastInt = netInt OR NOT m
          in if bcastInt \<le> netInt + 2 then Inl ErrSubnetTooSmall
             else Inr \<lparr>cidr = c, ipNet = (netInt, m), gatewayIP = netInt + 1,
                       startIP = netInt + 2, endIP = bcastInt - 1, cursor = netInt + 2,
                       allocated = fmempty, reverse = fmempty\<rparr>)"

section \<open>Operations\<close>

definition total_available :: "ipam \<Rightarrow> nat" where
  "total_available i = unat (endIP i - startIP i + 1)"

definition advance_cursor :: "ipam \<Rightarrow> ipv4 \<Rightarrow> ipv4" where
  "advance_cursor i c = (if endIP i < c + 1 then startIP i else c + 1)"

text \<open>The search loop of \<open>Allocate\<close>, bounded by the number of steps left.\<close>

fun allocate_scan :: "nat \<Rightarrow> ipam \<Rightarrow> string \<Rightarrow> ipam \<times> (ipam_error + ipv4)" where
  "allocate_scan 0 i peerKey = (i, Inl ErrSubnetExhausted)"
| "allocate_scan (Suc steps) i peerKey =
     (let candidate = cursor i;
          i' = i\<lparr>cursor := advance_cursor i (cursor i)\<rparr>
      in if fmlookup (reverse i) (ip_string candidate) = None
         then (i'\<lparr>allocated := fmupd peerKey candidate (allocated i'),
                  reverse := fmupd (ip_string candidate) peerKey (reverse i')\<rparr>, Inr candidate)
         else allocate_scan steps i' peerKey)"

definition allocate :: "ipam \<Rightarrow> string \<Rightarrow> ipam \<times> (ipam_error + ipv4)" where
  "allocate i peerKey =
     (if peerKey = [] then (i, Inl ErrEmptyPeerKey)
      else case fmlookup (allocated i) peerKey of
        Some ip \<Rightarrow> (i, Inr ip)
      | None \<Rightarrow>
          if total_available i \<le> go_len (allocated i) then (i, Inl ErrSubnetExhausted)
          else allocate_scan (total_available i) i peerKey)"

definition reserve :: "ipam \<Rightarrow> net_ip \<Rightarrow> string \<Rightarrow> ipam \<times> (ipam_error + unit)" where
  "reserve i ip peerKey =
     (case to4 ip of
        None \<Rightarrow> (i, Inl ErrInvalidSubnet)
      | Some ipInt \<Rightarrow>
          if peerKey = [] then (i, Inl ErrEmptyPeerKey)
          else if ipInt < startIP i \<or> endIP i < ipInt
          then (i, Inl (if net_ip_equal ip (ipv4_bytes (gatewayIP i)) then ErrIPReserved else ErrIPNotInSubnet))
          else case fmlookup (reverse i) (ip_string ipInt) of
            Some existingPeer \<Rightarrow>
              (i, if existingPeer = peerKey then Inr () else Inl ErrIPAlreadyAllocated)
          | None \<Rightarrow>
              let r = (case fmlookup (allocated i) peerKey of
                         Some oldIP \<Rightarrow> fmdrop (ip_string oldIP) (reverse i)
                       | None \<Rightarrow> reverse i)
              in (i\<lparr>allocated := fmupd peerKey ipInt (allocated i),
                    reverse := fmupd (ip_string ipInt) peerKey r\<rparr>, Inr ()))"

definition release :: "ipam \<Rightarrow> string \<Rightarrow> ipam \<times> (ipam_error + unit)" where
  "release i peerKey =
     (case fmlookup (allocated i) peerKey of
        None \<Rightarrow> (i, Inl ErrPeerNotFoundInIPAM)
      | Some ip \<Rightarrow>
          (i\<lparr>allocated := fmdrop peerKey (allocated i),
             reverse := fmdrop (ip_string ip) (reverse i)\<rparr>, Inr ()))"

definition release_ip :: "ipam \<Rightarrow> net_ip \<Rightarrow> ipam \<times> (ipam_error + unit)" where
  "release_ip i ip =
     (case to4 ip of
        None \<Rightarrow> (i, Inl ErrInvalidSubnet)
      | Some a \<Rightarrow>
          (case fmlookup (reverse i) (ip_string a) of
             None \<Rightarrow> (i, Inl ErrPeerNotFoundInIPAM)
           | Some peerKey \<Rightarrow>
               (i\<lparr>reverse := fmdrop (ip_string a) (reverse i),
                  allocated := fmdrop peerKey (allocated i)\<rparr>, Inr ())))"

definition is_allocated :: "ipam \<Rightarrow> net_ip \<Rightarrow> bool" where
  "is_allocated i ip =
     (case to4 ip of None \<Rightarrow> False | Some a \<Rightarrow> fmlookup (reverse i) (ip_string a) \<noteq> None)"

definition allocated_count :: "ipam \<Rightarrow> nat" where
  "allocated_count i = go_len (allocated i)"

definition get_assigned_ip :: "ipam \<Rightarrow> string \<Rightarrow> ipv4 option" where
  "get_assigned_ip i peerKey = fmlookup (allocated i) peerKey"

section \<open>The invariant\<close>

definition in_pool :: "ipam \<Rightarrow> ipv4 \<Rightarrow> bool" where
  "in_pool i a \<longleftrightarrow> startIP i \<le> a \<and> a \<le> endIP i"

definition agree :: "(ipv4 \<Rightarrow> bool) \<Rightarrow> (string, ipv4) fmap \<Rightarrow> (string, string) fmap \<Rightarrow> bool" where
  "agree P A R \<longleftrightarrow>
     (\<forall>p a. fmlookup A p = Some a \<longrightarrow> fmlookup R (ip_string a) = Some p \<and> P a \<and> p \<noteq> []) \<and>
     (\<forall>s p. fmlookup R s = Some p \<longrightarrow> (\<exists>a. s = ip_string a \<and> fmlookup A p = Some a))"

definition ipam_inv :: "ipam \<Rightarrow> bool" where
  "ipam_inv i \<longleftrightarrow> in_pool i (cursor i) \<and> endIP i < - 1 \<and> agree (in_pool i) (allocated i) (reverse i)"

lemma agreeD:
  assumes "agree P A R"
  shows "fmlookup A p = Some a \<Longrightarrow> fmlookup R (ip_string a) = Some p"
    and "fmlookup A p = Some a \<Longrightarrow> P a"
    and "fmlookup A p = Some a \<Longrightarrow> p \<noteq> []"
    and "fmlookup R (ip_string a) = Some p \<Longrightarrow> fmlookup A p = Some a"
    and "fmlookup R s = Some p \<Longrightarrow> \<exists>a. s = ip_string a \<and> fmlookup A p = Some a"
  using assms unfolding agree_def by (blast, blast, blast, metis ip_string_inj, blast)

lemma agreeI:
  assumes "\<And>p a. fmlookup A p = Some a \<Longrightarrow> fmlookup R (ip_string a) = Some p \<and> P a \<and> p \<noteq> []"
    and "\<And>s p. fmlookup R s = Some p \<Longrightarrow> \<exists>a. s = ip_string a \<and> fmlookup A p = Some a"
  shows "agree P A R"
  using assms by (simp add: agree_def)

text \<open>Giving a free pool address to a peer without a lease keeps the two maps inverse.\<close>

lemma agree_add:
  assumes "agree P A R" "fmlookup A p = None" "fmlookup R (ip_string a) = None" "P a" "p \<noteq> []"
  shows "agree P (fmupd p a A) (fmupd (ip_string a) p R)"
proof (rule agreeI)
  fix q b assume "fmlookup (fmupd p a A) q = Some b"
  then show "fmlookup (fmupd (ip_string a) p R) (ip_string b) = Some q \<and> P b \<and> q \<noteq> []"
    using assms agreeD(1-3) [OF assms(1), of q b] by (auto split: if_splits)
next
  fix s q assume "fmlookup (fmupd (ip_string a) p R) s = Some q"
  then show "\<exists>b. s = ip_string b \<and> fmlookup (fmupd p a A) q = Some b"
    using assms agreeD(5) [OF assms(1), of s q] by (auto split: if_splits)
qed

lemma agree_drop:
  assumes "agree P A R" "fmlookup A p = Some a"
  shows "agree P (fmdrop p A) (fmdrop (ip_string a) R)"
proof (rule agreeI)
  fix q b assume "fmlookup (fmdrop p A) q = Some b"
  then show "fmlookup (fmdrop (ip_string a) R) (ip_string b) = Some q \<and> P b \<and> q \<noteq> []"
    using assms agreeD(1-3) [OF assms(1), of q b] agreeD(1) [OF assms(1), of p a] by (auto split: if_splits)
next
  fix s q assume "fmlookup (fmdrop (ip_string a) R) s = Some q"
  then show "\<exists>b. s = ip_string b \<and> fmlookup (fmdrop p A) q = Some b"
    using assms agreeD(5) [OF assms(1), of s q] by (auto split: if_splits)
qed

text \<open>
  \<open>Reserve\<close> deletes only the peer's old reverse entry before storing the new address: the same
  as dropping the old lease and adding the new one.
\<close>

lemma agree_move:
  assumes "agree P A R" "fmlookup A p = Some b" "fmlookup R (ip_string a) = None" "P a"
  shows "agree P (fmupd p a A) (fmupd (ip_string a) p (fmdrop (ip_string b) R))"
proof -
  have "agree P (fmupd p a (fmdrop p A)) (fmupd (ip_string a) p (fmdrop (ip_string b) R))"
    using agreeD(3) [OF assms(1,2)] assms by (intro agree_add agree_drop) simp_all
  moreover have "fmupd p a (fmdrop p A) = fmupd p a A" by (rule fmap_ext) simp
  ultimately show ?thesis by simp
qed

lemma in_pool_cong [simp]:
  "in_pool (i\<lparr>cursor := c\<rparr>) = in_pool i"
  "in_pool (i\<lparr>allocated := m\<rparr>) = in_pool i"
  "in_pool (i\<lparr>reverse := r\<rparr>) = in_pool i"
  by (auto simp: in_pool_def fun_eq_iff)

lemma word_less_succ: "(w::ipv4) < - 1 \<Longrightarrow> w < w + 1"
  by unat_arith

section \<open>The cursor visits the whole pool\<close>

definition pool_off :: "ipam \<Rightarrow> ipv4 \<Rightarrow> nat" where
  "pool_off i a = unat a - unat (startIP i)"

lemma advance_cursor_in_pool:
  assumes "in_pool i c" "endIP i < - 1"
  shows "in_pool i (advance_cursor i c)"
proof -
  have "c < - 1" using assms by (auto simp: in_pool_def)
  then have "c < c + 1" by (rule word_less_succ)
  then show ?thesis using assms by (auto simp: advance_cursor_def in_pool_def)
qed

lemma total_available_eq:
  assumes "in_pool i c" "endIP i < - 1"
  shows "total_available i = unat (endIP i) - unat (startIP i) + 1"
  using assms unfolding total_available_def in_pool_def by unat_arith

lemma pool_off_less:
  assumes "in_pool i a" "endIP i < - 1"
  shows "pool_off i a < total_available i"
  using assms by (auto simp: total_available_eq [OF assms] pool_off_def in_pool_def word_le_nat_alt)

lemma pool_off_inj: "in_pool i a \<Longrightarrow> in_pool i b \<Longrightarrow> pool_off i a = pool_off i b \<Longrightarrow> a = b"
  by (auto simp: pool_off_def in_pool_def word_le_nat_alt) (metis le_add_diff_inverse unsigned_word_eqI)

lemma pool_off_advance:
  assumes "in_pool i c" "endIP i < - 1"
  shows "pool_off i (advance_cursor i c) = Suc (pool_off i c) mod total_available i"
proof (cases "c = endIP i")
  case True
  then have "c < c + 1" using assms word_less_succ by metis
  then show ?thesis
    using True assms by (simp add: advance_cursor_def pool_off_def total_available_eq [OF assms])
next
  case False
  then have lt: "c < endIP i" using assms(1) by (auto simp: in_pool_def)
  then have s: "unat (c + 1) = Suc (unat c)" by unat_arith
  then have "\<not> endIP i < c + 1" using lt by unat_arith
  moreover have "Suc (pool_off i c) < total_available i"
    using lt assms by (auto simp: total_available_eq [OF assms] pool_off_def in_pool_def word_less_nat_alt word_le_nat_alt)
  moreover have "unat (startIP i) \<le> unat c" using assms(1) by (auto simp: in_pool_def word_le_nat_alt)
  ultimately show ?thesis by (simp add: advance_cursor_def pool_off_def s Suc_diff_le)
qed

lemma advance_pow:
  assumes "in_pool i c" "endIP i < - 1"
  shows "in_pool i ((advance_cursor i ^^ k) c) \<and>
         pool_off i ((advance_cursor i ^^ k) c) = (pool_off i c + k) mod total_available i"
proof (induction k)
  case 0
  show ?case using assms pool_off_less [OF assms] by simp
next
  case (Suc k)
  then show ?case
    using assms advance_cursor_in_pool pool_off_advance by (simp add: mod_Suc_eq)
qed

text \<open>Every address of the pool is reached from the cursor within one round.\<close>

lemma cursor_reaches:
  assumes "in_pool i c" "endIP i < - 1" "in_pool i a"
  shows "\<exists>k < total_available i. (advance_cursor i ^^ k) c = a"
proof -
  let ?T = "total_available i"
  define k where "k = (pool_off i a + (?T - pool_off i c)) mod ?T"
  have a: "pool_off i a < ?T" and c: "pool_off i c < ?T" using assms pool_off_less by auto
  have "(pool_off i c + k) mod ?T = (pool_off i c + (pool_off i a + (?T - pool_off i c))) mod ?T"
    by (simp add: k_def mod_add_right_eq)
  also have "\<dots> = (pool_off i a + ?T) mod ?T" using c by (simp add: algebra_simps)
  also have "\<dots> = pool_off i a" using a by simp
  finally have "pool_off i ((advance_cursor i ^^ k) c) = pool_off i a"
    using advance_pow [OF assms(1,2)] by simp
  then have "(advance_cursor i ^^ k) c = a"
    using advance_pow [OF assms(1,2)] assms(3) pool_off_inj by blast
  moreover have "k < ?T" using a by (simp add: k_def)
  ultimately show ?thesis by blast
qed

lemma card_pool:
  assumes "in_pool i c" "endIP i < - 1"
  shows "card {a. in_pool i a} = total_available i"
proof -
  have "pool_off i ` {a. in_pool i a} = {..<total_available i}"
  proof
    show "pool_off i ` {a. in_pool i a} \<subseteq> {..<total_available i}"
      using pool_off_less assms(2) by auto
    show "{..<total_available i} \<subseteq> pool_off i ` {a. in_pool i a}"
    proof
      fix n assume "n \<in> {..<total_available i}"
      then have "(pool_off i c + (n + (total_available i - pool_off i c))) mod total_available i = n"
        using pool_off_less [OF assms] by simp
      then show "n \<in> pool_off i ` {a. in_pool i a}"
        using advance_pow [OF assms, of "n + (total_available i - pool_off i c)"]
        by (metis imageI mem_Collect_eq)
    qed
  qed
  moreover have "inj_on (pool_off i) {a. in_pool i a}" using pool_off_inj by (auto intro: inj_onI)
  ultimately show ?thesis by (metis card_image card_lessThan)
qed

section \<open>Allocation\<close>

lemma scan_hit:
  assumes "0 < n" "fmlookup (reverse i) (ip_string (cursor i)) = None"
  shows "allocate_scan n i p =
    (i\<lparr>cursor := advance_cursor i (cursor i), allocated := fmupd p (cursor i) (allocated i),
       reverse := fmupd (ip_string (cursor i)) p (reverse i)\<rparr>, Inr (cursor i))"
  using assms by (cases n) (simp_all add: Let_def)

lemma allocate_first:
  "p \<noteq> [] \<Longrightarrow> allocated i = fmempty \<Longrightarrow> reverse i = fmempty \<Longrightarrow> 0 < total_available i \<Longrightarrow>
     snd (allocate i p) = Inr (cursor i)"
  by (simp add: allocate_def scan_hit)

lemma scan_frame:
  "allocate_scan n i p = (i', r) \<Longrightarrow>
     startIP i' = startIP i \<and> endIP i' = endIP i \<and> gatewayIP i' = gatewayIP i \<and> ipNet i' = ipNet i \<and> cidr i' = cidr i"
  by (induction n i p rule: allocate_scan.induct) (auto simp: Let_def split: if_splits)

lemma scan_failed:
  assumes "allocate_scan n i p = (i', Inl e)" "k < n"
  shows "fmlookup (reverse i) (ip_string ((advance_cursor i ^^ k) (cursor i))) \<noteq> None"
  using assms
proof (induction n arbitrary: i k)
  case 0
  then show ?case by simp
next
  case (Suc n)
  let ?j = "i\<lparr>cursor := advance_cursor i (cursor i)\<rparr>"
  have taken: "fmlookup (reverse i) (ip_string (cursor i)) \<noteq> None"
    and rec: "allocate_scan n ?j p = (i', Inl e)"
    using Suc.prems(1) by (auto simp: Let_def split: if_splits)
  show ?case
  proof (cases k)
    case 0
    then show ?thesis using taken by simp
  next
    case (Suc k')
    have "advance_cursor ?j = advance_cursor i" by (simp add: advance_cursor_def fun_eq_iff)
    then show ?thesis using Suc.IH [OF rec, of k'] Suc Suc.prems(2) by (simp add: funpow_Suc_right del: funpow.simps)
  qed
qed

lemma scan_success:
  assumes "allocate_scan n i p = (i', Inr a)" "ipam_inv i" "fmlookup (allocated i) p = None" "p \<noteq> []"
  shows "in_pool i a \<and> fmlookup (reverse i) (ip_string a) = None \<and>
         allocated i' = fmupd p a (allocated i) \<and> reverse i' = fmupd (ip_string a) p (reverse i) \<and> ipam_inv i'"
  using assms
proof (induction n i p rule: allocate_scan.induct)
  case (1 i p)
  then show ?case by simp
next
  case (2 n i p)
  have adv: "in_pool i (advance_cursor i (cursor i))"
    using "2.prems"(2) advance_cursor_in_pool by (auto simp: ipam_inv_def)
  show ?case
  proof (cases "fmlookup (reverse i) (ip_string (cursor i))")
    case None
    then show ?thesis using "2.prems" adv by (auto simp: Let_def ipam_inv_def intro!: agree_add)
  next
    case (Some q)
    then show ?thesis
      using "2.IH" [OF refl refl] "2.prems" adv by (auto simp: Let_def ipam_inv_def)
  qed
qed

lemma scan_finds_free:
  assumes inv: "ipam_inv i" and free: "go_len (allocated i) < total_available i"
  shows "\<exists>i' a. allocate_scan (total_available i) i p = (i', Inr a)"
proof (rule ccontr)
  assume "\<not> ?thesis"
  then obtain i' e where f: "allocate_scan (total_available i) i p = (i', Inl e)"
    by (metis prod.exhaust sum.exhaust)
  have c: "in_pool i (cursor i)" "endIP i < - 1" and ag: "agree (in_pool i) (allocated i) (reverse i)"
    using inv by (auto simp: ipam_inv_def)
  have "{a. in_pool i a} \<subseteq> (\<lambda>q. the (fmlookup (allocated i) q)) ` fset (fmdom (allocated i))"
  proof
    fix a assume "a \<in> {a. in_pool i a}"
    then have "in_pool i a" by simp
    then obtain k where k: "k < total_available i" "(advance_cursor i ^^ k) (cursor i) = a"
      using cursor_reaches c by blast
    then obtain q where "fmlookup (reverse i) (ip_string a) = Some q"
      using scan_failed [OF f k(1)] by auto
    then have "fmlookup (allocated i) q = Some a" using agreeD(4) [OF ag] by blast
    then show "a \<in> (\<lambda>q. the (fmlookup (allocated i) q)) ` fset (fmdom (allocated i))"
      by (metis fmdomI image_eqI option.sel)
  qed
  then have "card {a. in_pool i a} \<le> go_len (allocated i)"
    by (simp add: go_len_card) (meson card_image_le card_mono finite_fset finite_imageI le_trans)
  then show False using free card_pool [OF c] by simp
qed

lemma count_le_total:
  assumes "ipam_inv i"
  shows "go_len (allocated i) \<le> total_available i"
proof -
  have c: "in_pool i (cursor i)" "endIP i < - 1" and ag: "agree (in_pool i) (allocated i) (reverse i)"
    using assms by (auto simp: ipam_inv_def)
  have inj: "inj_on (\<lambda>q. the (fmlookup (allocated i) q)) (fset (fmdom (allocated i)))"
  proof (rule inj_onI)
    fix p q assume "p \<in> fset (fmdom (allocated i))" "q \<in> fset (fmdom (allocated i))"
      and e: "the (fmlookup (allocated i) p) = the (fmlookup (allocated i) q)"
    then obtain a b where ab: "fmlookup (allocated i) p = Some a" "fmlookup (allocated i) q = Some b"
      by (auto simp: fmlookup_dom_iff)
    then show "p = q" using e agreeD(1) [OF ag ab(1)] agreeD(1) [OF ag ab(2)] by simp
  qed
  have "(\<lambda>q. the (fmlookup (allocated i) q)) ` fset (fmdom (allocated i)) \<subseteq> {a. in_pool i a}"
    using agreeD(2) [OF ag] by (auto simp: fmlookup_dom_iff)
  then have "card (fset (fmdom (allocated i))) \<le> card {a. in_pool i a}"
    by (rule card_inj_on_le [OF inj]) simp
  then show ?thesis by (simp add: go_len_card card_pool [OF c])
qed

section \<open>Every operation keeps the invariant\<close>

lemma word_pred_bounds: "(x::ipv4) < y \<Longrightarrow> x \<le> y - 1 \<and> y - 1 < - 1"
proof -
  assume lt: "x < y"
  then have y: "y \<noteq> 0" by auto
  then have "unat (y - 1) = unat y - 1" by (rule unat_minus_one)
  then have "x \<le> y - 1" using lt by (simp add: word_le_nat_alt word_less_nat_alt)
  moreover
  have "y - 1 \<noteq> - 1" using y by simp
  then have "y - 1 < - 1" by (rule word_order.not_eq_extremum [THEN iffD1])
  ultimately show ?thesis by simp
qed

lemma new_ipam_inv [inv_intros]:
  assumes "new_ipam c = Inr i"
  shows "ipam_inv i"
proof -
  obtain ip n where "parse_cidr4 c = Some (ip, n)"
    using assms by (auto simp: new_ipam_def split: option.splits)
  then have i: "startIP i = (ip AND netmask n) + 2" "endIP i = ((ip AND netmask n) OR NOT (netmask n)) - 1"
      "cursor i = startIP i" "allocated i = fmempty" "reverse i = fmempty"
    and lt: "(ip AND netmask n) + 2 < ((ip AND netmask n) OR NOT (netmask n))"
    using assms by (auto simp: new_ipam_def Let_def split: if_splits)
  show ?thesis using word_pred_bounds [OF lt] by (simp add: ipam_inv_def in_pool_def i agree_def)
qed

lemma allocate_cases:
  assumes "ipam_inv i" "allocate i p = (i', r)"
  obtains (Empty) "p = []" "i' = i" "r = Inl ErrEmptyPeerKey"
  | (Held) a where "fmlookup (allocated i) p = Some a" "i' = i" "r = Inr a"
  | (Full) "p \<noteq> []" "fmlookup (allocated i) p = None" "go_len (allocated i) = total_available i" "i' = i"
      "r = Inl ErrSubnetExhausted"
  | (Fresh) a where "p \<noteq> []" "fmlookup (allocated i) p = None" "go_len (allocated i) < total_available i"
      "r = Inr a" "in_pool i a" "fmlookup (reverse i) (ip_string a) = None"
      "allocated i' = fmupd p a (allocated i)" "reverse i' = fmupd (ip_string a) p (reverse i)" "ipam_inv i'"
proof (cases "p = []")
  case True
  show ?thesis by (rule Empty) (use True assms(2) in \<open>simp_all add: allocate_def\<close>)
next
  case False
  show ?thesis
  proof (cases "fmlookup (allocated i) p")
    case (Some a)
    show ?thesis by (rule Held [OF Some]) (use Some False assms(2) in \<open>simp_all add: allocate_def\<close>)
  next
    case None
    show ?thesis
    proof (cases "go_len (allocated i) < total_available i")
      case True
      then obtain j a where "allocate_scan (total_available i) i p = (j, Inr a)"
        using scan_finds_free assms(1) by blast
      moreover from this have e: "i' = j" "r = Inr a" using assms(2) False None True by (auto simp: allocate_def)
      ultimately have "allocate_scan (total_available i) i p = (i', Inr a)" by simp
      note s = scan_success [OF this assms(1) None False]
      show ?thesis by (rule Fresh [OF False None True e(2)]) (use s in simp_all)
    next
      case F: False
      then have "go_len (allocated i) = total_available i" using count_le_total assms(1) by (simp add: le_antisym)
      then show ?thesis using F assms(2)
        by (intro Full [OF False None]) (simp_all add: allocate_def False None)
    qed
  qed
qed

lemma allocate_inv [inv_intros]: "ipam_inv i \<Longrightarrow> ipam_inv (fst (allocate i p))"
  by (cases "allocate i p") (auto elim: allocate_cases)

lemma in_pool_iff: "in_pool i a \<longleftrightarrow> \<not> (a < startIP i \<or> endIP i < a)"
  by (simp add: in_pool_def not_less)

lemma reserve_inv [inv_intros]:
  assumes "ipam_inv i"
  shows "ipam_inv (fst (reserve i ip p))"
proof (cases "to4 ip")
  case None
  then show ?thesis using assms by (simp add: reserve_def)
next
  case (Some a)
  have ag: "agree (in_pool i) (allocated i) (reverse i)" using assms by (simp add: ipam_inv_def)
  show ?thesis
  proof (cases "p \<noteq> [] \<and> in_pool i a \<and> fmlookup (reverse i) (ip_string a) = None")
    case False
    then have "fst (reserve i ip p) = i"
      by (auto simp: reserve_def Some in_pool_iff split: option.split)
    then show ?thesis using assms by simp
  next
    case True
    then show ?thesis
      using assms agree_add [OF ag _ _ _, of p a] agree_move [OF ag _ _ _, of p _ a]
      by (cases "fmlookup (allocated i) p") (simp_all add: reserve_def Some ipam_inv_def in_pool_iff Let_def)
  qed
qed

lemma release_inv [inv_intros]: "ipam_inv i \<Longrightarrow> ipam_inv (fst (release i p))"
  by (auto simp: release_def ipam_inv_def intro: agree_drop split: option.split)

lemma release_ip_inv [inv_intros]:
  assumes "ipam_inv i"
  shows "ipam_inv (fst (release_ip i ip))"
proof -
  have "agree (in_pool i) (fmdrop p (allocated i)) (fmdrop (ip_string a) (reverse i))"
    if "fmlookup (reverse i) (ip_string a) = Some p" for a p
    using assms that agreeD(4) by (auto simp: ipam_inv_def intro!: agree_drop)
  then show ?thesis using assms
    by (auto simp: release_ip_def ipam_inv_def split: option.split)
qed

section \<open>The lease interface\<close>

text \<open>
  What a client of a lease pool relies on: an acquired lease is the only change of the lease
  table, a failed request changes nothing, a dropped peer is free again, and no address is held
  by two peers.
\<close>

locale lease_pool =
  fixes inv :: "'s \<Rightarrow> bool"
    and lease :: "'s \<Rightarrow> string \<Rightarrow> ipv4 option"
    and acquire :: "'s \<Rightarrow> string \<Rightarrow> 's \<times> (ipam_error + ipv4)"
    and drop_lease :: "'s \<Rightarrow> string \<Rightarrow> 's"
  assumes inv_acquire: "inv s \<Longrightarrow> inv (fst (acquire s p))"
    and inv_drop: "inv s \<Longrightarrow> inv (drop_lease s p)"
    and lease_inj: "inv s \<Longrightarrow> lease s p = Some a \<Longrightarrow> lease s q = Some a \<Longrightarrow> p = q"
    and acquire_ok: "inv s \<Longrightarrow> acquire s p = (s', Inr a) \<Longrightarrow> lease s' = (lease s)(p \<mapsto> a)"
    and acquire_err: "inv s \<Longrightarrow> acquire s p = (s', Inl e) \<Longrightarrow> lease s' = lease s"
    and acquire_held: "inv s \<Longrightarrow> p \<noteq> [] \<Longrightarrow> lease s p = Some a \<Longrightarrow> acquire s p = (s, Inr a)"
    and drop_ok: "inv s \<Longrightarrow> lease (drop_lease s p) = (lease s)(p := None)"
begin

lemma acquired_unshared:
  assumes "inv s" "acquire s p = (s', Inr a)" "q \<noteq> p"
  shows "lease s q \<noteq> Some a"
proof
  assume "lease s q = Some a"
  then have "lease s' q = Some a" "lease s' p = Some a" using acquire_ok assms by auto
  moreover have "inv s'" using inv_acquire [OF assms(1), of p] assms(2) by simp
  ultimately show False using lease_inj assms(3) by blast
qed

lemma acquire_stable:
  assumes "inv s" "acquire s p = (s', Inr a)" "p \<noteq> []"
  shows "acquire s' p = (s', Inr a)"
proof -
  have "inv s'" using inv_acquire [OF assms(1), of p] assms(2) by simp
  then show ?thesis
    by (rule acquire_held [OF _ assms(3)]) (simp add: acquire_ok [OF assms(1,2)])
qed

lemma drop_frees:
  assumes "inv s" "acquire s p = (s', Inr a)"
  shows "lease (drop_lease s' p) q \<noteq> Some a"
proof -
  have i: "inv s'" using inv_acquire [OF assms(1), of p] assms(2) by simp
  show ?thesis using drop_ok [OF i] acquire_ok [OF assms] acquired_unshared [OF assms] by auto
qed

end

lemma release_lease: "get_assigned_ip (fst (release i p)) = (get_assigned_ip i)(p := None)"
  by (auto simp: release_def get_assigned_ip_def fun_eq_iff split: option.split)

interpretation pool: lease_pool ipam_inv get_assigned_ip allocate "\<lambda>i p. fst (release i p)"
proof unfold_locales
  show "ipam_inv i \<Longrightarrow> ipam_inv (fst (allocate i p))" for i p by (rule allocate_inv)
  show "ipam_inv i \<Longrightarrow> ipam_inv (fst (release i p))" for i p by (rule release_inv)
  show "p = q" if "ipam_inv i" "get_assigned_ip i p = Some a" "get_assigned_ip i q = Some a" for i p q a
  proof -
    have ag: "agree (in_pool i) (allocated i) (reverse i)" using that by (simp add: ipam_inv_def)
    show ?thesis using agreeD(1) [OF ag, of p a] agreeD(1) [OF ag, of q a] that by (simp add: get_assigned_ip_def)
  qed
  show "get_assigned_ip j = (get_assigned_ip i)(p \<mapsto> a)" if "ipam_inv i" "allocate i p = (j, Inr a)" for i j p a
    using that by (cases rule: allocate_cases) (auto simp: get_assigned_ip_def fun_eq_iff)
  show "get_assigned_ip j = get_assigned_ip i" if "ipam_inv i" "allocate i p = (j, Inl e)" for i j p e
    using that by (cases rule: allocate_cases) (auto simp: get_assigned_ip_def fun_eq_iff)
  show "ipam_inv i \<Longrightarrow> p \<noteq> [] \<Longrightarrow> get_assigned_ip i p = Some a \<Longrightarrow> allocate i p = (i, Inr a)" for i p a
    by (simp add: allocate_def get_assigned_ip_def)
  show "ipam_inv i \<Longrightarrow> get_assigned_ip (fst (release i p)) = (get_assigned_ip i)(p := None)" for i p
    by (rule release_lease)
qed

section \<open>Runs of the address manager\<close>

inductive ipam_run :: "string \<Rightarrow> ipam \<Rightarrow> bool" for c where
  run_new: "new_ipam c = Inr i \<Longrightarrow> ipam_run c i"
| run_allocate: "ipam_run c i \<Longrightarrow> ipam_run c (fst (allocate i p))"
| run_reserve: "ipam_run c i \<Longrightarrow> ipam_run c (fst (reserve i ip p))"
| run_release: "ipam_run c i \<Longrightarrow> ipam_run c (fst (release i p))"
| run_release_ip: "ipam_run c i \<Longrightarrow> ipam_run c (fst (release_ip i ip))"

lemma ipam_run_inv: "ipam_run c i \<Longrightarrow> ipam_inv i"
  by (induction rule: ipam_run.induct) (auto intro: inv_intros)

definition same_pool :: "ipam \<Rightarrow> ipam \<Rightarrow> bool" where
  "same_pool i j \<longleftrightarrow> startIP j = startIP i \<and> endIP j = endIP i \<and> gatewayIP j = gatewayIP i \<and> ipNet j = ipNet i"

lemma same_pool_ops:
  "same_pool i (fst (allocate i p))" "same_pool i (fst (reserve i ip p))"
  "same_pool i (fst (release i p))" "same_pool i (fst (release_ip i ip))"
proof -
  show "same_pool i (fst (allocate i p))"
    using scan_frame [of "total_available i" i p]
    by (cases "allocate_scan (total_available i) i p") (auto simp: same_pool_def allocate_def split: option.split)
qed (auto simp: same_pool_def reserve_def release_def release_ip_def Let_def split: option.split)

lemma same_pool_trans: "same_pool i j \<Longrightarrow> same_pool j k \<Longrightarrow> same_pool i k"
  by (simp add: same_pool_def)

lemma ipam_run_pool:
  assumes "ipam_run c i"
  shows "\<exists>j. new_ipam c = Inr j \<and> same_pool j i"
  using assms
proof (induction rule: ipam_run.induct)
  case (run_new i)
  then show ?case by (auto simp: same_pool_def)
qed (blast intro: same_pool_trans same_pool_ops)+

text \<open>Below the top of the address space the range computation does not wrap.\<close>

lemma network_room:
  assumes "n \<le> 30"
  shows "unat ((ip::ipv4) AND netmask n) + 3 < 4294967296"
proof -
  let ?w = "ip AND netmask n"
  have "take_bit 2 ?w = 0" using assms by (auto simp: bit_eq_iff bit_simps netmask_def)
  then have "take_bit 2 (unat ?w) = 0" by (metis unsigned_0 unsigned_take_bit_eq)
  then have "unat ?w mod 4 = 0" by (simp add: take_bit_eq_mod)
  moreover have "unat ?w < 4294967296" using unsigned_less [of ?w, where 'a = nat] by simp
  ultimately show ?thesis by presburger
qed

lemma pool_in_subnet:
  assumes c: "parse_cidr4 c = Some (ip, n)" and n: "n \<le> 30" and i: "new_ipam c = Inr i" and a: "in_pool i a"
  shows "a AND netmask n = ip AND netmask n \<and> (ip AND netmask n) + 1 < a \<and>
         a < (ip AND netmask n) OR mask (32 - n) \<and> gatewayIP i = (ip AND netmask n) + 1"
proof -
  let ?w = "ip AND netmask n" and ?b = "(ip AND netmask n) OR mask (32 - n)"
  have nm: "NOT (netmask n) = mask (32 - n)" by (simp add: netmask_def)
  have f: "startIP i = ?w + 2" "endIP i = ?b - 1" "gatewayIP i = ?w + 1" and lt: "?w + 2 < ?b"
    using i c nm by (auto simp: new_ipam_def Let_def split: if_splits)
  have r: "unat (?w + 2) = unat ?w + 2" "unat (?w + 1) = unat ?w + 1"
    using network_room [OF n, of ip] by (simp_all add: unat_word_ariths)
  have "?w + 2 \<le> a" "a \<le> ?b - 1" using a f by (auto simp: in_pool_def)
  moreover have "?b - 1 < ?b"
  proof -
    have "?b \<noteq> 0" using lt by auto
    then show ?thesis using unat_minus_one [of ?b] lt by (auto simp: word_less_nat_alt)
  qed
  ultimately have "?w + 1 < a" "?w \<le> a" "a < ?b" using r by (auto simp: word_less_nat_alt word_le_nat_alt)
  then show ?thesis using prefix_interval [of ip n a] f by auto
qed

section \<open>Properties\<close>

text \<open>
  C3: in every state the address manager can reach, no two peers hold the same address, and
  every leased address lies in the pool.
\<close>

theorem lease_unique:
  assumes "ipam_run c i" "get_assigned_ip i p = Some a" "get_assigned_ip i q = Some a"
  shows "p = q \<and> in_pool i a"
proof -
  have inv: "ipam_inv i" using assms(1) by (rule ipam_run_inv)
  then have "agree (in_pool i) (allocated i) (reverse i)" by (simp add: ipam_inv_def)
  then show ?thesis
    using pool.lease_inj [OF inv assms(2,3)] agreeD(2) assms(2) by (auto simp: get_assigned_ip_def)
qed

text \<open>
  A named peer gets an address exactly when it already has one or the pool is not full;
  otherwise \<open>Allocate\<close> reports exhaustion and changes nothing. The moving cursor never makes
  the bounded search miss a free address.
\<close>

theorem allocate_iff_capacity:
  assumes "ipam_run c i" "p \<noteq> []"
  shows "((\<exists>a. snd (allocate i p) = Inr a) \<longleftrightarrow>
            get_assigned_ip i p \<noteq> None \<or> allocated_count i < total_available i) \<and>
         (get_assigned_ip i p = None \<and> allocated_count i = total_available i \<longleftrightarrow>
            allocate i p = (i, Inl ErrSubnetExhausted))"
proof -
  obtain j r where r: "allocate i p = (j, r)" by fastforce
  show ?thesis
    using ipam_run_inv [OF assms(1)] r
    by (cases rule: allocate_cases) (auto simp: get_assigned_ip_def allocated_count_def assms(2) r)
qed

text \<open>
  A granted address was held by no other peer, is the only change of the lease table, and
  is handed out again when the peer asks again.
\<close>

theorem allocate_fresh:
  assumes "ipam_run c i" "allocate i p = (j, Inr a)"
  shows "get_assigned_ip j = (get_assigned_ip i)(p \<mapsto> a) \<and>
         (\<nexists>q. q \<noteq> p \<and> get_assigned_ip i q = Some a) \<and> allocate j p = (j, Inr a)"
proof -
  have inv: "ipam_inv i" using assms(1) by (rule ipam_run_inv)
  have "p \<noteq> []" using assms(2) by (auto simp: allocate_def)
  then show ?thesis
    using pool.acquire_ok [OF inv assms(2)] pool.acquired_unshared [OF inv assms(2)]
      pool.acquire_stable [OF inv assms(2)] by blast
qed

text \<open>
  For a subnet of at most 30 prefix bits every leased address belongs to the subnet and is
  neither its network, nor its gateway, nor its broadcast address.
\<close>

theorem leases_in_subnet:
  assumes "parse_cidr4 c = Some (ip, n)" "n \<le> 30" "ipam_run c i" "get_assigned_ip i p = Some a"
  shows "a AND netmask n = ip AND netmask n \<and> a \<noteq> ip AND netmask n \<and>
         a \<noteq> gatewayIP i \<and> a \<noteq> (ip AND netmask n) OR NOT (netmask n)"
proof -
  obtain j where j: "new_ipam c = Inr j" "same_pool j i" using ipam_run_pool assms(3) by blast
  have "in_pool i a"
    using ipam_run_inv [OF assms(3)] agreeD(2) assms(4) by (auto simp: ipam_inv_def get_assigned_ip_def)
  then have "in_pool j a" using j(2) by (simp add: in_pool_def same_pool_def)
  note f = pool_in_subnet [OF assms(1,2) j(1) this]
  have "unat ((ip AND netmask n) + 1) = unat (ip AND netmask n) + 1"
    using network_room [OF assms(2), of ip] by (simp add: unat_word_ariths)
  then have "ip AND netmask n < a" using f unfolding word_less_nat_alt by linarith
  moreover have "NOT (netmask n) = mask (32 - n)" by (simp add: netmask_def)
  moreover have "gatewayIP i = gatewayIP j" using j(2) by (simp add: same_pool_def)
  ultimately show ?thesis using f by (metis order_less_irrefl)
qed

text \<open>
  A successful \<open>Reserve\<close> leaves the peer holding exactly the requested address, marks the
  address as leased, and touches no other peer.
\<close>

theorem reserve_assigns:
  assumes "ipam_run c i" "reserve i ip p = (j, Inr ())"
  shows "get_assigned_ip j p = to4 ip \<and> is_allocated j ip \<and>
         (\<nexists>q. q \<noteq> p \<and> get_assigned_ip j q \<noteq> get_assigned_ip i q)"
proof -
  have ag: "agree (in_pool i) (allocated i) (reverse i)"
    using ipam_run_inv [OF assms(1)] by (simp add: ipam_inv_def)
  obtain a where "to4 ip = Some a" using assms(2) by (auto simp: reserve_def split: option.splits)
  then show ?thesis
    using assms(2) agreeD(4) [OF ag, of a p]
    by (auto simp: reserve_def get_assigned_ip_def is_allocated_def Let_def split: if_splits option.splits)
qed

text \<open>
  At the very top of the address space the range check wraps: \<open>NewIPAM\<close> accepts the
  one-address subnet 255.255.255.255/32 instead of reporting it too small, and its first lease is
  0.0.0.1, an address outside that subnet.
\<close>

theorem new_ipam_wraps:
  "\<exists>i. new_ipam ''255.255.255.255/32'' = Inr i \<and> gatewayIP i = 0 \<and>
       snd (allocate i ''peer'') = Inr 1 \<and> 1 AND snd (ipNet i) \<noteq> fst (ipNet i)"
proof -
  have p: "parse_cidr4 ''255.255.255.255/32'' = Some (4294967295, 32)" by (simp add: parse_eval)
  have m: "netmask 32 = - 1" by (simp add: netmask_def)
  define i where "i = \<lparr>cidr = ''255.255.255.255/32'', ipNet = (4294967295, - 1 :: ipv4), gatewayIP = 0,
    startIP = 1, endIP = 4294967294, cursor = 1, allocated = fmempty, reverse = fmempty\<rparr>"
  have i: "new_ipam ''255.255.255.255/32'' = Inr i"
    by (simp add: new_ipam_def p m i_def Let_def)
  moreover have "total_available i = 4294967294" by (simp add: total_available_def i_def)
  then have "snd (allocate i ''peer'') = Inr 1"
    by (subst allocate_first) (simp_all add: i_def)
  ultimately show ?thesis by (auto simp: i_def)
qed

section \<open>Witnesses\<close>

definition pool_29 :: ipam where
  "pool_29 = (case new_ipam ''10.8.0.0/29'' of Inr i \<Rightarrow> i | Inl _ \<Rightarrow> undefined)"

lemma parse_29: "parse_cidr4 ''10.8.0.0/29'' = Some (168296448, 29)"
  by (simp add: parse_eval)

lemma netmask_29: "netmask 29 = 4294967288"
  by code_simp

lemma pool_29_eq:
  "pool_29 = \<lparr>cidr = ''10.8.0.0/29'', ipNet = (168296448, 4294967288), gatewayIP = 168296449,
     startIP = 168296450, endIP = 168296454, cursor = 168296450, allocated = fmempty, reverse = fmempty\<rparr>"
  by (simp add: pool_29_def new_ipam_def parse_29 netmask_29 Let_def)

lemma pool_29_new: "new_ipam ''10.8.0.0/29'' = Inr pool_29"
  by (simp add: pool_29_def new_ipam_def parse_29 netmask_29 Let_def)

lemma pool_29_run: "ipam_run ''10.8.0.0/29'' pool_29"
  by (rule run_new [OF pool_29_new])

lemma pool_29_total: "total_available pool_29 = 5"
  by (simp add: total_available_def pool_29_eq)

definition pool_29_alice :: ipam where
  "pool_29_alice = fst (allocate pool_29 ''alice'')"

lemma allocate_alice: "allocate pool_29 ''alice'' = (pool_29_alice, Inr 168296450)"
proof -
  have "snd (allocate pool_29 ''alice'') = Inr 168296450"
    by (subst allocate_first) (simp_all add: pool_29_total, simp_all add: pool_29_eq)
  then show ?thesis by (simp add: pool_29_alice_def prod_eq_iff)
qed

lemma pool_29_alice_run: "ipam_run ''10.8.0.0/29'' pool_29_alice"
  unfolding pool_29_alice_def by (rule run_allocate [OF pool_29_run])

lemma pool_29_alice_lease: "get_assigned_ip pool_29_alice ''alice'' = Some 168296450"
  using pool.acquire_ok [OF ipam_run_inv [OF pool_29_run] allocate_alice] by simp

theorem lease_unique_witness:
  "in_pool pool_29_alice 168296450"
  using lease_unique [OF pool_29_alice_run pool_29_alice_lease pool_29_alice_lease] by simp

theorem allocate_iff_capacity_witness:
  "allocate pool_29 ''alice'' \<noteq> (pool_29, Inl ErrSubnetExhausted)"
  using allocate_iff_capacity [OF pool_29_run, of "''alice''"] allocate_alice by simp

theorem allocate_fresh_witness:
  "allocate pool_29_alice ''alice'' = (pool_29_alice, Inr 168296450)"
  using allocate_fresh [OF pool_29_run allocate_alice] by simp

theorem leases_in_subnet_witness:
  "(168296450 :: ipv4) \<noteq> gatewayIP pool_29_alice"
  using leases_in_subnet [OF parse_29 _ pool_29_alice_run pool_29_alice_lease] by simp

lemma reserve_bob:
  "\<exists>j. reserve pool_29 (v4in6_prefix @ ipv4_bytes 168296452) ''bob'' = (j, Inr ())"
  by (simp add: reserve_def pool_29_eq)

theorem reserve_assigns_witness:
  "\<exists>j. reserve pool_29 (v4in6_prefix @ ipv4_bytes 168296452) ''bob'' = (j, Inr ()) \<and>
       get_assigned_ip j ''bob'' = Some 168296452"
  using reserve_bob reserve_assigns [OF pool_29_run] by fastforce

end
