(* ===== verification/Session.thy ===== *)
theory Session
  imports Models Ipam
begin

text \<open>
  The session manager of \<^verbatim>\<open>internal/vpn/session/session.go\<close>. Both of its Go maps hold pointers to the
  same \<^verbatim>\<open>VPNSession\<close> objects, and an update through one map must be seen through the other, so the
  objects live in an explicit heap and the maps hold addresses. The database, the clock and the
  random bytes of a session identifier are arguments; the replacement hook is reported as an
  output of the operation that calls it.
\<close>

section \<open>State\<close>

type_synonym addr_s = nat

record session_metrics =
  replacements_total :: int
  replacement_counter_migrations :: int
  replacement_db_teardown_errors :: int
  replacements_persist_failed :: int

record session_manager =
  sm_db :: bool
  sm_ipam :: "ipam option"
  sessions_by_peer :: "(string, addr_s) fmap"
  sessions_by_id :: "(string, addr_s) fmap"
  active_count :: int
  lifecycle_version :: "64 word"
  metrics :: session_metrics
  replacement_hook :: bool
  objects :: "(addr_s, vpn_session) fmap"
  next_addr :: addr_s

definition new_session_manager :: "bool \<Rightarrow> ipam option \<Rightarrow> session_manager" where
  "new_session_manager db ip =
     \<lparr>sm_db = db, sm_ipam = ip, sessions_by_peer = fmempty, sessions_by_id = fmempty, active_count = 0,
      lifecycle_version = 0, metrics = \<lparr>replacements_total = 0, replacement_counter_migrations = 0,
        replacement_db_teardown_errors = 0, replacements_persist_failed = 0\<rparr>,
      replacement_hook = False, objects = fmempty, next_addr = 0\<rparr>"

definition set_replacement_hook :: "session_manager \<Rightarrow> session_manager" where
  "set_replacement_hook sm = sm\<lparr>replacement_hook := True\<rparr>"

definition bump_lifecycle :: "session_manager \<Rightarrow> session_manager" where
  "bump_lifecycle sm = sm\<lparr>lifecycle_version := lifecycle_version sm + 1\<rparr>"

text \<open>Following a pointer of one of the maps; \<open>None\<close> is a missing key (or a nil pointer).\<close>

definition peer_session :: "session_manager \<Rightarrow> string \<Rightarrow> (addr_s \<times> vpn_session) option" where
  "peer_session sm k =
     (case fmlookup (sessions_by_peer sm) k of None \<Rightarrow> None
      | Some a \<Rightarrow> map_option (\<lambda>s. (a, s)) (fmlookup (objects sm) a))"

definition id_session :: "session_manager \<Rightarrow> string \<Rightarrow> (addr_s \<times> vpn_session) option" where
  "id_session sm i =
     (case fmlookup (sessions_by_id sm) i of None \<Rightarrow> None
      | Some a \<Rightarrow> map_option (\<lambda>s. (a, s)) (fmlookup (objects sm) a))"

definition write_object :: "addr_s \<Rightarrow> vpn_session \<Rightarrow> session_manager \<Rightarrow> session_manager" where
  "write_object a s sm = sm\<lparr>objects := fmupd a s (objects sm)\<rparr>"

section \<open>Session identifiers\<close>

definition hex_digit :: "nat \<Rightarrow> char" where
  "hex_digit n = (if n < 10 then char_of (48 + n) else char_of (87 + n))"

definition hex_byte :: "byte \<Rightarrow> string" where
  "hex_byte b = [hex_digit (unat b div 16), hex_digit (unat b mod 16)]"

definition hex :: "byte list \<Rightarrow> string" where
  "hex bs = concat (map hex_byte bs)"

text \<open>The version and variant bits of the 16 random bytes, and the dashed rendering.\<close>

definition session_uuid :: "byte list \<Rightarrow> string" where
  "session_uuid r =
     (let u = r[6 := (r ! 6 AND 0x0f) OR 0x40]; u = u[8 := (u ! 8 AND 0x3f) OR 0x80]
      in hex (take 4 u) @ ''-'' @ hex (take 2 (drop 4 u)) @ ''-'' @ hex (take 2 (drop 6 u)) @ ''-'' @
         hex (take 2 (drop 8 u)) @ ''-'' @ hex (take 6 (drop 10 u)))"

section \<open>Creation and replacement\<close>

record pool_delta =
  replaced :: bool
  dec_backend :: int
  inc_backend :: int
  has_inc :: bool

definition zero_delta :: pool_delta where
  "zero_delta = \<lparr>replaced = False, dec_backend = 0, inc_backend = 0, has_inc = False\<rparr>"

datatype session_error = MissingFields | PersistError | ErrSessionNotFound

record create_args =
  c_user :: string
  c_peer :: string
  c_ip :: string
  c_backend :: int
  c_name :: string
  c_source :: string
  c_gen :: "64 word"

text \<open>
  The environment of one call: the clock, the random bytes, and whether the deletion of the old row
  and the insertion of the new row succeed.
\<close>

record create_env =
  e_now :: time
  e_random :: "byte list"
  e_close_ok :: bool
  e_create_ok :: bool

definition remove_replaced :: "create_env \<Rightarrow> string \<Rightarrow> vpn_session \<Rightarrow> session_manager \<Rightarrow> session_manager" where
  "remove_replaced env peerKey old sm =
     (let m = metrics sm;
          m1 = m\<lparr>replacements_total := replacements_total m + 1\<rparr>;
          m2 = (if sm_db sm \<and> \<not> e_close_ok env
                then m1\<lparr>replacement_db_teardown_errors := replacement_db_teardown_errors m1 + 1\<rparr> else m1)
      in sm\<lparr>sessions_by_id := fmdrop (sess_id old) (sessions_by_id sm),
            sessions_by_peer := fmdrop peerKey (sessions_by_peer sm),
            active_count := active_count sm - 1, lifecycle_version := lifecycle_version sm + 1, metrics := m2\<rparr>)"

definition fresh_session :: "create_env \<Rightarrow> create_args \<Rightarrow> vpn_session" where
  "fresh_session env c =
     \<lparr>sess_id = session_uuid (e_random env), sess_user = c_user c, sess_backend = c_backend c, sess_peer = c_peer c,
      sess_ip = c_ip c, sess_connected_at = e_now env, sess_last_seen = e_now env, sess_rx = 0, sess_tx = 0,
      sess_status = ''connected'', sess_connection_name = c_name c, sess_username = [],
      sess_connection_id = [], sess_generation = c_gen c,
      sess_admitted_via = c_source c, sess_timed_out_at = 0\<rparr>"

type_synonym hook_call = "vpn_session \<times> vpn_session"

definition create_session_locked ::
    "create_env \<Rightarrow> create_args \<Rightarrow> session_manager \<Rightarrow>
     session_manager \<times> (session_error + addr_s \<times> pool_delta) \<times> hook_call list" where
  "create_session_locked env c sm =
     (let old = peer_session sm (c_peer c);
          sm1 = (case old of None \<Rightarrow> sm
                 | Some (_, s) \<Rightarrow> remove_replaced env (c_peer c) s sm);
          sess = fresh_session env c
      in if sm_db sm1 \<and> \<not> e_create_ok env
         then (let m = metrics sm1
               in (if old \<noteq> None
                   then sm1\<lparr>metrics := m\<lparr>replacements_persist_failed := replacements_persist_failed m + 1\<rparr>\<rparr> else sm1),
              Inl PersistError, [])
         else
           let a = next_addr sm1;
               sm2 = sm1\<lparr>objects := fmupd a sess (objects sm1), next_addr := a + 1,
                         sessions_by_peer := fmupd (c_peer c) a (sessions_by_peer sm1),
                         sessions_by_id := fmupd (sess_id sess) a (sessions_by_id sm1),
                         active_count := active_count sm1 + 1, lifecycle_version := lifecycle_version sm1 + 1\<rparr>
           in case old of
                None \<Rightarrow> (sm2, Inr (a, zero_delta), [])
              | Some (_, o1) \<Rightarrow>
                  if replacement_hook sm2
                  then (let m = metrics sm2
                        in (sm2\<lparr>metrics := m\<lparr>replacement_counter_migrations := replacement_counter_migrations m + 1\<rparr>\<rparr>,
                       Inr (a, \<lparr>replaced = True, dec_backend = sess_backend o1, inc_backend = sess_backend sess,
                                has_inc = (sess_backend sess \<noteq> sess_backend o1)\<rparr>), [(o1, sess)]))
                  else (sm2, Inr (a, zero_delta), []))"

definition create_session ::
    "create_env \<Rightarrow> create_args \<Rightarrow> session_manager \<Rightarrow>
     session_manager \<times> (session_error + addr_s \<times> pool_delta) \<times> hook_call list" where
  "create_session env c sm =
     (if c_user c = [] \<or> c_peer c = [] \<or> c_ip c = [] then (sm, Inl MissingFields, [])
      else create_session_locked env c sm)"

section \<open>Reading and updating one session\<close>

definition session_snapshot_by_peer :: "session_manager \<Rightarrow> string \<Rightarrow> vpn_session option" where
  "session_snapshot_by_peer sm k = map_option snd (peer_session sm k)"

definition session_snapshot_by_id :: "session_manager \<Rightarrow> string \<Rightarrow> vpn_session option" where
  "session_snapshot_by_id sm i = map_option snd (id_session sm i)"

definition advance_live_session_generation ::
    "string \<Rightarrow> string \<Rightarrow> string \<Rightarrow> 64 word \<Rightarrow> session_manager \<Rightarrow> session_manager \<times> vpn_session option" where
  "advance_live_session_generation peerKey sessionID userID gen sm =
     (case peer_session sm peerKey of
        None \<Rightarrow> (sm, None)
      | Some (a, s) \<Rightarrow>
          if sess_id s \<noteq> sessionID \<or> sess_user s \<noteq> userID \<or> sess_status s \<noteq> ''connected'' \<or> gen \<le> sess_generation s
          then (sm, None)
          else let s' = s\<lparr>sess_generation := gen\<rparr> in (write_object a s' sm, Some s'))"

definition adopt_session_for_ingress ::
    "time \<Rightarrow> string \<Rightarrow> string \<Rightarrow> session_manager \<Rightarrow> session_manager \<times> vpn_session option" where
  "adopt_session_for_ingress now peerKey sessionID sm =
     (case peer_session sm peerKey of
        None \<Rightarrow> (sm, None)
      | Some (a, s) \<Rightarrow>
          if sess_id s \<noteq> sessionID \<or> sess_status s \<noteq> ''connected'' then (sm, None)
          else let s' = s\<lparr>sess_admitted_via := admission_ingress, sess_last_seen := now\<rparr>
               in (write_object a s' sm, Some s'))"

definition update_activity :: "time \<Rightarrow> string \<Rightarrow> int \<Rightarrow> int \<Rightarrow> session_manager \<Rightarrow> session_manager" where
  "update_activity now peerKey rx tx sm =
     (case peer_session sm peerKey of
        None \<Rightarrow> sm
      | Some (a, s) \<Rightarrow>
          write_object a (s\<lparr>sess_rx := sess_rx s + rx, sess_tx := sess_tx s + tx, sess_last_seen := now\<rparr>) sm)"

definition touch_session :: "time \<Rightarrow> string \<Rightarrow> session_manager \<Rightarrow> session_manager" where
  "touch_session now peerKey sm =
     (case peer_session sm peerKey of None \<Rightarrow> sm | Some (a, s) \<Rightarrow> write_object a (s\<lparr>sess_last_seen := now\<rparr>) sm)"

definition set_session_last_seen :: "string \<Rightarrow> time \<Rightarrow> session_manager \<Rightarrow> session_manager" where
  "set_session_last_seen peerKey t sm =
     (case peer_session sm peerKey of None \<Rightarrow> sm | Some (a, s) \<Rightarrow> write_object a (s\<lparr>sess_last_seen := t\<rparr>) sm)"

definition update_session_backend ::
    "string \<Rightarrow> int \<Rightarrow> string \<Rightarrow> session_manager \<Rightarrow> session_manager \<times> (session_error + int \<times> string \<times> string)" where
  "update_session_backend sessionID newBackend newStatus sm =
     (case id_session sm sessionID of
        None \<Rightarrow> (sm, Inl ErrSessionNotFound)
      | Some (a, s) \<Rightarrow>
          let s' = s\<lparr>sess_backend := newBackend,
                     sess_status := (if newStatus \<noteq> [] then newStatus else sess_status s)\<rparr>
          in (bump_lifecycle (write_object a s' sm), Inr (sess_backend s, sess_peer s, sess_status s)))"

definition rollback_session_backend ::
    "string \<Rightarrow> int \<Rightarrow> string \<Rightarrow> session_manager \<Rightarrow> session_manager \<times> (session_error + unit)" where
  "rollback_session_backend sessionID oldBackend oldStatus sm =
     (case id_session sm sessionID of
        None \<Rightarrow> (sm, Inl ErrSessionNotFound)
      | Some (a, s) \<Rightarrow>
          let s' = s\<lparr>sess_backend := oldBackend,
                     sess_status := (if oldStatus \<noteq> [] then oldStatus else ''connected'')\<rparr>
          in (bump_lifecycle (write_object a s' sm), Inr ()))"

section \<open>Ending sessions\<close>

text \<open>
  The answer of \<open>GetConnectionByClientID\<close>: an error, no connection, or a connection with its
  \<^verbatim>\<open>ClientParams["assigned_ip"]\<close> when that is a string.
\<close>

datatype conn_answer = QueryFailed | NoConnection | Connection "string option"

definition release_unpersisted_lease :: "conn_answer \<Rightarrow> string \<Rightarrow> session_manager \<Rightarrow> session_manager" where
  "release_unpersisted_lease answer peerKey sm =
     (case sm_ipam sm of
        None \<Rightarrow> sm
      | Some ip \<Rightarrow>
          let released = sm\<lparr>sm_ipam := Some (fst (release ip peerKey))\<rparr>
          in if sm_db sm
             then (case answer of
                     QueryFailed \<Rightarrow> sm
                   | NoConnection \<Rightarrow> released
                   | Connection assigned \<Rightarrow>
                       (case get_assigned_ip ip peerKey of
                          Some a \<Rightarrow> if assigned = Some (ip_string a) then sm else released
                        | None \<Rightarrow> released))
             else released)"

definition forget_session :: "vpn_session \<Rightarrow> session_manager \<Rightarrow> session_manager" where
  "forget_session s sm =
     sm\<lparr>sessions_by_id := fmdrop (sess_id s) (sessions_by_id sm),
        sessions_by_peer := fmdrop (sess_peer s) (sessions_by_peer sm), active_count := active_count sm - 1\<rparr>"

definition close_session ::
    "time \<Rightarrow> conn_answer \<Rightarrow> string \<Rightarrow> string \<Rightarrow> session_manager \<Rightarrow> session_manager \<times> (session_error + unit)" where
  "close_session now answer sessionID status sm =
     (case id_session sm sessionID of
        None \<Rightarrow> (sm, Inl ErrSessionNotFound)
      | Some (a, s) \<Rightarrow>
          let st = (if status = [] then ''disconnected'' else status);
              s' = s\<lparr>sess_status := st, sess_last_seen := now\<rparr>;
              sm1 = release_unpersisted_lease answer (sess_peer s') (write_object a s' sm);
              sm2 = sm1\<lparr>sessions_by_id := fmdrop sessionID (sessions_by_id sm1),
                        sessions_by_peer := fmdrop (sess_peer s') (sessions_by_peer sm1),
                        active_count := active_count sm1 - 1\<rparr>
          in (bump_lifecycle sm2, Inr ()))"

text \<open>\<open>CheckTimeouts\<close>: one pass collects the idle sessions, a second ends them.\<close>

definition timed_out :: "time \<Rightarrow> duration \<Rightarrow> string list \<Rightarrow> session_manager \<Rightarrow> (addr_s \<times> vpn_session) list" where
  "timed_out now idle ids sm =
     List.map_filter (\<lambda>i. case id_session sm i of None \<Rightarrow> None
       | Some (a, s) \<Rightarrow> if idle < time_sub now (sess_last_seen s) then Some (a, s) else None) ids"

definition time_out_session ::
    "time \<Rightarrow> (string \<Rightarrow> conn_answer) \<Rightarrow> addr_s \<times> vpn_session \<Rightarrow> session_manager \<Rightarrow> session_manager" where
  "time_out_session now answers = (\<lambda>(a, s) sm.
     (let s' = s\<lparr>sess_timed_out_at := now, sess_status := ''disconnected''\<rparr>
      in forget_session s' (release_unpersisted_lease (answers (sess_peer s')) (sess_peer s') (write_object a s' sm))))"

definition check_timeouts ::
    "(string fset \<Rightarrow> string list) \<Rightarrow> (string \<Rightarrow> conn_answer) \<Rightarrow> time \<Rightarrow> duration \<Rightarrow> session_manager \<Rightarrow>
     session_manager \<times> addr_s list" where
  "check_timeouts ord answers now idle sm =
     (if idle \<le> 0 then (sm, [])
      else let out = timed_out now idle (ord (fmdom (sessions_by_id sm))) sm;
               sm1 = fold (time_out_session now answers) out sm
           in (if out \<noteq> [] then bump_lifecycle sm1 else sm1, map fst out))"

definition drain :: "session_manager \<Rightarrow> session_manager" where
  "drain sm =
     (let sm1 = sm\<lparr>objects := fmmap_keys (\<lambda>a s. if a |\<in>| fmran (sessions_by_id sm)
                                             then s\<lparr>sess_status := ''draining''\<rparr> else s) (objects sm)\<rparr>
      in if 0 < go_len (sessions_by_id sm1) then bump_lifecycle sm1 else sm1)"

section \<open>Listing\<close>

definition get_sessions_by_user :: "(string fset \<Rightarrow> string list) \<Rightarrow> string \<Rightarrow> session_manager \<Rightarrow> addr_s list" where
  "get_sessions_by_user ord userID sm =
     List.map_filter (\<lambda>i. case id_session sm i of None \<Rightarrow> None
       | Some (a, s) \<Rightarrow> if sess_user s = userID \<and> sess_status s = ''connected'' then Some a else None)
       (ord (fmdom (sessions_by_id sm)))"

definition list_active_sessions_snapshot :: "(string fset \<Rightarrow> string list) \<Rightarrow> session_manager \<Rightarrow> vpn_session list" where
  "list_active_sessions_snapshot ord sm =
     sort_key (\<lambda>s. (- sess_connected_at s, sess_id s))
       (List.map_filter (session_snapshot_by_id sm) (ord (fmdom (sessions_by_id sm))))"

section \<open>The invariant\<close>

text \<open>
  The two maps index the same objects, by peer and by identifier, and the counter is their size.
\<close>

definition maps_ok :: "(string, addr_s) fmap \<Rightarrow> (string, addr_s) fmap \<Rightarrow> (addr_s, vpn_session) fmap \<Rightarrow> addr_s \<Rightarrow> int \<Rightarrow> bool" where
  "maps_ok byPeer byId obj nxt cnt \<longleftrightarrow>
     (\<forall>k a. fmlookup byPeer k = Some a \<longrightarrow>
        (\<exists>s. fmlookup obj a = Some s \<and> sess_peer s = k \<and> fmlookup byId (sess_id s) = Some a)) \<and>
     (\<forall>i a. fmlookup byId i = Some a \<longrightarrow>
        (\<exists>s. fmlookup obj a = Some s \<and> sess_id s = i \<and> fmlookup byPeer (sess_peer s) = Some a)) \<and>
     go_len byPeer = go_len byId \<and> cnt = int (go_len byId) \<and>
     (\<forall>a s. fmlookup obj a = Some s \<longrightarrow> a < nxt)"

definition sess_inv :: "session_manager \<Rightarrow> bool" where
  "sess_inv sm \<longleftrightarrow> maps_ok (sessions_by_peer sm) (sessions_by_id sm) (objects sm) (next_addr sm) (active_count sm)"

lemma maps_okD:
  assumes "maps_ok bp bi ob n c"
  shows "fmlookup bp k = Some a \<Longrightarrow> \<exists>s. fmlookup ob a = Some s \<and> sess_peer s = k \<and> fmlookup bi (sess_id s) = Some a"
    and "fmlookup bi i = Some a \<Longrightarrow> \<exists>s. fmlookup ob a = Some s \<and> sess_id s = i \<and> fmlookup bp (sess_peer s) = Some a"
    and "go_len bp = go_len bi" "c = int (go_len bi)" "fmlookup ob a = Some s \<Longrightarrow> a < n"
  using assms unfolding maps_ok_def by blast+

lemma maps_ok_write:
  assumes "maps_ok bp bi ob n c" "fmlookup ob a = Some s" "sess_id s' = sess_id s" "sess_peer s' = sess_peer s"
  shows "maps_ok bp bi (fmupd a s' ob) n c"
proof -
  have "\<exists>t. fmlookup (fmupd a s' ob) b = Some t \<and> sess_peer t = k \<and> fmlookup bi (sess_id t) = Some b"
    if "fmlookup bp k = Some b" for k b
    using maps_okD(1) [OF assms(1) that] assms(2-4) by (cases "b = a") auto
  moreover have "\<exists>t. fmlookup (fmupd a s' ob) b = Some t \<and> sess_id t = i \<and> fmlookup bp (sess_peer t) = Some b"
    if "fmlookup bi i = Some b" for i b
    using maps_okD(2) [OF assms(1) that] assms(2-4) by (cases "b = a") auto
  moreover have "b < n" if "fmlookup (fmupd a s' ob) b = Some t" for b t
    using that maps_okD(5) [OF assms(1)] assms(2) by (auto split: if_splits)
  ultimately show ?thesis using maps_okD(3,4) [OF assms(1)] unfolding maps_ok_def by blast
qed

lemma maps_ok_drop:
  assumes "maps_ok bp bi ob n c" "fmlookup ob a = Some s" "fmlookup bi (sess_id s) = Some a"
    "fmlookup bp (sess_peer s) = Some a"
  shows "maps_ok (fmdrop (sess_peer s) bp) (fmdrop (sess_id s) bi) ob n (c - 1)"
proof -
  have "\<exists>t. fmlookup ob b = Some t \<and> sess_peer t = k \<and> fmlookup (fmdrop (sess_id s) bi) (sess_id t) = Some b"
    if k: "fmlookup (fmdrop (sess_peer s) bp) k = Some b" for k b
  proof -
    have kb: "k \<noteq> sess_peer s" "fmlookup bp k = Some b" using k by (auto split: if_splits)
    obtain t where t: "fmlookup ob b = Some t" "sess_peer t = k" "fmlookup bi (sess_id t) = Some b"
      using maps_okD(1) [OF assms(1) kb(2)] by blast
    then have "sess_id t \<noteq> sess_id s" using kb(1) assms(2,3) by auto
    then show ?thesis using t by simp
  qed
  moreover have "\<exists>t. fmlookup ob b = Some t \<and> sess_id t = i \<and> fmlookup (fmdrop (sess_peer s) bp) (sess_peer t) = Some b"
    if i: "fmlookup (fmdrop (sess_id s) bi) i = Some b" for i b
  proof -
    have ib: "i \<noteq> sess_id s" "fmlookup bi i = Some b" using i by (auto split: if_splits)
    obtain t where t: "fmlookup ob b = Some t" "sess_id t = i" "fmlookup bp (sess_peer t) = Some b"
      using maps_okD(2) [OF assms(1) ib(2)] by blast
    then have "sess_peer t \<noteq> sess_peer s" using ib(1) assms(2,4) by auto
    then show ?thesis using t by simp
  qed
  moreover have "go_len (fmdrop (sess_peer s) bp) = go_len bp - 1" "go_len (fmdrop (sess_id s) bi) = go_len bi - 1"
    using assms(3,4) by (simp_all add: go_len_drop)
  moreover have "0 < go_len bi" using assms(3) by (rule go_len_pos)
  ultimately show ?thesis using maps_okD(3-5) [OF assms(1)] unfolding maps_ok_def
    by (simp add: of_nat_diff Suc_le_eq)
qed

lemma maps_ok_add:
  assumes "maps_ok bp bi ob n c" "fmlookup bp (sess_peer s) = None" "fmlookup bi (sess_id s) = None"
  shows "maps_ok (fmupd (sess_peer s) n bp) (fmupd (sess_id s) n bi) (fmupd n s ob) (n + 1) (c + 1)"
proof -
  have fresh: "fmlookup ob b = Some t \<Longrightarrow> b \<noteq> n" for b t using maps_okD(5) [OF assms(1)] by blast
  have "\<exists>t. fmlookup (fmupd n s ob) b = Some t \<and> sess_peer t = k \<and> fmlookup (fmupd (sess_id s) n bi) (sess_id t) = Some b"
    if k: "fmlookup (fmupd (sess_peer s) n bp) k = Some b" for k b
  proof (cases "k = sess_peer s")
    case True
    then show ?thesis using k by simp
  next
    case False
    then obtain t where t: "fmlookup ob b = Some t" "sess_peer t = k" "fmlookup bi (sess_id t) = Some b"
      using k maps_okD(1) [OF assms(1), of k b] by auto
    then have "sess_id t \<noteq> sess_id s" using assms(3) by auto
    then show ?thesis using t fresh [OF t(1)] by simp
  qed
  moreover have "\<exists>t. fmlookup (fmupd n s ob) b = Some t \<and> sess_id t = i \<and> fmlookup (fmupd (sess_peer s) n bp) (sess_peer t) = Some b"
    if i: "fmlookup (fmupd (sess_id s) n bi) i = Some b" for i b
  proof (cases "i = sess_id s")
    case True
    then show ?thesis using i by simp
  next
    case False
    then obtain t where t: "fmlookup ob b = Some t" "sess_id t = i" "fmlookup bp (sess_peer t) = Some b"
      using i maps_okD(2) [OF assms(1), of i b] by auto
    then have "sess_peer t \<noteq> sess_peer s" using assms(2) by auto
    then show ?thesis using t fresh [OF t(1)] by simp
  qed
  moreover have "b < n + 1" if "fmlookup (fmupd n s ob) b = Some t" for b t
    using that maps_okD(5) [OF assms(1), of b t] by (auto split: if_splits)
  ultimately show ?thesis using maps_okD(3,4) [OF assms(1)] assms(2,3) unfolding maps_ok_def by simp
qed

lemma id_sessionD:
  assumes "sess_inv sm" "id_session sm i = Some (a, s)"
  shows "fmlookup (objects sm) a = Some s" "sess_id s = i" "fmlookup (sessions_by_id sm) (sess_id s) = Some a"
    "fmlookup (sessions_by_peer sm) (sess_peer s) = Some a"
proof -
  have l: "fmlookup (sessions_by_id sm) i = Some a" "fmlookup (objects sm) a = Some s"
    using assms(2) by (auto simp: id_session_def split: option.splits)
  then show "fmlookup (objects sm) a = Some s" "sess_id s = i" "fmlookup (sessions_by_id sm) (sess_id s) = Some a"
    "fmlookup (sessions_by_peer sm) (sess_peer s) = Some a"
    using maps_okD(2) [of "sessions_by_peer sm" "sessions_by_id sm" "objects sm"] assms(1)
    unfolding sess_inv_def by fastforce+
qed

lemma peer_sessionD:
  assumes "sess_inv sm" "peer_session sm k = Some (a, s)"
  shows "fmlookup (objects sm) a = Some s" "sess_peer s = k" "fmlookup (sessions_by_id sm) (sess_id s) = Some a"
    "fmlookup (sessions_by_peer sm) (sess_peer s) = Some a"
proof -
  have l: "fmlookup (sessions_by_peer sm) k = Some a" "fmlookup (objects sm) a = Some s"
    using assms(2) by (auto simp: peer_session_def split: option.splits)
  then show "fmlookup (objects sm) a = Some s" "sess_peer s = k" "fmlookup (sessions_by_id sm) (sess_id s) = Some a"
    "fmlookup (sessions_by_peer sm) (sess_peer s) = Some a"
    using maps_okD(1) [of "sessions_by_peer sm" "sessions_by_id sm" "objects sm"] assms(1)
    unfolding sess_inv_def by fastforce+
qed

lemma peer_session_None: "sess_inv sm \<Longrightarrow> peer_session sm k = None \<longleftrightarrow> fmlookup (sessions_by_peer sm) k = None"
proof (cases "fmlookup (sessions_by_peer sm) k")
  case (Some a)
  moreover assume "sess_inv sm"
  ultimately obtain s where "fmlookup (objects sm) a = Some s"
    using maps_okD(1) unfolding sess_inv_def by blast
  then show ?thesis using Some by (simp add: peer_session_def)
qed (simp add: peer_session_def)

section \<open>Every operation keeps the invariant\<close>

lemma write_inv: "sess_inv sm \<Longrightarrow> fmlookup (objects sm) a = Some s \<Longrightarrow> sess_id s' = sess_id s \<Longrightarrow>
    sess_peer s' = sess_peer s \<Longrightarrow> sess_inv (write_object a s' sm)"
  unfolding sess_inv_def write_object_def by (simp add: maps_ok_write)

lemma bump_inv [simp]: "sess_inv (bump_lifecycle sm) = sess_inv sm"
  by (simp add: sess_inv_def bump_lifecycle_def)

lemma release_lease_fields [simp]:
  "sessions_by_peer (release_unpersisted_lease c k sm) = sessions_by_peer sm"
  "sessions_by_id (release_unpersisted_lease c k sm) = sessions_by_id sm"
  "objects (release_unpersisted_lease c k sm) = objects sm"
  "next_addr (release_unpersisted_lease c k sm) = next_addr sm"
  "active_count (release_unpersisted_lease c k sm) = active_count sm"
  "sm_db (release_unpersisted_lease c k sm) = sm_db sm"
  by (auto simp: release_unpersisted_lease_def Let_def split: option.split conn_answer.split)

lemma release_lease_inv [simp]: "sess_inv (release_unpersisted_lease c k sm) = sess_inv sm"
  by (simp add: sess_inv_def)

lemma new_session_manager_inv [inv_intros]: "sess_inv (new_session_manager db ip)"
  by (simp add: sess_inv_def new_session_manager_def maps_ok_def)

lemma remove_replaced_inv:
  assumes "sess_inv sm" "peer_session sm k = Some (a, s)"
  shows "sess_inv (remove_replaced env k s sm)"
  using maps_ok_drop [of "sessions_by_peer sm" "sessions_by_id sm" "objects sm" "next_addr sm" "active_count sm" a s]
    peer_sessionD [OF assms] assms(1)
  by (simp add: sess_inv_def remove_replaced_def Let_def)

text \<open>The new identifier must not be in use: 122 random bits in the source.\<close>

definition fresh_id :: "create_env \<Rightarrow> session_manager \<Rightarrow> bool" where
  "fresh_id env sm \<longleftrightarrow> fmlookup (sessions_by_id sm) (session_uuid (e_random env)) = None"

lemma create_session_inv [inv_intros]:
  assumes "sess_inv sm" "fresh_id env sm"
  shows "sess_inv (fst (create_session env c sm))"
proof -
  let ?s = "fresh_session env c"
  let ?add = "\<lambda>sm. sm\<lparr>objects := fmupd (next_addr sm) ?s (objects sm), next_addr := next_addr sm + 1,
                   sessions_by_peer := fmupd (c_peer c) (next_addr sm) (sessions_by_peer sm),
                   sessions_by_id := fmupd (sess_id ?s) (next_addr sm) (sessions_by_id sm),
                   active_count := active_count sm + 1, lifecycle_version := lifecycle_version sm + 1\<rparr>"
  have add: "sess_inv (?add sm1)"
    if "sess_inv sm1" "fmlookup (sessions_by_peer sm1) (c_peer c) = None" "fresh_id env sm1" for sm1
    using that maps_ok_add [of "sessions_by_peer sm1" "sessions_by_id sm1" "objects sm1" "next_addr sm1" "active_count sm1" ?s]
    by (simp add: sess_inv_def fresh_id_def fresh_session_def)
  have met: "sess_inv (sm1\<lparr>metrics := m\<rparr>) = sess_inv sm1" for sm1 m by (simp add: sess_inv_def)
  show ?thesis
  proof (cases "peer_session sm (c_peer c)")
    case None
    then have "fmlookup (sessions_by_peer sm) (c_peer c) = None" using peer_session_None [OF assms(1)] by simp
    then show ?thesis using None assms add [of sm]
      by (simp add: create_session_def create_session_locked_def Let_def)
  next
    case (Some x)
    obtain a s where x: "x = (a, s)" by fastforce
    have r: "sess_inv (remove_replaced env (c_peer c) s sm)"
      using remove_replaced_inv assms(1) Some x by simp
    moreover have "fmlookup (sessions_by_peer (remove_replaced env (c_peer c) s sm)) (c_peer c) = None"
      "fresh_id env (remove_replaced env (c_peer c) s sm)"
      using assms(2) by (simp_all add: remove_replaced_def fresh_id_def Let_def)
    ultimately have "sess_inv (?add (remove_replaced env (c_peer c) s sm))" by (rule add)
    then show ?thesis using assms(1) r Some x
      by (simp add: create_session_def create_session_locked_def Let_def met)
  qed
qed

lemma advance_inv [inv_intros]:
  assumes "sess_inv sm" shows "sess_inv (fst (advance_live_session_generation k i u g sm))"
proof (cases "peer_session sm k")
  case (Some x)
  then obtain a s where x: "peer_session sm k = Some (a, s)" by (cases x) simp
  show ?thesis using write_inv [OF assms peer_sessionD(1) [OF assms x]] assms x
    by (simp add: advance_live_session_generation_def Let_def)
qed (use assms in \<open>simp add: advance_live_session_generation_def\<close>)

lemma adopt_inv [inv_intros]:
  assumes "sess_inv sm" shows "sess_inv (fst (adopt_session_for_ingress now k i sm))"
proof (cases "peer_session sm k")
  case (Some x)
  then obtain a s where x: "peer_session sm k = Some (a, s)" by (cases x) simp
  show ?thesis using write_inv [OF assms peer_sessionD(1) [OF assms x]] assms x
    by (simp add: adopt_session_for_ingress_def Let_def)
qed (use assms in \<open>simp add: adopt_session_for_ingress_def\<close>)

lemma activity_inv [inv_intros]:
  assumes "sess_inv sm"
  shows "sess_inv (update_activity now k rx tx sm)" "sess_inv (touch_session now k sm)"
    "sess_inv (set_session_last_seen k now sm)"
proof -
  have "sess_inv (update_activity now k rx tx sm) \<and> sess_inv (touch_session now k sm) \<and>
      sess_inv (set_session_last_seen k now sm)"
  proof (cases "peer_session sm k")
    case (Some x)
    then obtain a s where x: "peer_session sm k = Some (a, s)" by (cases x) simp
    show ?thesis using write_inv [OF assms peer_sessionD(1) [OF assms x]] x
      by (simp add: update_activity_def touch_session_def set_session_last_seen_def)
  qed (use assms in \<open>simp add: update_activity_def touch_session_def set_session_last_seen_def\<close>)
  then show "sess_inv (update_activity now k rx tx sm)" "sess_inv (touch_session now k sm)"
    "sess_inv (set_session_last_seen k now sm)" by simp_all
qed

lemma backend_inv [inv_intros]:
  assumes "sess_inv sm"
  shows "sess_inv (fst (update_session_backend i b st sm))" "sess_inv (fst (rollback_session_backend i b st sm))"
proof -
  have "sess_inv (fst (update_session_backend i b st sm)) \<and> sess_inv (fst (rollback_session_backend i b st sm))"
  proof (cases "id_session sm i")
    case (Some x)
    then obtain a s where x: "id_session sm i = Some (a, s)" by (cases x) simp
    show ?thesis using write_inv [OF assms id_sessionD(1) [OF assms x]] x
      by (simp add: update_session_backend_def rollback_session_backend_def Let_def)
  qed (use assms in \<open>simp add: update_session_backend_def rollback_session_backend_def\<close>)
  then show "sess_inv (fst (update_session_backend i b st sm))" "sess_inv (fst (rollback_session_backend i b st sm))"
    by simp_all
qed

lemma drop_session_inv:
  assumes "sess_inv sm" "id_session sm i = Some (a, s)" "fmlookup (objects sm') a = Some s'"
    "sess_id s' = sess_id s" "sess_peer s' = sess_peer s" "sess_inv sm'"
    "sessions_by_id sm' = sessions_by_id sm" "sessions_by_peer sm' = sessions_by_peer sm"
  shows "sess_inv (forget_session s' sm')"
  using maps_ok_drop [of "sessions_by_peer sm'" "sessions_by_id sm'" "objects sm'" "next_addr sm'" "active_count sm'" a s']
    id_sessionD [OF assms(1,2)] assms(3-8)
  by (simp add: sess_inv_def forget_session_def)

lemma forget_fields [simp]:
  "sessions_by_id (forget_session s sm) = fmdrop (sess_id s) (sessions_by_id sm)"
  "sessions_by_peer (forget_session s sm) = fmdrop (sess_peer s) (sessions_by_peer sm)"
  "objects (forget_session s sm) = objects sm"
  "active_count (forget_session s sm) = active_count sm - 1"
  by (simp_all add: forget_session_def)

lemma write_fields [simp]:
  "sessions_by_id (write_object a s sm) = sessions_by_id sm"
  "sessions_by_peer (write_object a s sm) = sessions_by_peer sm"
  "objects (write_object a s sm) = fmupd a s (objects sm)"
  "active_count (write_object a s sm) = active_count sm"
  "sm_db (write_object a s sm) = sm_db sm" "sm_ipam (write_object a s sm) = sm_ipam sm"
  by (simp_all add: write_object_def)

lemma close_session_eq:
  assumes "sess_inv sm" "id_session sm i = Some (a, s)"
  shows "close_session now c i st sm =
     (let s' = s\<lparr>sess_status := (if st = [] then ''disconnected'' else st), sess_last_seen := now\<rparr>
      in (bump_lifecycle (forget_session s' (release_unpersisted_lease c (sess_peer s) (write_object a s' sm))), Inr ()))"
  using assms(2) id_sessionD(2) [OF assms] by (simp add: close_session_def forget_session_def Let_def)

lemma close_session_inv [inv_intros]:
  assumes "sess_inv sm"
  shows "sess_inv (fst (close_session now c i st sm))"
proof (cases "id_session sm i")
  case None
  then show ?thesis using assms by (simp add: close_session_def)
next
  case (Some x)
  then obtain a s where x: "id_session sm i = Some (a, s)" by (cases x) simp
  let ?s = "s\<lparr>sess_status := (if st = [] then ''disconnected'' else st), sess_last_seen := now\<rparr>"
  have "sess_inv (write_object a ?s sm)" by (rule write_inv [OF assms id_sessionD(1) [OF assms x]]) simp_all
  then have "sess_inv (forget_session ?s (release_unpersisted_lease c (sess_peer s) (write_object a ?s sm)))"
    by (intro drop_session_inv [OF assms x]) simp_all
  then show ?thesis unfolding close_session_eq [OF assms x] Let_def by simp
qed

text \<open>Timing out one session removes it and leaves every other session as it is.\<close>

lemma time_out_one:
  assumes "sess_inv sm" "id_session sm i = Some (a, s)"
  shows "sess_inv (time_out_session now c (a, s) sm)"
    and "id_session (time_out_session now c (a, s) sm) j = (if j = i then None else id_session sm j)"
    and "active_count (time_out_session now c (a, s) sm) = active_count sm - 1"
proof -
  let ?s = "s\<lparr>sess_timed_out_at := now, sess_status := ''disconnected''\<rparr>"
  have t: "time_out_session now c (a, s) sm =
      forget_session ?s (release_unpersisted_lease (c (sess_peer s)) (sess_peer s) (write_object a ?s sm))"
    by (simp add: time_out_session_def Let_def)
  have "sess_inv (write_object a ?s sm)" by (rule write_inv [OF assms(1) id_sessionD(1) [OF assms]]) simp_all
  then show "sess_inv (time_out_session now c (a, s) sm)" unfolding t
    by (intro drop_session_inv [OF assms]) simp_all
  have "b \<noteq> a" if "fmlookup (sessions_by_id sm) j = Some b" "j \<noteq> i" for b
  proof
    assume "b = a"
    then have "sess_id s = j"
      using maps_okD(2) [OF assms(1) [unfolded sess_inv_def] that(1)] id_sessionD(1) [OF assms] by auto
    then show False using that(2) id_sessionD(2) [OF assms] by simp
  qed
  then show "id_session (time_out_session now c (a, s) sm) j = (if j = i then None else id_session sm j)"
    using id_sessionD(2) [OF assms] unfolding t by (auto simp: id_session_def split: option.split)
  show "active_count (time_out_session now c (a, s) sm) = active_count sm - 1" unfolding t by simp
qed

lemma time_out_many:
  assumes "sess_inv sm" "distinct (map (sess_id \<circ> snd) out)"
    "\<forall>(a, s) \<in> set out. id_session sm (sess_id s) = Some (a, s)"
  shows "sess_inv (fold (time_out_session now c) out sm) \<and>
         (\<forall>j. id_session (fold (time_out_session now c) out sm) j =
            (if j \<in> set (map (sess_id \<circ> snd) out) then None else id_session sm j)) \<and>
         active_count (fold (time_out_session now c) out sm) = active_count sm - int (length out)"
  using assms
proof (induction out arbitrary: sm)
  case (Cons x out)
  obtain a s where x: "x = (a, s)" by fastforce
  have h: "id_session sm (sess_id s) = Some (a, s)" using Cons.prems(3) x by simp
  note one = time_out_one [OF Cons.prems(1) h, of now c]
  have rest: "\<forall>(b, t) \<in> set out. id_session (time_out_session now c (a, s) sm) (sess_id t) = Some (b, t)"
  proof (intro ballI, clarify)
    fix b t assume m: "(b, t) \<in> set out"
    have "(sess_id \<circ> snd) (b, t) \<in> (sess_id \<circ> snd) ` set out" by (rule imageI) (rule m)
    moreover have "sess_id s \<notin> (sess_id \<circ> snd) ` set out" using Cons.prems(2) x by simp
    ultimately have "sess_id t \<noteq> sess_id s" by (metis comp_apply snd_conv)
    moreover have "id_session sm (sess_id t) = Some (b, t)" using Cons.prems(3) m by auto
    ultimately show "id_session (time_out_session now c (a, s) sm) (sess_id t) = Some (b, t)" using one(2) by simp
  qed
  have d: "distinct (map (sess_id \<circ> snd) out)" using Cons.prems(2) by (simp add: comp_def)
  show ?case using Cons.IH [OF one(1) d rest] one(2,3) unfolding x by auto
qed simp

lemma timed_out_spec:
  assumes "sess_inv sm" "distinct ids"
  shows "distinct (map (sess_id \<circ> snd) (timed_out now idle ids sm))"
    and "\<forall>(a, s) \<in> set (timed_out now idle ids sm). id_session sm (sess_id s) = Some (a, s)"
    and "i \<in> set (map (sess_id \<circ> snd) (timed_out now idle ids sm)) \<longleftrightarrow>
           i \<in> set ids \<and> (\<exists>a s. id_session sm i = Some (a, s) \<and> idle < time_sub now (sess_last_seen s))"
proof -
  define f where "f = (\<lambda>i. case id_session sm i of None \<Rightarrow> None
       | Some (a, s) \<Rightarrow> if idle < time_sub now (sess_last_seen s) then Some (a, s) else None)"
  have f: "f i = Some (a, s) \<longleftrightarrow> id_session sm i = Some (a, s) \<and> idle < time_sub now (sess_last_seen s)" for i a s
    by (auto simp: f_def split: option.splits if_splits)
  have e: "timed_out now idle ids sm = List.map_filter f ids" for ids by (simp add: timed_out_def f_def)
  have set: "x \<in> set (List.map_filter f ids) \<longleftrightarrow> (\<exists>i \<in> set ids. f i = Some x)" for x ids
    by (auto simp: List.map_filter_def image_iff)
  show mem: "\<forall>(a, s) \<in> set (timed_out now idle ids sm). id_session sm (sess_id s) = Some (a, s)"
    unfolding e using f id_sessionD(2) [OF assms(1)] by (auto simp: set)
  show iff: "i \<in> set (map (sess_id \<circ> snd) (timed_out now idle ids sm)) \<longleftrightarrow>
           i \<in> set ids \<and> (\<exists>a s. id_session sm i = Some (a, s) \<and> idle < time_sub now (sess_last_seen s))" for i ids
  proof -
    have "i \<in> set (map (sess_id \<circ> snd) (timed_out now idle ids sm)) \<longleftrightarrow>
        (\<exists>a s. sess_id s = i \<and> (\<exists>j \<in> set ids. f j = Some (a, s)))"
    proof -
      have "i \<in> set (map (sess_id \<circ> snd) (timed_out now idle ids sm)) \<longleftrightarrow>
          (\<exists>p. p \<in> set (List.map_filter f ids) \<and> sess_id (snd p) = i)"
        unfolding e set_map comp_def by blast
      also have "\<dots> \<longleftrightarrow> (\<exists>a s. (a, s) \<in> set (List.map_filter f ids) \<and> sess_id s = i)" by (simp only: split_paired_Ex snd_conv)
      finally show ?thesis unfolding set by blast
    qed
    also have "\<dots> \<longleftrightarrow> i \<in> set ids \<and> (\<exists>a s. id_session sm i = Some (a, s) \<and> idle < time_sub now (sess_last_seen s))"
      using f id_sessionD(2) [OF assms(1)] by metis
    finally show ?thesis .
  qed
  show "distinct (map (sess_id \<circ> snd) (timed_out now idle ids sm))" using assms(2)
  proof (induction ids)
    case Nil
    then show ?case by (simp add: e List.map_filter_def)
  next
    case (Cons i ids)
    have step: "timed_out now idle (i # ids) sm = (case f i of None \<Rightarrow> timed_out now idle ids sm | Some x \<Rightarrow> x # timed_out now idle ids sm)"
      by (simp add: e List.map_filter_def split: option.split)
    show ?case
    proof (cases "f i")
      case None
      then show ?thesis using Cons step by simp
    next
      case (Some x)
      obtain a s where x: "x = (a, s)" by fastforce
      then have "sess_id s = i" using f Some id_sessionD(2) [OF assms(1)] by blast
      moreover have "i \<notin> set (map (sess_id \<circ> snd) (timed_out now idle ids sm))" using iff Cons.prems by simp
      ultimately show ?thesis using Cons Some step x by simp
    qed
  qed
qed

lemma check_timeouts_spec:
  assumes "sess_inv sm" "range_order ord" "0 < idle"
  shows "sess_inv (fst (check_timeouts ord c now idle sm)) \<and>
         (\<forall>i. id_session (fst (check_timeouts ord c now idle sm)) i =
            (case id_session sm i of None \<Rightarrow> None
             | Some (a, s) \<Rightarrow> if idle < time_sub now (sess_last_seen s) then None else Some (a, s))) \<and>
         active_count (fst (check_timeouts ord c now idle sm)) =
           active_count sm - int (length (snd (check_timeouts ord c now idle sm)))"
proof -
  let ?ids = "ord (fmdom (sessions_by_id sm))"
  let ?out = "timed_out now idle ?ids sm"
  have d: "distinct ?ids" by (rule range_orderD(1) [OF assms(2)])
  note o3 = timed_out_spec(3) [OF assms(1) d, where now = now and idle = idle]
  note m = time_out_many [OF assms(1) timed_out_spec(1,2) [OF assms(1) d, where now = now and idle = idle],
      where now = now and c = c]
  have in_dom: "id_session sm i = Some x \<Longrightarrow> i \<in> set ?ids" for i x
    using range_orderD(2) [OF assms(2)] by (auto simp: id_session_def split: option.splits intro: fmdomI)
  have bump: "id_session (bump_lifecycle sm1) i = id_session sm1 i" "active_count (bump_lifecycle sm1) = active_count sm1"
    for sm1 i by (simp_all add: id_session_def bump_lifecycle_def split: option.split)
  have "id_session (fold (time_out_session now c) ?out sm) i = (case id_session sm i of None \<Rightarrow> None
             | Some (a, s) \<Rightarrow> if idle < time_sub now (sess_last_seen s) then None else Some (a, s))" for i
    using m o3 [of i] in_dom [of i] by (auto split: option.split)
  then show ?thesis using m assms(3) by (auto simp: check_timeouts_def Let_def bump)
qed

lemma check_timeouts_inv [inv_intros]:
  "sess_inv sm \<Longrightarrow> range_order ord \<Longrightarrow> sess_inv (fst (check_timeouts ord c now idle sm))"
  by (cases "0 < idle") (use check_timeouts_spec in \<open>auto simp: check_timeouts_def\<close>)

lemma drain_inv [inv_intros]: "sess_inv sm \<Longrightarrow> sess_inv (drain sm)"
proof -
  assume inv: "sess_inv sm"
  let ?f = "\<lambda>a s. if a |\<in>| fmran (sessions_by_id sm) then s\<lparr>sess_status := ''draining''\<rparr> else s"
  have "maps_ok bp bi (fmmap_keys ?f ob) n cnt" if ok: "maps_ok bp bi ob n cnt" for bp bi ob n cnt
  proof -
    have l: "fmlookup (fmmap_keys ?f ob) a = map_option (?f a) (fmlookup ob a)" for a by simp
    have k: "sess_id (?f a s) = sess_id s" "sess_peer (?f a s) = sess_peer s" for a s by simp_all
    have "\<exists>s. fmlookup (fmmap_keys ?f ob) a = Some s \<and> sess_peer s = q \<and> fmlookup bi (sess_id s) = Some a"
      if q: "fmlookup bp q = Some a" for q a
    proof -
      obtain s where "fmlookup ob a = Some s" "sess_peer s = q" "fmlookup bi (sess_id s) = Some a"
        using maps_okD(1) [OF ok q] by blast
      then show ?thesis unfolding l using k by (intro exI [of _ "?f a s"]) simp
    qed
    moreover have "\<exists>s. fmlookup (fmmap_keys ?f ob) a = Some s \<and> sess_id s = q \<and> fmlookup bp (sess_peer s) = Some a"
      if q: "fmlookup bi q = Some a" for q a
    proof -
      obtain s where "fmlookup ob a = Some s" "sess_id s = q" "fmlookup bp (sess_peer s) = Some a"
        using maps_okD(2) [OF ok q] by blast
      then show ?thesis unfolding l using k by (intro exI [of _ "?f a s"]) simp
    qed
    moreover have "a < n" if "fmlookup (fmmap_keys ?f ob) a = Some s" for a s
      using that maps_okD(5) [OF ok] unfolding l by (cases "fmlookup ob a") auto
    ultimately show ?thesis using maps_okD(3,4) [OF ok] unfolding maps_ok_def by blast
  qed
  from this [of "sessions_by_peer sm" "sessions_by_id sm" "objects sm"]
  have "sess_inv (sm\<lparr>objects := fmmap_keys ?f (objects sm)\<rparr>)" using inv by (simp add: sess_inv_def)
  then show ?thesis unfolding drain_def Let_def by (simp only: bump_inv split: if_split) blast
qed

section \<open>Runs\<close>

inductive sess_step :: "session_manager \<Rightarrow> session_manager \<Rightarrow> bool" where
  "fresh_id env sm \<Longrightarrow> sess_step sm (fst (create_session env c sm))"
| "sess_step sm (fst (advance_live_session_generation k i u g sm))"
| "sess_step sm (fst (adopt_session_for_ingress now k i sm))"
| "sess_step sm (update_activity now k rx tx sm)"
| "sess_step sm (touch_session now k sm)"
| "sess_step sm (set_session_last_seen k now sm)"
| "sess_step sm (fst (update_session_backend i b st sm))"
| "sess_step sm (fst (rollback_session_backend i b st sm))"
| "sess_step sm (fst (close_session now a i st sm))"
| "range_order ord \<Longrightarrow> sess_step sm (fst (check_timeouts ord an now idle sm))"
| "sess_step sm (drain sm)"
| "sess_step sm (set_replacement_hook sm)"
| "sess_step sm (bump_lifecycle sm)"

definition sess_reach :: "session_manager \<Rightarrow> bool" where
  "sess_reach sm \<longleftrightarrow> (\<exists>db ip. sess_step\<^sup>*\<^sup>* (new_session_manager db ip) sm)"

lemma sess_step_inv: "sess_step sm sm' \<Longrightarrow> sess_inv sm \<Longrightarrow> sess_inv sm'"
proof (induction rule: sess_step.induct)
  case (12 sm)
  then show ?case by (simp add: sess_inv_def set_replacement_hook_def)
qed (simp_all add: inv_intros)

lemma sess_reach_inv: "sess_reach sm \<Longrightarrow> sess_inv sm"
proof -
  have "sess_step\<^sup>*\<^sup>* sm0 sm \<Longrightarrow> sess_inv sm0 \<Longrightarrow> sess_inv sm" for sm0
    by (induction rule: rtranclp_induct) (auto intro: sess_step_inv)
  then show "sess_reach sm \<Longrightarrow> ?thesis" unfolding sess_reach_def using new_session_manager_inv by blast
qed

section \<open>Properties\<close>

text \<open>
  C2: in every reachable state (fresh identifiers) the active counter is the number of sessions,
  the peer index and the identifier index lead to the same objects, and there is one session per
  peer.
\<close>

theorem session_indexes_agree:
  assumes "sess_reach sm"
  shows "active_count sm = int (go_len (sessions_by_id sm)) \<and> go_len (sessions_by_peer sm) = go_len (sessions_by_id sm) \<and>
         (\<forall>i s. session_snapshot_by_id sm i = Some s \<longrightarrow> sess_id s = i \<and> session_snapshot_by_peer sm (sess_peer s) = Some s) \<and>
         (\<forall>k s. session_snapshot_by_peer sm k = Some s \<longrightarrow> sess_peer s = k \<and> session_snapshot_by_id sm (sess_id s) = Some s)"
proof -
  have i: "sess_inv sm" using assms by (rule sess_reach_inv)
  have "active_count sm = int (go_len (sessions_by_id sm))" "go_len (sessions_by_peer sm) = go_len (sessions_by_id sm)"
    using maps_okD(3,4) i unfolding sess_inv_def by blast+
  moreover have "sess_id s = j \<and> session_snapshot_by_peer sm (sess_peer s) = Some s"
    if h: "session_snapshot_by_id sm j = Some s" for j s
  proof -
    obtain a where "id_session sm j = Some (a, s)" using h by (auto simp: session_snapshot_by_id_def)
    from id_sessionD [OF i this] show ?thesis by (simp add: session_snapshot_by_peer_def peer_session_def)
  qed
  moreover have "sess_peer s = k \<and> session_snapshot_by_id sm (sess_id s) = Some s"
    if h: "session_snapshot_by_peer sm k = Some s" for k s
  proof -
    obtain a where "peer_session sm k = Some (a, s)" using h by (auto simp: session_snapshot_by_peer_def)
    from peer_sessionD [OF i this] show ?thesis by (simp add: session_snapshot_by_id_def id_session_def)
  qed
  ultimately show ?thesis by blast
qed

lemma remove_replaced_fields [simp]:
  "sm_db (remove_replaced env k s sm) = sm_db sm" "next_addr (remove_replaced env k s sm) = next_addr sm"
  "objects (remove_replaced env k s sm) = objects sm" "replacement_hook (remove_replaced env k s sm) = replacement_hook sm"
  "sessions_by_id (remove_replaced env k s sm) = fmdrop (sess_id s) (sessions_by_id sm)"
  "sessions_by_peer (remove_replaced env k s sm) = fmdrop k (sessions_by_peer sm)"
  "active_count (remove_replaced env k s sm) = active_count sm - 1"
  by (simp_all add: remove_replaced_def Let_def)

definition valid_args :: "create_args \<Rightarrow> bool" where
  "valid_args c \<longleftrightarrow> c_user c \<noteq> [] \<and> c_peer c \<noteq> [] \<and> c_ip c \<noteq> []"

text \<open>
  A replacement is complete: creating a session for a peer that has one leaves exactly the new
  session for the peer, the old identifier resolves to nothing, the count is unchanged, and when a
  hook is registered it is called once with the old and the new session and the returned delta
  names both backends.
\<close>

theorem replacement_complete:
  assumes "sess_reach sm" "fresh_id env sm" "session_snapshot_by_peer sm (c_peer c) = Some old"
    and "valid_args c" "sm_db sm \<longrightarrow> e_create_ok env" "replacement_hook sm"
  shows "\<exists>sm' a. create_session env c sm =
           (sm', Inr (a, \<lparr>replaced = True, dec_backend = sess_backend old, inc_backend = c_backend c,
                          has_inc = (c_backend c \<noteq> sess_backend old)\<rparr>), [(old, fresh_session env c)]) \<and>
           session_snapshot_by_peer sm' (c_peer c) = Some (fresh_session env c) \<and>
           session_snapshot_by_id sm' (sess_id old) = None \<and> active_count sm' = active_count sm"
proof -
  have i: "sess_inv sm" using assms(1) by (rule sess_reach_inv)
  obtain a where o: "peer_session sm (c_peer c) = Some (a, old)"
    using assms(3) by (auto simp: session_snapshot_by_peer_def)
  have "sess_id old \<noteq> session_uuid (e_random env)"
    using assms(2) peer_sessionD(3) [OF i o] by (auto simp: fresh_id_def)
  then show ?thesis
    using o assms(4-6)
    by (simp add: create_session_def valid_args_def create_session_locked_def Let_def session_snapshot_by_peer_def
        peer_session_def session_snapshot_by_id_def id_session_def fresh_session_def)
qed

text \<open>
  When the replacement row cannot be written, the peer loses its session: the old one is gone
  from both indexes, the count drops by one, the error is returned and no hook is called.
\<close>

theorem failed_replacement_loses_session:
  assumes "sess_reach sm" "session_snapshot_by_peer sm (c_peer c) = Some old"
    and "valid_args c" "sm_db sm" "\<not> e_create_ok env"
  shows "\<exists>sm'. create_session env c sm = (sm', Inl PersistError, []) \<and>
           session_snapshot_by_peer sm' (c_peer c) = None \<and> session_snapshot_by_id sm' (sess_id old) = None \<and>
           active_count sm' = active_count sm - 1"
proof -
  obtain a where "peer_session sm (c_peer c) = Some (a, old)"
    using assms(2) by (auto simp: session_snapshot_by_peer_def)
  then show ?thesis
    using assms(3-5)
    by (simp add: create_session_def valid_args_def create_session_locked_def Let_def session_snapshot_by_peer_def
        peer_session_def session_snapshot_by_id_def id_session_def)
qed

text \<open>
  The idle sweep ends exactly the sessions idle for longer than the limit, whatever order the
  map is walked in: every other session is left untouched, and the count falls by the number of
  sessions reported.
\<close>

theorem idle_sweep_exact:
  assumes "sess_reach sm" "range_order ord" "0 < idle"
  shows "session_snapshot_by_id (fst (check_timeouts ord c now idle sm)) i =
           (case session_snapshot_by_id sm i of None \<Rightarrow> None
            | Some s \<Rightarrow> if idle < time_sub now (sess_last_seen s) then None else Some s) \<and>
         active_count (fst (check_timeouts ord c now idle sm)) =
           active_count sm - int (length (snd (check_timeouts ord c now idle sm)))"
  using check_timeouts_spec [OF sess_reach_inv [OF assms(1)] assms(2,3), of c now]
  by (auto simp: session_snapshot_by_id_def split: option.split)

text \<open>
  Generations are fenced: an advance is accepted exactly for the live, connected session with the
  given identifier and user and a strictly larger generation; it then changes that field only, and
  asking again with the same generation is refused.
\<close>

theorem generation_fence:
  assumes "sess_reach sm"
  shows "(\<exists>s. session_snapshot_by_peer sm k = Some s \<and> sess_id s = i \<and> sess_user s = u \<and> sess_status s = ''connected'' \<and>
            sess_generation s < g \<and>
            session_snapshot_by_peer (fst (advance_live_session_generation k i u g sm)) k = Some (s\<lparr>sess_generation := g\<rparr>) \<and>
            snd (advance_live_session_generation k i u g (fst (advance_live_session_generation k i u g sm))) = None) \<or>
         advance_live_session_generation k i u g sm = (sm, None)"
proof (cases "peer_session sm k")
  case None
  then show ?thesis by (simp add: advance_live_session_generation_def)
next
  case (Some x)
  then obtain a s where x: "peer_session sm k = Some (a, s)" by (cases x) simp
  then have l: "fmlookup (sessions_by_peer sm) k = Some a" by (auto simp: peer_session_def split: option.splits)
  show ?thesis
  proof (cases "sess_id s \<noteq> i \<or> sess_user s \<noteq> u \<or> sess_status s \<noteq> ''connected'' \<or> g \<le> sess_generation s")
    case True
    then show ?thesis using x by (simp add: advance_live_session_generation_def)
  next
    case False
    let ?sm = "write_object a (s\<lparr>sess_generation := g\<rparr>) sm"
    have r: "advance_live_session_generation k i u g sm = (?sm, Some (s\<lparr>sess_generation := g\<rparr>))"
      using x False by (simp add: advance_live_session_generation_def Let_def)
    have p: "peer_session ?sm k = Some (a, s\<lparr>sess_generation := g\<rparr>)" using l by (simp add: peer_session_def)
    have "snd (advance_live_session_generation k i u g ?sm) = None"
      using p by (simp add: advance_live_session_generation_def)
    then show ?thesis using r p x False by (auto simp: session_snapshot_by_peer_def not_le)
  qed
qed

text \<open>
  Closing a session frees the peer's address lease unless the database says the very address is
  its durable assignment, or the question could not be answered; no other peer's lease changes, and
  the session is gone from both indexes.
\<close>

theorem close_releases_temporary_lease:
  assumes "sess_reach sm" "session_snapshot_by_id sm i = Some s" "sm_ipam sm = Some ip"
    and "close_session now answer i st sm = (sm', r)"
  shows "r = Inr () \<and> session_snapshot_by_id sm' i = None \<and> session_snapshot_by_peer sm' (sess_peer s) = None \<and>
         (\<exists>ip'. sm_ipam sm' = Some ip' \<and>
            get_assigned_ip ip' =
              (if sm_db sm \<and> (answer = QueryFailed \<or>
                    (\<exists>a. get_assigned_ip ip (sess_peer s) = Some a \<and> answer = Connection (Some (ip_string a))))
               then get_assigned_ip ip else (get_assigned_ip ip)(sess_peer s := None)))"
proof -
  have inv: "sess_inv sm" using assms(1) by (rule sess_reach_inv)
  obtain a where a: "id_session sm i = Some (a, s)" using assms(2) by (auto simp: session_snapshot_by_id_def)
  let ?s = "s\<lparr>sess_status := (if st = [] then ''disconnected'' else st), sess_last_seen := now\<rparr>"
  let ?rel = "release_unpersisted_lease answer (sess_peer s) (write_object a ?s sm)"
  have sm': "sm' = bump_lifecycle (forget_session ?s ?rel)" and r: "r = Inr ()"
    using assms(4) close_session_eq [OF inv a, of now answer st] by (simp_all add: Let_def)
  have ipam: "sm_ipam sm' = sm_ipam ?rel" by (simp add: sm' bump_lifecycle_def forget_session_def)
  have "\<exists>ip'. sm_ipam ?rel = Some ip' \<and> get_assigned_ip ip' =
      (if sm_db sm \<and> (answer = QueryFailed \<or>
           (\<exists>a. get_assigned_ip ip (sess_peer s) = Some a \<and> answer = Connection (Some (ip_string a))))
       then get_assigned_ip ip else (get_assigned_ip ip)(sess_peer s := None))"
    using assms(3) release_lease [of ip "sess_peer s"]
    by (auto simp: release_unpersisted_lease_def Let_def split: conn_answer.split option.split)
  then show ?thesis unfolding ipam
    using r id_sessionD(2) [OF inv a]
    by (simp add: sm' session_snapshot_by_id_def id_session_def session_snapshot_by_peer_def peer_session_def bump_lifecycle_def)
qed

text \<open>
  Rolling a backend change back restores the session: after \<open>UpdateSessionBackend\<close>, passing the
  returned backend and status to \<open>RollbackSessionBackend\<close> gives the session its former value, in
  both indexes.
\<close>

theorem backend_rollback_restores:
  assumes "sess_reach sm" "session_snapshot_by_id sm i = Some s" "sess_status s \<noteq> []"
    and "update_session_backend i b st sm = (sm1, Inr (oldB, peer, oldSt))"
  shows "session_snapshot_by_id sm1 i = Some (s\<lparr>sess_backend := b, sess_status := (if st \<noteq> [] then st else sess_status s)\<rparr>) \<and>
         session_snapshot_by_id (fst (rollback_session_backend i oldB oldSt sm1)) i = Some s \<and>
         session_snapshot_by_peer (fst (rollback_session_backend i oldB oldSt sm1)) peer = Some s"
proof -
  have inv: "sess_inv sm" using assms(1) by (rule sess_reach_inv)
  obtain a where a: "id_session sm i = Some (a, s)" using assms(2) by (auto simp: session_snapshot_by_id_def)
  then have l: "fmlookup (sessions_by_id sm) i = Some a" by (auto simp: id_session_def split: option.splits)
  show ?thesis
    using assms(3,4) a l id_sessionD(4) [OF inv a]
    by (auto simp: update_session_backend_def rollback_session_backend_def session_snapshot_by_id_def
        session_snapshot_by_peer_def id_session_def peer_session_def bump_lifecycle_def Let_def)
qed

section \<open>Witnesses\<close>

definition demo_env :: create_env where
  "demo_env = \<lparr>e_now = 100, e_random = replicate 16 0, e_close_ok = True, e_create_ok = True\<rparr>"

definition demo_args :: create_args where
  "demo_args = \<lparr>c_user = ''u'', c_peer = ''alice'', c_ip = ''10.8.0.2'', c_backend = 7, c_name = ''n'',
     c_source = admission_ingress, c_gen = 1\<rparr>"

definition demo_sm0 :: session_manager where
  "demo_sm0 = set_replacement_hook (new_session_manager True (Some pool_29_alice))"

definition demo_sm :: session_manager where
  "demo_sm = fst (create_session demo_env demo_args demo_sm0)"

definition demo_env2 :: create_env where
  "demo_env2 = demo_env\<lparr>e_random := replicate 16 1\<rparr>"

lemma demo_sm_eq:
  "demo_sm = demo_sm0\<lparr>objects := fmupd 0 (fresh_session demo_env demo_args) fmempty, next_addr := 1,
     sessions_by_peer := fmupd ''alice'' 0 fmempty,
     sessions_by_id := fmupd (session_uuid (replicate 16 0)) 0 fmempty, active_count := 1, lifecycle_version := 1\<rparr>"
  by (simp add: demo_sm_def create_session_def create_session_locked_def demo_args_def demo_env_def demo_sm0_def
      set_replacement_hook_def new_session_manager_def peer_session_def Let_def fresh_session_def)

lemma demo_sm_reach: "sess_reach demo_sm"
proof -
  have 1: "sess_step (new_session_manager True (Some pool_29_alice)) demo_sm0"
    unfolding demo_sm0_def by (rule sess_step.intros)
  have "sess_step demo_sm0 demo_sm" unfolding demo_sm_def
    by (rule sess_step.intros(1)) (simp add: fresh_id_def demo_sm0_def set_replacement_hook_def new_session_manager_def)
  with 1 show ?thesis unfolding sess_reach_def by (meson r_into_rtranclp rtranclp.rtrancl_into_rtrancl)
qed

lemma demo_by_peer: "session_snapshot_by_peer demo_sm ''alice'' = Some (fresh_session demo_env demo_args)"
  by (simp add: demo_sm_eq session_snapshot_by_peer_def peer_session_def)

lemma demo_by_id: "session_snapshot_by_id demo_sm (session_uuid (replicate 16 0)) = Some (fresh_session demo_env demo_args)"
  by (simp add: demo_sm_eq session_snapshot_by_id_def id_session_def)

lemma demo_fresh: "fresh_id demo_env2 demo_sm"
proof -
  have "session_uuid (replicate 16 1) \<noteq> session_uuid (replicate 16 0)" by code_simp
  then show ?thesis by (simp add: fresh_id_def demo_env2_def demo_sm_eq)
qed

theorem session_indexes_agree_witness: "active_count demo_sm = 1 \<and> go_len (sessions_by_peer demo_sm) = 1"
  using session_indexes_agree [OF demo_sm_reach] by (simp add: demo_sm_eq)

theorem replacement_complete_witness:
  "\<exists>sm' a d. create_session demo_env2 demo_args demo_sm =
     (sm', Inr (a, d), [(fresh_session demo_env demo_args, fresh_session demo_env2 demo_args)])"
  using replacement_complete [OF demo_sm_reach demo_fresh, of demo_args] demo_by_peer
  by (auto simp: demo_args_def valid_args_def demo_env2_def demo_env_def demo_sm_eq demo_sm0_def set_replacement_hook_def)

theorem failed_replacement_loses_session_witness:
  "\<exists>sm'. create_session (demo_env2\<lparr>e_create_ok := False\<rparr>) demo_args demo_sm = (sm', Inl PersistError, []) \<and>
     session_snapshot_by_peer sm' ''alice'' = None"
proof -
  have "session_snapshot_by_peer demo_sm (c_peer demo_args) = Some (fresh_session demo_env demo_args)"
    using demo_by_peer by (simp add: demo_args_def)
  moreover have "valid_args demo_args" "sm_db demo_sm" "\<not> e_create_ok (demo_env2\<lparr>e_create_ok := False\<rparr>)"
    "c_peer demo_args = ''alice''"
    by (simp_all add: demo_args_def valid_args_def demo_sm_eq demo_sm0_def set_replacement_hook_def new_session_manager_def)
  ultimately show ?thesis using failed_replacement_loses_session [OF demo_sm_reach] by metis
qed

theorem idle_sweep_exact_witness:
  "session_snapshot_by_id (fst (check_timeouts sorted_list_of_fset (\<lambda>_. NoConnection) 1000 60 demo_sm))
     (session_uuid (replicate 16 0)) = None"
  using idle_sweep_exact [OF demo_sm_reach range_order_sorted, of 60 "\<lambda>_. NoConnection" 1000 "session_uuid (replicate 16 0)"]
  by (simp add: demo_by_id fresh_session_def demo_env_def time_defs)

theorem generation_fence_witness:
  "advance_live_session_generation ''alice'' (session_uuid (replicate 16 0)) ''u'' 1 demo_sm = (demo_sm, None)"
  using generation_fence [OF demo_sm_reach, of "''alice''" "session_uuid (replicate 16 0)" "''u''" 1]
  by (auto simp: demo_by_peer fresh_session_def demo_env_def demo_args_def)

theorem close_releases_temporary_lease_witness:
  "\<exists>sm' ip'. close_session 5 NoConnection (session_uuid (replicate 16 0)) [] demo_sm = (sm', Inr ()) \<and>
     sm_ipam sm' = Some ip' \<and> get_assigned_ip ip' ''alice'' = None"
proof -
  obtain sm' r where c: "close_session 5 NoConnection (session_uuid (replicate 16 0)) [] demo_sm = (sm', r)" by fastforce
  have ip: "sm_ipam demo_sm = Some pool_29_alice"
    by (simp add: demo_sm_eq demo_sm0_def set_replacement_hook_def new_session_manager_def)
  show ?thesis using close_releases_temporary_lease [OF demo_sm_reach demo_by_id ip c] c
    by (auto simp: fresh_session_def demo_args_def)
qed

theorem backend_rollback_restores_witness:
  "\<exists>sm1 oldB peer oldSt. update_session_backend (session_uuid (replicate 16 0)) 8 [] demo_sm = (sm1, Inr (oldB, peer, oldSt)) \<and>
     session_snapshot_by_id (fst (rollback_session_backend (session_uuid (replicate 16 0)) oldB oldSt sm1))
       (session_uuid (replicate 16 0)) = Some (fresh_session demo_env demo_args)"
proof -
  let ?i = "session_uuid (replicate 16 0)"
  obtain a where a: "id_session demo_sm ?i = Some (a, fresh_session demo_env demo_args)"
    using demo_by_id by (auto simp: session_snapshot_by_id_def)
  then obtain sm1 oldB peer oldSt where u: "update_session_backend ?i 8 [] demo_sm = (sm1, Inr (oldB, peer, oldSt))"
    by (simp add: update_session_backend_def Let_def)
  have "sess_status (fresh_session demo_env demo_args) \<noteq> []" by (simp add: fresh_session_def)
  from backend_rollback_restores [OF demo_sm_reach demo_by_id this u] show ?thesis using u by blast
qed

end
