(* ===== verification/Traffic_Window.thy ===== *)
theory Traffic_Window
  imports Nexus_Prelude "HOL-Library.Signed_Division"
begin

text \<open>
  The measuring instruments of the packet forwarder (\<^verbatim>\<open>internal/vpn/forwarder\<close>): the generation-aware
  samplers over cumulative counters (\<^verbatim>\<open>generation.go\<close>, \<^verbatim>\<open>traffic_telemetry.go\<close>), the pressure window of a
  route (\<^verbatim>\<open>route_pressure.go\<close>), the dwell tracker of the aggregate queue (\<^verbatim>\<open>queue_dwell.go\<close>) and the token
  bucket (\<^verbatim>\<open>queues.go\<close>). Each reads the clock once; the instant is an argument. The mutexes make every
  operation one step.
\<close>

section \<open>Floating point\<close>

text \<open>
  HOL has no IEEE doubles. The operations the code uses are fields of a record, so every definition
  says which roundings happen and in which order; a theorem that needs a law of the arithmetic
  states it. The rationals are the instance with exact arithmetic.
\<close>

record 'f f64 =
  f_const :: "rat \<Rightarrow> 'f"
  f_of_int :: "int \<Rightarrow> 'f"
  f_add :: "'f \<Rightarrow> 'f \<Rightarrow> 'f"
  f_sub :: "'f \<Rightarrow> 'f \<Rightarrow> 'f"
  f_mul :: "'f \<Rightarrow> 'f \<Rightarrow> 'f"
  f_div :: "'f \<Rightarrow> 'f \<Rightarrow> 'f"
  f_le :: "'f \<Rightarrow> 'f \<Rightarrow> bool"
  f_lt :: "'f \<Rightarrow> 'f \<Rightarrow> bool"

definition rat_f64 :: "rat f64" where
  "rat_f64 = \<lparr>f_const = id, f_of_int = of_int, f_add = (+), f_sub = (-), f_mul = (*), f_div = (/),
              f_le = (\<le>), f_lt = (<)\<rparr>"

lemma rat_f64_simps [simp]:
  "f_const rat_f64 = id" "f_of_int rat_f64 = of_int" "f_add rat_f64 = (+)" "f_sub rat_f64 = (-)"
  "f_mul rat_f64 = (*)" "f_div rat_f64 = (/)" "f_le rat_f64 = (\<le>)" "f_lt rat_f64 = (<)"
  by (simp_all add: rat_f64_def)

text \<open>\<open>Duration.Seconds\<close>: whole seconds plus the remaining nanoseconds over 1e9.\<close>

definition seconds :: "'f f64 \<Rightarrow> duration \<Rightarrow> 'f" where
  "seconds F d =
     f_add F (f_of_int F (d sdiv second)) (f_div F (f_of_int F (d smod second)) (f_const F 1000000000))"

lemma seconds_rat: "seconds rat_f64 d = of_int d / 1000000000"
proof -
  have "d sdiv 1000000000 * 1000000000 + d smod 1000000000 = d" by (rule sdiv_mult_smod_eq)
  then have "rat_of_int (d sdiv 1000000000) * 1000000000 + rat_of_int (d smod 1000000000) = rat_of_int d"
    by (metis of_int_add of_int_mult of_int_numeral)
  then show ?thesis by (simp add: seconds_def second_def add_frac_eq divide_simps)
qed

section \<open>The generation-aware sampler\<close>

type_synonym generation = "64 word"

definition generation_sample_min_interval :: duration where
  "generation_sample_min_interval = 200 * millisecond"

record gen_sampler =
  gs_gen :: generation
  gs_primed :: bool
  gs_at :: time
  gs_values :: "64 word list"

definition new_generation_sampler :: "int \<Rightarrow> gen_sampler" where
  "new_generation_sampler counters =
     \<lparr>gs_gen = 0, gs_primed = False, gs_at = 0,
      gs_values = replicate (nat (if counters < 0 then 0 else counters)) 0\<rparr>"

text \<open>The answer is the deltas and the elapsed seconds of an accepted observation.\<close>

definition sample ::
    "'f f64 \<Rightarrow> generation \<Rightarrow> time \<Rightarrow> duration \<Rightarrow> 64 word list \<Rightarrow> gen_sampler \<Rightarrow> gen_sampler \<times> (64 word list \<times> 'f) option" where
  "sample F gen now minInterval values w0 =
     (if values = [] then (w0, None)
      else
        let w = (if length (gs_values w0) \<noteq> length values
                 then w0\<lparr>gs_values := replicate (length values) 0, gs_primed := False\<rparr> else w0)
        in if gen < gs_gen w then (w, None)
           else if gs_gen w < gen \<or> \<not> gs_primed w
           then (w\<lparr>gs_gen := gen, gs_primed := True, gs_at := now, gs_values := values\<rparr>, None)
           else let elapsed = seconds F (time_sub now (gs_at w))
                in if f_lt F elapsed (seconds F minInterval) then (w, None)
                   else if list_ex (\<lambda>(v, b). v < b) (zip values (gs_values w)) then (w, None)
                   else (w\<lparr>gs_values := values, gs_at := now\<rparr>,
                         Some (map (\<lambda>(v, b). v - b) (zip values (gs_values w)), elapsed)))"

definition sample_counter ::
    "'f f64 \<Rightarrow> generation \<Rightarrow> time \<Rightarrow> duration \<Rightarrow> 64 word \<Rightarrow> gen_sampler \<Rightarrow> gen_sampler \<times> (64 word \<times> 'f) option" where
  "sample_counter F gen now minInterval value w =
     (if gen < gs_gen w then (w, None)
      else if gs_gen w < gen \<or> \<not> gs_primed w \<or> length (gs_values w) \<noteq> 1
      then (w\<lparr>gs_gen := gen, gs_primed := True, gs_at := now, gs_values := [value]\<rparr>, None)
      else let elapsed = seconds F (time_sub now (gs_at w))
           in if f_lt F elapsed (seconds F minInterval) then (w, None)
              else if value < hd (gs_values w) then (w, None)
              else (w\<lparr>gs_values := [value], gs_at := now\<rparr>, Some (value - hd (gs_values w), elapsed)))"

definition reset_sampler :: "generation \<Rightarrow> gen_sampler \<Rightarrow> gen_sampler" where
  "reset_sampler gen w =
     (if gen < gs_gen w then w
      else w\<lparr>gs_gen := (if gs_gen w < gen then gen else gs_gen w), gs_primed := False, gs_at := 0, gs_values := []\<rparr>)"

definition baseline :: "int \<Rightarrow> gen_sampler \<Rightarrow> 64 word \<times> time \<times> bool \<times> generation" where
  "baseline i w =
     (if i < 0 \<or> int (length (gs_values w)) \<le> i then (0, 0, gs_primed w, gs_gen w)
      else (gs_values w ! nat i, gs_at w, gs_primed w, gs_gen w))"

text \<open>\<open>counterUint64\<close> clamps a negative signed counter to 0.\<close>

definition counter_uint64 :: "64 word \<Rightarrow> 64 word" where
  "counter_uint64 v = (if v <s 0 then 0 else v)"

section \<open>The traffic window of a backend\<close>

record 'f traffic_snapshot =
  ts_rx_bytes :: "64 word"
  ts_tx_bytes :: "64 word"
  ts_rx_packets :: "64 word"
  ts_tx_packets :: "64 word"
  ts_rx_rate :: 'f
  ts_tx_rate :: 'f
  ts_rx_pps :: 'f
  ts_tx_pps :: 'f
  ts_available :: bool
  ts_window :: 'f

definition empty_snapshot :: "'f f64 \<Rightarrow> 'f traffic_snapshot" where
  "empty_snapshot F =
     (let z = f_const F 0
      in \<lparr>ts_rx_bytes = 0, ts_tx_bytes = 0, ts_rx_packets = 0, ts_tx_packets = 0, ts_rx_rate = z, ts_tx_rate = z,
          ts_rx_pps = z, ts_tx_pps = z, ts_available = False, ts_window = z\<rparr>)"

record 'f traffic_window =
  tw_gen :: generation
  tw_primed :: bool
  tw_at :: time
  tw_rx_bytes :: "64 word"
  tw_tx_bytes :: "64 word"
  tw_rx_packets :: "64 word"
  tw_tx_packets :: "64 word"
  tw_current :: "'f traffic_snapshot"

definition empty_window :: "'f f64 \<Rightarrow> 'f traffic_window" where
  "empty_window F = \<lparr>tw_gen = 0, tw_primed = False, tw_at = 0, tw_rx_bytes = 0, tw_tx_bytes = 0,
     tw_rx_packets = 0, tw_tx_packets = 0, tw_current = empty_snapshot F\<rparr>"

definition u2f :: "'f f64 \<Rightarrow> 64 word \<Rightarrow> 'f" where
  "u2f F w = f_of_int F (uint w)"

definition window_observe ::
    "'f f64 \<Rightarrow> generation \<Rightarrow> time \<Rightarrow> 'f traffic_snapshot \<Rightarrow> 'f traffic_window \<Rightarrow> 'f traffic_window \<times> 'f option" where
  "window_observe F gen now totals w =
     (let rxU = counter_uint64 (ts_rx_bytes totals); txU = counter_uint64 (ts_tx_bytes totals)
      in if gen < tw_gen w then (w, None)
         else if tw_gen w < gen \<or> \<not> tw_primed w
         then (w\<lparr>tw_gen := gen, tw_primed := True, tw_at := now, tw_rx_bytes := rxU, tw_tx_bytes := txU,
                 tw_rx_packets := ts_rx_packets totals, tw_tx_packets := ts_tx_packets totals\<rparr>, None)
         else let elapsed = seconds F (time_sub now (tw_at w))
              in if f_lt F elapsed (f_const F (1 / 5)) then (w, None)
                 else if rxU < tw_rx_bytes w \<or> txU < tw_tx_bytes w \<or> ts_rx_packets totals < tw_rx_packets w \<or>
                         ts_tx_packets totals < tw_tx_packets w then (w, None)
                 else (w\<lparr>tw_rx_bytes := rxU, tw_tx_bytes := txU, tw_rx_packets := ts_rx_packets totals,
                         tw_tx_packets := ts_tx_packets totals, tw_at := now,
                         tw_current := (empty_snapshot F)
                           \<lparr>ts_rx_rate := f_div F (u2f F (rxU - tw_rx_bytes w)) elapsed,
                            ts_tx_rate := f_div F (u2f F (txU - tw_tx_bytes w)) elapsed,
                            ts_rx_pps := f_div F (u2f F (ts_rx_packets totals - tw_rx_packets w)) elapsed,
                            ts_tx_pps := f_div F (u2f F (ts_tx_packets totals - tw_tx_packets w)) elapsed,
                            ts_available := True, ts_window := elapsed\<rparr>\<rparr>, Some elapsed))"

definition window_reset :: "'f f64 \<Rightarrow> generation \<Rightarrow> 'f traffic_window \<Rightarrow> 'f traffic_window" where
  "window_reset F gen w =
     (if gen < tw_gen w then w
      else (empty_window F)\<lparr>tw_gen := (if tw_gen w < gen then gen else tw_gen w)\<rparr>)"

section \<open>Traffic counters\<close>

record 'f traffic_counters =
  tc_rx_bytes :: "64 word"
  tc_tx_bytes :: "64 word"
  tc_rx_packets :: "64 word"
  tc_tx_packets :: "64 word"
  tc_last :: int
  tc_foreground :: "'f traffic_window"
  tc_history :: "'f traffic_window"

definition new_traffic_counters :: "'f f64 \<Rightarrow> 'f traffic_counters" where
  "new_traffic_counters F = \<lparr>tc_rx_bytes = 0, tc_tx_bytes = 0, tc_rx_packets = 0, tc_tx_packets = 0, tc_last = 0,
     tc_foreground = empty_window F, tc_history = empty_window F\<rparr>"

text \<open>The clock reading is in nanoseconds of the Unix epoch.\<close>

definition record_traffic :: "64 word \<Rightarrow> bool \<Rightarrow> int \<Rightarrow> 'f traffic_counters \<Rightarrow> 'f traffic_counters" where
  "record_traffic n rx nowNs c =
     (let c1 = (if rx then c\<lparr>tc_rx_bytes := tc_rx_bytes c + n, tc_rx_packets := tc_rx_packets c + 1\<rparr>
                else c\<lparr>tc_tx_bytes := tc_tx_bytes c + n, tc_tx_packets := tc_tx_packets c + 1\<rparr>)
      in if tc_last c1 < nowNs then c1\<lparr>tc_last := nowNs\<rparr> else c1)"

definition counter_totals :: "'f f64 \<Rightarrow> 'f traffic_counters \<Rightarrow> 'f traffic_snapshot" where
  "counter_totals F c = (empty_snapshot F)
     \<lparr>ts_rx_bytes := tc_rx_bytes c, ts_tx_bytes := tc_tx_bytes c, ts_rx_packets := tc_rx_packets c,
      ts_tx_packets := tc_tx_packets c\<rparr>"

definition with_rates :: "'f traffic_snapshot \<Rightarrow> 'f traffic_snapshot \<Rightarrow> 'f traffic_snapshot" where
  "with_rates totals cur = totals\<lparr>ts_rx_rate := ts_rx_rate cur, ts_tx_rate := ts_tx_rate cur, ts_rx_pps := ts_rx_pps cur,
     ts_tx_pps := ts_tx_pps cur, ts_available := ts_available cur, ts_window := ts_window cur\<rparr>"

text \<open>A nil counter set answers the empty snapshot.\<close>

definition traffic_snapshot_of ::
    "'f f64 \<Rightarrow> time \<Rightarrow> 'f traffic_counters option \<Rightarrow> 'f traffic_counters option \<times> 'f traffic_snapshot" where
  "traffic_snapshot_of F now c0 =
     (case c0 of
        None \<Rightarrow> (None, empty_snapshot F)
      | Some c \<Rightarrow>
          let totals = counter_totals F c;
              fg = fst (window_observe F 0 now totals (tc_foreground c))
          in (Some (c\<lparr>tc_foreground := fg\<rparr>), with_rates totals (tw_current fg)))"

definition history_snapshot ::
    "'f f64 \<Rightarrow> time \<Rightarrow> generation \<Rightarrow> 'f traffic_counters option \<Rightarrow> 'f traffic_counters option \<times> 'f traffic_snapshot" where
  "history_snapshot F now gen c0 =
     (case c0 of
        None \<Rightarrow> (None, empty_snapshot F)
      | Some c \<Rightarrow>
          let totals = counter_totals F c;
              h = fst (window_observe F gen now totals (tc_history c))
          in (Some (c\<lparr>tc_history := h\<rparr>), with_rates totals (tw_current h)))"

definition prime_history :: "'f f64 \<Rightarrow> time \<Rightarrow> generation \<Rightarrow> 'f traffic_counters option \<Rightarrow> 'f traffic_counters option" where
  "prime_history F now gen c0 =
     map_option (\<lambda>c. c\<lparr>tc_history := fst (window_observe F gen now (counter_totals F c) (tc_history c))\<rparr>) c0"

definition reset_history :: "'f f64 \<Rightarrow> generation \<Rightarrow> time \<Rightarrow> 'f traffic_counters \<Rightarrow> 'f traffic_counters" where
  "reset_history F gen now c =
     c\<lparr>tc_history := fst (window_observe F gen now (counter_totals F c) (window_reset F gen (tc_history c)))\<rparr>"

text \<open>\<open>now\<close> and the recorded instant are both Unix nanoseconds here; a Duration division truncates.\<close>

definition last_traffic_age :: "int \<Rightarrow> 'f traffic_counters \<Rightarrow> int" where
  "last_traffic_age nowNs c =
     (if tc_last c = 0 then -1
      else let age = time_sub nowNs (tc_last c) sdiv second in if age < 0 then 0 else age)"

section \<open>The pressure window of a route\<close>

definition route_pressure_sample_interval :: duration where
  "route_pressure_sample_interval = 200 * millisecond"

record 'f pressure_snapshot =
  ps_drops :: "64 word"
  ps_errors :: "64 word"
  ps_stalls :: "64 word"
  ps_drop_rate :: 'f
  ps_elapsed :: 'f

record 'f pressure_window =
  pw_primed :: bool
  pw_last_drops :: "64 word"
  pw_last_errors :: "64 word"
  pw_last_stalls :: "64 word"
  pw_last_at :: time
  pw_drops :: "64 word"
  pw_errors :: "64 word"
  pw_stalls :: "64 word"
  pw_drop_rate :: 'f
  pw_elapsed :: 'f

definition new_pressure_window :: "'f f64 \<Rightarrow> 'f pressure_window" where
  "new_pressure_window F = \<lparr>pw_primed = False, pw_last_drops = 0, pw_last_errors = 0, pw_last_stalls = 0,
     pw_last_at = 0, pw_drops = 0, pw_errors = 0, pw_stalls = 0, pw_drop_rate = f_const F 0, pw_elapsed = f_const F 0\<rparr>"

definition pressure_view :: "'f pressure_window \<Rightarrow> 'f pressure_snapshot" where
  "pressure_view w = \<lparr>ps_drops = pw_drops w, ps_errors = pw_errors w, ps_stalls = pw_stalls w,
     ps_drop_rate = pw_drop_rate w, ps_elapsed = pw_elapsed w\<rparr>"

definition growth :: "64 word \<Rightarrow> 64 word \<Rightarrow> 64 word" where
  "growth new old = (if old \<le> new then new - old else 0)"

definition pressure_sample ::
    "'f f64 \<Rightarrow> time \<Rightarrow> 64 word \<Rightarrow> 64 word \<Rightarrow> 64 word \<Rightarrow> 'f pressure_window \<Rightarrow> 'f pressure_window \<times> 'f pressure_snapshot" where
  "pressure_sample F now drops errors stalls w =
     (if \<not> pw_primed w
      then let w' = (new_pressure_window F)\<lparr>pw_primed := True, pw_last_drops := drops, pw_last_errors := errors,
                       pw_last_stalls := stalls, pw_last_at := now\<rparr>
           in (w', pressure_view w')
      else if time_sub now (pw_last_at w) < route_pressure_sample_interval then (w, pressure_view w)
      else let elapsed = seconds F (time_sub now (pw_last_at w));
               d = growth drops (pw_last_drops w);
               rate = (if 0 < d \<and> f_lt F (f_const F 0) elapsed then f_div F (u2f F d) elapsed else f_const F 0);
               w' = w\<lparr>pw_drops := d, pw_errors := growth errors (pw_last_errors w),
                      pw_stalls := growth stalls (pw_last_stalls w), pw_last_drops := drops, pw_last_errors := errors,
                      pw_last_stalls := stalls, pw_last_at := now, pw_drop_rate := rate, pw_elapsed := elapsed\<rparr>
           in (w', pressure_view w'))"

section \<open>Dwell of the aggregate queue\<close>

record queue_dwell =
  qd_last :: time
  qd_above50 :: bool
  qd_above80 :: bool
  qd_since50 :: time
  qd_since80 :: time
  qd_total50 :: duration
  qd_total80 :: duration

definition new_queue_dwell :: queue_dwell where
  "new_queue_dwell = \<lparr>qd_last = 0, qd_above50 = False, qd_above80 = False, qd_since50 = 0, qd_since80 = 0,
     qd_total50 = 0, qd_total80 = 0\<rparr>"

definition dwell_warning_utilization :: rat where "dwell_warning_utilization = 1 / 2"
definition dwell_degraded_utilization :: rat where "dwell_degraded_utilization = 4 / 5"

definition utilization :: "'f f64 \<Rightarrow> int \<Rightarrow> int \<Rightarrow> 'f" where
  "utilization F occupancy capacity =
     (if 0 < capacity then f_div F (f_of_int F occupancy) (f_of_int F capacity) else f_const F 0)"

definition dwell_observe :: "'f f64 \<Rightarrow> time \<Rightarrow> int \<Rightarrow> int \<Rightarrow> queue_dwell \<Rightarrow> queue_dwell" where
  "dwell_observe F now occupancy capacity d =
     (let elapsed = time_sub now (qd_last d)
      in if qd_last d \<noteq> 0 \<and> elapsed < 0 then d
         else let d1 = (if qd_last d \<noteq> 0
                        then d\<lparr>qd_total50 := qd_total50 d + (if qd_above50 d then elapsed else 0),
                               qd_total80 := qd_total80 d + (if qd_above80 d then elapsed else 0)\<rparr> else d);
                  util = utilization F occupancy capacity;
                  a50 = (0 < capacity \<and> f_le F (f_const F dwell_warning_utilization) util);
                  a80 = (0 < capacity \<and> f_le F (f_const F dwell_degraded_utilization) util)
              in d1\<lparr>qd_since50 := (if \<not> a50 then 0 else if \<not> qd_above50 d1 then now else qd_since50 d1),
                    qd_since80 := (if \<not> a80 then 0 else if \<not> qd_above80 d1 then now else qd_since80 d1),
                    qd_above50 := a50, qd_above80 := a80, qd_last := now\<rparr>)"

definition dwell_reconcile :: "'f f64 \<Rightarrow> time \<Rightarrow> int \<Rightarrow> int \<Rightarrow> queue_dwell \<Rightarrow> queue_dwell" where
  "dwell_reconcile F now occupancy capacity d =
     dwell_observe F now occupancy capacity
       (d\<lparr>qd_last := now, qd_above50 := False, qd_above80 := False, qd_since50 := 0, qd_since80 := 0\<rparr>)"

record dwell_view =
  dv_total50 :: int
  dv_total80 :: int
  dv_consecutive50 :: int
  dv_consecutive80 :: int

definition dwell_snapshot :: "time \<Rightarrow> queue_dwell \<Rightarrow> dwell_view" where
  "dwell_snapshot now d =
     \<lparr>dv_total50 = qd_total50 d sdiv second, dv_total80 = qd_total80 d sdiv second,
      dv_consecutive50 = (if qd_above50 d then time_sub now (qd_since50 d) sdiv second else 0),
      dv_consecutive80 = (if qd_above80 d then time_sub now (qd_since80 d) sdiv second else 0)\<rparr>"

section \<open>The token bucket\<close>

record 'f token_bucket =
  tb_rate :: 'f
  tb_capacity :: 'f
  tb_tokens :: 'f
  tb_last :: time

text \<open>The optional capacity argument is the head of a list. A nil bucket means "unlimited".\<close>

definition new_token_bucket :: "'f f64 \<Rightarrow> time \<Rightarrow> int \<Rightarrow> int list \<Rightarrow> 'f token_bucket option" where
  "new_token_bucket F now rateBps capacity =
     (if rateBps \<le> 0 then None
      else let c0 = (if capacity \<noteq> [] \<and> 0 < hd capacity then f_of_int F (hd capacity) else f_of_int F rateBps);
               c = (if f_lt F c0 (f_of_int F rateBps) then f_of_int F rateBps else c0)
           in Some \<lparr>tb_rate = f_of_int F rateBps, tb_capacity = c, tb_tokens = c, tb_last = now\<rparr>)"

definition tb_allow :: "'f f64 \<Rightarrow> time \<Rightarrow> int \<Rightarrow> 'f token_bucket option \<Rightarrow> 'f token_bucket option \<times> bool" where
  "tb_allow F now n tb0 =
     (case tb0 of
        None \<Rightarrow> (None, True)
      | Some tb \<Rightarrow>
          let elapsed = seconds F (time_sub now (tb_last tb));
              filled = f_add F (tb_tokens tb) (f_mul F elapsed (tb_rate tb));
              tokens = (if f_lt F (tb_capacity tb) filled then tb_capacity tb else filled)
          in if f_le F (f_of_int F n) tokens
             then (Some (tb\<lparr>tb_last := now, tb_tokens := f_sub F tokens (f_of_int F n)\<rparr>), True)
             else (Some (tb\<lparr>tb_last := now, tb_tokens := tokens\<rparr>), False))"

section \<open>Sampling counts every increase once\<close>

fun sample_run ::
    "'f f64 \<Rightarrow> duration \<Rightarrow> (generation \<times> time \<times> 64 word list) list \<Rightarrow> gen_sampler \<Rightarrow> gen_sampler \<times> 64 word list list" where
  "sample_run F m [] w = (w, [])"
| "sample_run F m ((g, t, vs) # obs) w =
     (case sample F g t m vs w of (w1, r) \<Rightarrow>
        case sample_run F m obs w1 of (w2, ds) \<Rightarrow>
          (w2, (case r of None \<Rightarrow> ds | Some (d, e) \<Rightarrow> d # ds)))"

lemma zip_not_lower:
  "length vs = length bs \<Longrightarrow> \<not> list_ex (\<lambda>(v, b). v < b) (zip vs bs) \<Longrightarrow> \<forall>i < length vs. bs ! i \<le> (vs ! i :: 64 word)"
  by (induction vs bs rule: list_induct2) (auto simp: less_Suc_eq_0_disj not_less)

lemma sample_same_width:
  assumes "gs_primed w" "g \<le> gs_gen w" "length vs = length (gs_values w)"
  shows "sample F g t m vs w = (w, None) \<or>
    (\<exists>e. sample F g t m vs w =
       (w\<lparr>gs_values := vs, gs_at := t\<rparr>, Some (map (\<lambda>(v, b). v - b) (zip vs (gs_values w)), e)) \<and>
       (\<forall>i < length vs. gs_values w ! i \<le> vs ! i))"
  using assms zip_not_lower [of vs "gs_values w"] by (auto simp: sample_def Let_def)

lemma sample_run_sum:
  assumes "gs_primed w" "\<And>g t vs. (g, t, vs) \<in> set obs \<Longrightarrow> g \<le> gs_gen w \<and> length vs = length (gs_values w)"
    and "sample_run F m obs w = (w', ds)" "i < length (gs_values w)"
  shows "gs_gen w' = gs_gen w \<and> gs_values w ! i \<le> gs_values w' ! i \<and>
    (\<Sum>d\<leftarrow>ds. unat (d ! i)) = unat (gs_values w' ! i) - unat (gs_values w ! i)"
  using assms
proof (induction obs arbitrary: w ds)
  case (Cons o1 obs)
  obtain g t vs where o1: "o1 = (g, t, vs)" by (cases o1)
  have cur: "g \<le> gs_gen w" "length vs = length (gs_values w)" using Cons.prems(2) [of g t vs] o1 by auto
  show ?case
  proof (cases "sample F g t m vs w = (w, None)")
    case True
    with Cons.prems o1 show ?thesis by (intro Cons.IH) (auto split: prod.splits)
  next
    case False
    then obtain e where s: "sample F g t m vs w =
        (w\<lparr>gs_values := vs, gs_at := t\<rparr>, Some (map (\<lambda>(v, b). v - b) (zip vs (gs_values w)), e))"
      and mono: "\<forall>i < length vs. gs_values w ! i \<le> vs ! i"
      using sample_same_width [OF Cons.prems(1) cur] by blast
    let ?w1 = "w\<lparr>gs_values := vs, gs_at := t\<rparr>"
    obtain ds1 where r: "sample_run F m obs ?w1 = (w', ds1)"
      and ds: "ds = map (\<lambda>(v, b). v - b) (zip vs (gs_values w)) # ds1"
      using Cons.prems(3) o1 s by (auto split: prod.splits)
    have ih: "gs_gen w' = gs_gen ?w1 \<and> gs_values ?w1 ! i \<le> gs_values w' ! i \<and>
        (\<Sum>d\<leftarrow>ds1. unat (d ! i)) = unat (gs_values w' ! i) - unat (gs_values ?w1 ! i)"
      using Cons.prems(1,2,4) cur r by (intro Cons.IH) auto
    have i: "i < length vs" and le: "gs_values w ! i \<le> vs ! i" using cur Cons.prems(4) mono by auto
    have d: "unat (vs ! i - gs_values w ! i) = unat (vs ! i) - unat (gs_values w ! i)"
      using le by (simp add: unat_sub)
    have "unat (gs_values w ! i) \<le> unat (vs ! i)" "unat (vs ! i) \<le> unat (gs_values w' ! i)"
      using le ih by (simp_all add: word_le_nat_alt)
    then show ?thesis using ih d ds i Cons.prems(4) by (auto simp: word_le_nat_alt)
  qed
qed simp

text \<open>
  Cumulative counters are never counted twice. Over any sequence of observations of the accepted
  generation or of older ones, delayed, repeated and out of order as they come, the deltas the sampler
  reports for a counter add up to exactly the rise of its accepted baseline, which never falls; the
  generation stays. No law of floating point is used.
\<close>

theorem sampler_counts_once:
  assumes "gs_primed w" "\<forall>(g, t, vs) \<in> set obs. g \<le> gs_gen w \<and> length vs = length (gs_values w)"
    and "sample_run F m obs w = (w', ds)" "i < length (gs_values w)"
  shows "gs_gen w' = gs_gen w \<and> gs_values w ! i \<le> gs_values w' ! i \<and>
    (\<Sum>d\<leftarrow>ds. unat (d ! i)) = unat (gs_values w' ! i) - unat (gs_values w ! i)"
  using sample_run_sum [OF assms(1) _ assms(3,4)] assms(2) by blast

definition demo_sampler :: gen_sampler where
  "demo_sampler = \<lparr>gs_gen = 1, gs_primed = True, gs_at = 0, gs_values = [10]\<rparr>"

theorem sampler_counts_once_witness:
  "\<exists>w' ds. sample_run rat_f64 second [(1, 2 * second, [15]), (0, 3 * second, [99]), (1, 4 * second, [12]),
      (1, 5 * second, [18])] demo_sampler = (w', ds) \<and> (\<Sum>d\<leftarrow>ds. unat (d ! 0)) = 8"
proof -
  let ?obs = "[(1, 2 * second, [15]), (0, 3 * second, [99]), (1, 4 * second, [12]), (1, 5 * second, [18])]"
  obtain w' ds where r: "sample_run rat_f64 second ?obs demo_sampler = (w', ds)" by fastforce
  have v: "gs_values w' ! 0 = 18"
    using r by (auto simp: demo_sampler_def sample_def Let_def seconds_rat time_defs)
  have "(\<Sum>d\<leftarrow>ds. unat (d ! 0)) = unat (gs_values w' ! 0) - unat (gs_values demo_sampler ! 0)"
    using sampler_counts_once [of demo_sampler ?obs rat_f64 second w' ds 0] r by (simp add: demo_sampler_def del: sample_run.simps)
  then have "(\<Sum>d\<leftarrow>ds. unat (d ! 0)) = 8" by (simp add: v demo_sampler_def)
  with r show ?thesis by blast
qed

text \<open>
  An observation of an older generation is not always ignored: when it also has another number of
  counters, the width check runs before the generation gate and discards the accepted baselines.
\<close>

theorem stale_width_discards_baseline:
  assumes "gs_primed w" "g < gs_gen w" "vs \<noteq> []" "length vs \<noteq> length (gs_values w)"
  shows "sample F g t m vs w =
    (w\<lparr>gs_values := replicate (length vs) 0, gs_primed := False\<rparr>, None)"
  using assms by (simp add: sample_def Let_def)

theorem stale_width_discards_baseline_witness:
  "sample rat_f64 0 5 0 [7, 7] demo_sampler = (demo_sampler\<lparr>gs_values := [0, 0], gs_primed := False\<rparr>, None)"
  using stale_width_discards_baseline [of demo_sampler 0 "[7, 7]" rat_f64 5 0]
  by (simp add: demo_sampler_def numeral_2_eq_2)

section \<open>Dwell never exceeds the observed time\<close>

datatype dwell_event = Observed time int int | Reconciled time int int

fun event_time :: "dwell_event \<Rightarrow> time" where
  "event_time (Observed t n c) = t"
| "event_time (Reconciled t n c) = t"

fun dwell_step :: "'f f64 \<Rightarrow> dwell_event \<Rightarrow> queue_dwell \<Rightarrow> queue_dwell" where
  "dwell_step F (Observed t n c) d = dwell_observe F t n c d"
| "dwell_step F (Reconciled t n c) d = dwell_reconcile F t n c d"

definition levels_ordered :: "'f f64 \<Rightarrow> bool" where
  "levels_ordered F \<longleftrightarrow>
     (\<forall>x. f_le F (f_const F dwell_degraded_utilization) x \<longrightarrow> f_le F (f_const F dwell_warning_utilization) x)"

definition dwell_ok :: "time \<Rightarrow> queue_dwell \<Rightarrow> bool" where
  "dwell_ok t0 d \<longleftrightarrow>
     t0 \<le> qd_last d \<and> 0 \<le> qd_total80 d \<and> qd_total80 d \<le> qd_total50 d \<and> qd_total50 d \<le> qd_last d - t0 \<and>
     (qd_above80 d \<longrightarrow> qd_above50 d)"

lemma time_sub_le: "u \<le> t \<Longrightarrow> time_sub t u \<le> t - u \<and> 0 \<le> time_sub t u"
  by (simp add: time_defs)

lemma dwell_observe_ok:
  assumes "levels_ordered F" "dwell_ok t0 d" "qd_last d \<le> t"
  shows "dwell_ok t0 (dwell_observe F t n c d) \<and> qd_last (dwell_observe F t n c d) = t"
  using assms time_sub_le [of "qd_last d" t]
  by (auto simp: dwell_observe_def dwell_ok_def levels_ordered_def Let_def)

lemma dwell_step_ok:
  assumes "levels_ordered F" "dwell_ok t0 d" "qd_last d \<le> event_time e"
  shows "dwell_ok t0 (dwell_step F e d) \<and> qd_last (dwell_step F e d) = event_time e"
proof (cases e)
  case (Observed t n c)
  then show ?thesis using dwell_observe_ok [OF assms(1,2)] assms(3) by simp
next
  case (Reconciled t n c)
  let ?d = "d\<lparr>qd_last := t, qd_above50 := False, qd_above80 := False, qd_since50 := 0, qd_since80 := 0\<rparr>"
  have "dwell_ok t0 ?d" using assms Reconciled by (auto simp: dwell_ok_def)
  then show ?thesis using dwell_observe_ok [OF assms(1), of t0 ?d t n c] Reconciled by (simp add: dwell_reconcile_def)
qed

lemma dwell_fold_ok:
  assumes "levels_ordered F" "dwell_ok t0 d" "sorted (qd_last d # map event_time es)"
  shows "dwell_ok t0 (fold (dwell_step F) es d) \<and> qd_last (fold (dwell_step F) es d) = last (qd_last d # map event_time es)"
  using assms(2,3)
proof (induction es arbitrary: d)
  case (Cons e es)
  have 1: "dwell_ok t0 (dwell_step F e d) \<and> qd_last (dwell_step F e d) = event_time e"
    using Cons.prems by (intro dwell_step_ok [OF assms(1)]) auto
  have "dwell_ok t0 (fold (dwell_step F) es (dwell_step F e d)) \<and>
      qd_last (fold (dwell_step F) es (dwell_step F e d)) = last (qd_last (dwell_step F e d) # map event_time es)"
    using Cons.prems(2) 1 by (intro Cons.IH) auto
  with 1 show ?case by (cases es) auto
qed simp

text \<open>
  The dwell times are real time. For a new tracker and observations and reconciliations at
  non-decreasing instants, the time above the degraded level is at most the time above the warning
  level, which is at most the span between the first and the last observation. The arithmetic only has
  to order the two levels.
\<close>

theorem dwell_bounded:
  assumes "levels_ordered F" "sorted (map event_time (e # es))" "0 < event_time e"
    and "d = fold (dwell_step F) (e # es) new_queue_dwell"
  shows "0 \<le> qd_total80 d \<and> qd_total80 d \<le> qd_total50 d \<and>
    qd_total50 d \<le> event_time (last (e # es)) - event_time e"
proof -
  have "dwell_ok (event_time e) (dwell_step F e new_queue_dwell) \<and>
      qd_last (dwell_step F e new_queue_dwell) = event_time e"
    using assms(1,3)
    by (cases e) (auto simp: dwell_ok_def dwell_observe_def dwell_reconcile_def new_queue_dwell_def Let_def
        levels_ordered_def)
  moreover from this have "sorted (qd_last (dwell_step F e new_queue_dwell) # map event_time es)"
    using assms(2) by simp
  ultimately have "dwell_ok (event_time e) d \<and> qd_last d = last (event_time e # map event_time es)"
    using dwell_fold_ok [OF assms(1), of "event_time e" "dwell_step F e new_queue_dwell" es] assms(4) by simp
  moreover have "last (event_time e # map event_time es) = event_time (last (e # es))"
    by (metis last_map list.distinct(1) list.simps(9))
  ultimately show ?thesis by (simp add: dwell_ok_def)
qed

theorem dwell_bounded_witness:
  "qd_total50 (fold (dwell_step rat_f64) [Observed 1 9 10, Reconciled 5 6 10, Observed 9 0 10] new_queue_dwell) \<le> 8"
  using dwell_bounded [of rat_f64 "Observed 1 9 10" "[Reconciled 5 6 10, Observed 9 0 10]"
      "fold (dwell_step rat_f64) [Observed 1 9 10, Reconciled 5 6 10, Observed 9 0 10] new_queue_dwell"]
  by (simp add: levels_ordered_def dwell_degraded_utilization_def dwell_warning_utilization_def)

section \<open>The bucket's budget\<close>

fun tb_grants :: "'f f64 \<Rightarrow> (time \<times> int) list \<Rightarrow> 'f token_bucket option \<Rightarrow> int" where
  "tb_grants F [] tb = 0"
| "tb_grants F ((t, n) # rs) tb =
     (case tb_allow F t n tb of (tb', ok) \<Rightarrow> (if ok then n else 0) + tb_grants F rs tb')"

lemma tb_budget:
  assumes "sorted (tb_last tb # map fst rs)" "0 \<le> tb_rate tb" "\<forall>(t, n) \<in> set rs. 0 \<le> n" "0 \<le> tb_tokens tb"
    "0 \<le> tb_capacity tb"
  shows "of_int (tb_grants rat_f64 rs (Some tb)) \<le>
    tb_tokens tb + tb_rate tb * (of_int (last (tb_last tb # map fst rs) - tb_last tb) / 1000000000)"
  using assms
proof (induction rs arbitrary: tb)
  case (Cons r1 rs)
  obtain t n where r1: "r1 = (t, n)" by (cases r1)
  let ?filled = "tb_tokens tb + of_int (time_sub t (tb_last tb)) / 1000000000 * tb_rate tb"
  let ?tok = "if tb_capacity tb < ?filled then tb_capacity tb else ?filled"
  let ?ok = "of_int n \<le> ?tok"
  let ?tb = "tb\<lparr>tb_last := t, tb_tokens := if ?ok then ?tok - of_int n else ?tok\<rparr>"
  have allow: "tb_allow rat_f64 t n (Some tb) = (Some ?tb, ?ok)"
    by (simp add: tb_allow_def Let_def seconds_rat)
  have t: "tb_last tb \<le> t" "sorted (t # map fst rs)" using Cons.prems(1) r1 by auto
  have sub: "time_sub t (tb_last tb) \<le> t - tb_last tb" "0 \<le> time_sub t (tb_last tb)"
    using time_sub_le [OF t(1)] by auto
  have n0: "0 \<le> n" using Cons.prems(3) r1 by simp
  have nonneg: "0 \<le> ?filled" using Cons.prems(2,4) sub(2) by simp
  have "of_int (time_sub t (tb_last tb)) / 1000000000 * tb_rate tb \<le> tb_rate tb * (of_int (t - tb_last tb) / 1000000000)"
    using sub(1) Cons.prems(2) by (simp add: mult.commute mult_left_mono divide_right_mono)
  then have tok: "?tok \<le> tb_tokens tb + tb_rate tb * (of_int (t - tb_last tb) / 1000000000)" by auto
  have "of_int (tb_grants rat_f64 rs (Some ?tb)) \<le>
      tb_tokens ?tb + tb_rate ?tb * (of_int (last (tb_last ?tb # map fst rs) - tb_last ?tb) / 1000000000)"
  proof (rule Cons.IH)
    show "sorted (tb_last ?tb # map fst rs)" using t(2) by simp
    show "0 \<le> tb_rate ?tb" "0 \<le> tb_capacity ?tb" using Cons.prems by simp_all
    show "\<forall>(t, n) \<in> set rs. 0 \<le> n" using Cons.prems(3) by simp
    show "0 \<le> tb_tokens ?tb" using nonneg Cons.prems(5) by auto
  qed
  moreover have "last (tb_last tb # map fst (r1 # rs)) = last (t # map fst rs)" by (simp add: r1)
  moreover have "of_int (tb_grants rat_f64 (r1 # rs) (Some tb)) =
      (if ?ok then of_int n else 0) + (of_int (tb_grants rat_f64 rs (Some ?tb)) :: rat)"
    unfolding r1 tb_grants.simps allow by simp
  moreover define X Y where "X = tb_rate tb * (of_int (t - tb_last tb) / 1000000000)"
    and "Y = tb_rate tb * (of_int (last (t # map fst rs) - t) / 1000000000)"
  moreover have "tb_rate tb * (of_int (last (t # map fst rs) - tb_last tb) / 1000000000) = X + Y"
    unfolding X_def Y_def distrib_left [symmetric] add_divide_distrib [symmetric] of_int_add [symmetric]
    by simp
  ultimately have "of_int (tb_grants rat_f64 (r1 # rs) (Some tb)) \<le> ?tok + Y" "?tok \<le> tb_tokens tb + X"
    "tb_rate tb * (of_int (last (tb_last tb # map fst (r1 # rs)) - tb_last tb) / 1000000000) = X + Y"
    using tok by (simp_all del: last.simps map_eq_Cons_conv list.map split: if_splits)
  then show ?case by linarith
qed simp

text \<open>
  A rate limit holds on average. In exact arithmetic, whatever is asked of a bucket created with a
  positive rate at whatever non-decreasing instants, the bytes it grants up to the last request are at
  most its burst capacity plus the rate times the time since its creation.
\<close>

theorem token_bucket_budget:
  assumes "new_token_bucket rat_f64 t0 rateBps caps = Some tb" "sorted (t0 # map fst rs)"
    and "\<forall>(t, n) \<in> set rs. 0 \<le> n"
  shows "of_int (tb_grants rat_f64 rs (Some tb)) \<le>
    tb_capacity tb + of_int rateBps * (of_int (last (t0 # map fst rs) - t0) / 1000000000)"
proof -
  have tb: "tb_last tb = t0" "tb_rate tb = of_int rateBps" "0 < rateBps" "tb_tokens tb = tb_capacity tb"
    "0 \<le> tb_capacity tb"
    using assms(1) by (auto simp: new_token_bucket_def Let_def split: if_splits)
  then show ?thesis using tb_budget [of tb rs] assms(2,3) by simp
qed

theorem token_bucket_budget_witness:
  "tb_grants rat_f64 [(second, 150), (second, 90), (2 * second, 90)] (new_token_bucket rat_f64 0 100 []) \<le> 300"
proof -
  let ?tb = "\<lparr>tb_rate = 100, tb_capacity = 100, tb_tokens = 100, tb_last = 0\<rparr> :: rat token_bucket"
  have n: "new_token_bucket rat_f64 0 100 [] = Some ?tb" by (simp add: new_token_bucket_def)
  have "of_int (tb_grants rat_f64 [(second, 150), (second, 90), (2 * second, 90)] (Some ?tb)) \<le> (300::rat)"
    using token_bucket_budget [OF n, of "[(second, 150), (second, 90), (2 * second, 90)]"]
    by (simp add: second_def del: tb_grants.simps)
  then show ?thesis unfolding n by (simp only: of_int_le_numeral_iff)
qed

end
