(* ===== verification/Device_Writes.thy ===== *)
theory Device_Writes
  imports Traffic_Window
begin

text \<open>
  The write telemetry of the packet forwarder: the two latency reservoirs of \<^verbatim>\<open>client_write.go\<close>, ring
  buffers over Go arrays, and the duration histogram of \<^verbatim>\<open>write_histogram.go\<close>. The reservoir is shown to
  be the last 1024 recorded writes.
\<close>

section \<open>The write counters\<close>

record device_writes =
  wt_count :: "64 word"
  wt_errors :: "64 word"
  wt_stalls :: "64 word"
  wt_in_flight :: int
  wt_oldest :: duration
  wt_total :: duration
  wt_max :: duration
  wt_p50 :: duration
  wt_p95 :: duration
  wt_p99 :: duration
  wt_health_p95 :: duration
  wt_health_samples :: int
  wt_health_window :: duration

definition no_writes :: device_writes where
  "no_writes = \<lparr>wt_count = 0, wt_errors = 0, wt_stalls = 0, wt_in_flight = 0, wt_oldest = 0, wt_total = 0,
     wt_max = 0, wt_p50 = 0, wt_p95 = 0, wt_p99 = 0, wt_health_p95 = 0, wt_health_samples = 0, wt_health_window = 0\<rparr>"

definition device_write_stall_threshold :: duration where
  "device_write_stall_threshold = 100 * millisecond"

section \<open>The latency reservoirs\<close>

definition latency_reservoir_size :: nat where "latency_reservoir_size = 1024"
definition latency_health_window :: duration where "latency_health_window = 60 * second"

record latency_reservoir =
  lr_samples :: "duration list"
  lr_stamps :: "time list"
  lr_head :: nat
  lr_count :: nat

definition new_latency_reservoir :: latency_reservoir where
  "new_latency_reservoir =
     \<lparr>lr_samples = replicate latency_reservoir_size 0, lr_stamps = replicate latency_reservoir_size 0,
      lr_head = 0, lr_count = 0\<rparr>"

definition lr_record_at :: "duration \<Rightarrow> time \<Rightarrow> latency_reservoir \<Rightarrow> latency_reservoir" where
  "lr_record_at d at r =
     r\<lparr>lr_samples := (lr_samples r)[lr_head r := d], lr_stamps := (lr_stamps r)[lr_head r := at],
       lr_head := (lr_head r + 1) mod latency_reservoir_size,
       lr_count := (if lr_count r < latency_reservoir_size then lr_count r + 1 else lr_count r)\<rparr>"

definition lr_percentiles :: "latency_reservoir \<Rightarrow> duration \<times> duration \<times> duration" where
  "lr_percentiles r =
     (let n = lr_count r; buf = sort (take n (lr_samples r))
      in if n = 0 then (0, 0, 0) else (buf ! (n * 50 div 100), buf ! (n * 95 div 100), buf ! (n * 99 div 100)))"

definition lr_health_p95 :: "time \<Rightarrow> latency_reservoir \<Rightarrow> duration \<times> nat" where
  "lr_health_p95 now r =
     (let n = lr_count r; cutoff = now - latency_health_window;
          buf = map (\<lambda>i. lr_samples r ! i) (filter (\<lambda>i. \<not> lr_stamps r ! i < cutoff) [0..<n])
      in if n = 0 then (0, 0)
         else if buf = [] then (0, 0)
         else (sort buf ! (length buf * 95 div 100), length buf))"

record route_latency_reservoir =
  rl_samples :: "duration list"
  rl_head :: nat
  rl_count :: nat

definition new_route_latency_reservoir :: route_latency_reservoir where
  "new_route_latency_reservoir = \<lparr>rl_samples = replicate 128 0, rl_head = 0, rl_count = 0\<rparr>"

definition rl_record :: "duration \<Rightarrow> route_latency_reservoir \<Rightarrow> route_latency_reservoir" where
  "rl_record d r =
     r\<lparr>rl_samples := (rl_samples r)[rl_head r := d], rl_head := (rl_head r + 1) mod 128,
       rl_count := (if rl_count r < 128 then rl_count r + 1 else rl_count r)\<rparr>"

definition rl_p95 :: "route_latency_reservoir \<Rightarrow> duration" where
  "rl_p95 r = (let n = rl_count r in if n = 0 then 0 else sort (take n (rl_samples r)) ! (n * 95 div 100))"

section \<open>The duration histogram\<close>

definition write_duration_bounds :: "rat list" where
  "write_duration_bounds =
     [1/10000, 1/4000, 1/2000, 1/1000, 1/400, 1/200, 1/100, 1/40, 1/20, 1/10, 1/4, 1/2, 1, 5/2, 5, 10]"

record 'f write_histogram =
  wh_buckets :: "64 word list"
  wh_count :: "64 word"
  wh_sum :: 'f

definition new_write_histogram :: "'f f64 \<Rightarrow> 'f write_histogram" where
  "new_write_histogram F = \<lparr>wh_buckets = replicate (length write_duration_bounds) 0, wh_count = 0, wh_sum = f_const F 0\<rparr>"

fun bump_bucket :: "'f f64 \<Rightarrow> 'f \<Rightarrow> rat list \<Rightarrow> 64 word list \<Rightarrow> 64 word list" where
  "bump_bucket F s (b # bs) (h # hs) = (if f_le F s (f_const F b) then (h + 1) # hs else h # bump_bucket F s bs hs)"
| "bump_bucket F s _ hs = hs"

definition histogram_observe :: "'f f64 \<Rightarrow> duration \<Rightarrow> 'f write_histogram \<Rightarrow> 'f write_histogram" where
  "histogram_observe F d h =
     (let s = seconds F d
      in h\<lparr>wh_count := wh_count h + 1, wh_sum := f_add F (wh_sum h) s,
           wh_buckets := bump_bucket F s write_duration_bounds (wh_buckets h)\<rparr>)"

section \<open>The ring buffer is a sliding window\<close>

definition lr_cells :: "latency_reservoir \<Rightarrow> (duration \<times> time) list" where
  "lr_cells r = zip (lr_samples r) (lr_stamps r)"

text \<open>The reservoir \<open>r\<close> holds a history: its oldest surviving entry sits at the head.\<close>

definition lr_holds :: "(duration \<times> time) list \<Rightarrow> latency_reservoir \<Rightarrow> bool" where
  "lr_holds hist r \<longleftrightarrow>
     length (lr_samples r) = latency_reservoir_size \<and> length (lr_stamps r) = latency_reservoir_size \<and>
     lr_head r = length hist mod latency_reservoir_size \<and> lr_count r = min (length hist) latency_reservoir_size \<and>
     (length hist \<le> latency_reservoir_size \<longrightarrow> take (length hist) (lr_cells r) = hist) \<and>
     (latency_reservoir_size \<le> length hist \<longrightarrow>
        rotate (lr_head r) (lr_cells r) = drop (length hist - latency_reservoir_size) hist)"

lemma size_pos [simp]: "0 < latency_reservoir_size" "latency_reservoir_size \<noteq> 0"
  "Suc 0 - latency_reservoir_size = 0"
  by (simp_all add: latency_reservoir_size_def)

lemma lr_holds_new: "lr_holds [] new_latency_reservoir"
  by (simp add: lr_holds_def new_latency_reservoir_def)

lemma ring_step:
  assumes "h < length zs"
  shows "rotate (Suc h mod length zs) (zs[h := x]) = tl (rotate h zs) @ [x]"
proof -
  have "rotate (Suc h mod length zs) (zs[h := x]) = rotate (Suc h) (zs[h := x])"
    by (metis length_list_update rotate_conv_mod)
  also have "\<dots> = rotate1 (rotate h (zs[h := x]))" by simp
  also have "rotate h (zs[h := x]) = x # tl (rotate h zs)"
    using assms by (simp add: rotate_drop_take drop_update_swap Cons_nth_drop_Suc [symmetric] del: Cons_nth_drop_Suc)
  finally show ?thesis by simp
qed

lemma lr_cells_record:
  "length (lr_samples r) = length (lr_stamps r) \<Longrightarrow>
     lr_cells (lr_record_at d t r) = (lr_cells r)[lr_head r := (d, t)]"
  by (simp add: lr_cells_def lr_record_at_def zip_update)

lemma lr_holds_full:
  "lr_holds hist r \<Longrightarrow> latency_reservoir_size \<le> length hist \<Longrightarrow>
     rotate (lr_head r) (lr_cells r) = drop (length hist - latency_reservoir_size) hist"
  unfolding lr_holds_def by blast

lemma lr_holds_record:
  assumes "lr_holds hist r"
  shows "lr_holds (hist @ [(d, t)]) (lr_record_at d t r)"
proof -
  let ?N = latency_reservoir_size and ?L = "length hist"
  have len: "length (lr_samples r) = ?N" "length (lr_stamps r) = ?N" "length (lr_cells r) = ?N"
    and head: "lr_head r = ?L mod ?N" and cnt: "lr_count r = min ?L ?N"
    using assms by (auto simp: lr_holds_def lr_cells_def)
  have cells: "lr_cells (lr_record_at d t r) = (lr_cells r)[lr_head r := (d, t)]"
    using len by (simp add: lr_cells_record)
  have fields: "lr_head (lr_record_at d t r) = Suc ?L mod ?N"
    "lr_count (lr_record_at d t r) = min (Suc ?L) ?N"
    using head cnt by (auto simp: lr_record_at_def mod_Suc_eq)
  have short: "take (Suc ?L) (lr_cells (lr_record_at d t r)) = hist @ [(d, t)]" if "?L < ?N"
  proof -
    have "lr_head r = ?L" using head that by simp
    then show ?thesis using that assms len(3) unfolding cells lr_holds_def by (simp add: take_Suc_conv_app_nth)
  qed
  have full: "rotate (Suc ?L mod ?N) (lr_cells (lr_record_at d t r)) = drop (Suc ?L - ?N) (hist @ [(d, t)])"
    if "?N \<le> Suc ?L"
  proof (cases "?N \<le> ?L")
    case True
    have "rotate (Suc (lr_head r) mod ?N) ((lr_cells r)[lr_head r := (d, t)]) = tl (rotate (lr_head r) (lr_cells r)) @ [(d, t)]"
      using ring_step [of "lr_head r" "lr_cells r" "(d, t)"] head len(3) by simp
    also have "rotate (lr_head r) (lr_cells r) = drop (?L - ?N) hist" using lr_holds_full [OF assms True] .
    also have "tl (drop (?L - ?N) hist) @ [(d, t)] = drop (Suc ?L - ?N) (hist @ [(d, t)])"
      using True by (simp only: Suc_diff_le drop_append drop_Suc tl_drop) (simp add: Suc_diff_le)
    finally show ?thesis using head by (simp add: cells mod_Suc_eq)
  next
    case False
    then have "Suc ?L = ?N" using that by simp
    then show ?thesis using short False len(3) by (simp add: cells)
  qed
  show ?thesis
    using len fields short full by (auto simp: lr_holds_def lr_record_at_def)
qed

lemma lr_holds_mset:
  assumes "lr_holds hist r"
  shows "mset (take (lr_count r) (lr_cells r)) = mset (drop (length hist - latency_reservoir_size) hist)"
proof (cases "length hist \<le> latency_reservoir_size")
  case True
  then show ?thesis using assms by (simp add: lr_holds_def)
next
  case False
  then have "take (lr_count r) (lr_cells r) = lr_cells r"
    using assms by (simp add: lr_holds_def lr_cells_def)
  moreover have "mset (lr_cells r) = mset (rotate (lr_head r) (lr_cells r))"
    by (simp add: rotate_drop_take) (metis append_take_drop_id mset_append union_commute)
  ultimately show ?thesis using lr_holds_full [OF assms] False by simp
qed

lemma sort_mset_eq: "mset xs = mset ys \<Longrightarrow> sort xs = (sort ys :: int list)"
  by (metis mset_sort properties_for_sort sorted_sort)

text \<open>What the health view promises, over a plain history of writes.\<close>

definition health_p95_spec :: "time \<Rightarrow> (duration \<times> time) list \<Rightarrow> duration \<times> nat" where
  "health_p95_spec now hist =
     (let kept = drop (length hist - latency_reservoir_size) hist;
          ds = map fst (filter (\<lambda>(d, t). now - latency_health_window \<le> t) kept)
      in if ds = [] then (0, 0) else (sort ds ! (length ds * 95 div 100), length ds))"

lemma recent_cells:
  assumes "length (lr_samples r) = length (lr_stamps r)" "lr_count r \<le> length (lr_samples r)"
  shows "map (\<lambda>i. lr_samples r ! i) (filter (\<lambda>i. \<not> lr_stamps r ! i < c) [0..<lr_count r]) =
    map fst (filter (\<lambda>(d, t). c \<le> t) (take (lr_count r) (lr_cells r)))"
proof -
  have "take (lr_count r) (lr_cells r) = map (\<lambda>i. (lr_samples r ! i, lr_stamps r ! i)) [0..<lr_count r]"
    using assms by (intro nth_equalityI) (auto simp: lr_cells_def)
  then show ?thesis by (simp add: filter_map o_def not_less)
qed

lemma p95_cong:
  assumes "mset xs = mset (ys :: int list)"
  shows "(if xs = [] then (0, 0) else (sort xs ! (length xs * 95 div 100), length xs)) =
    (if ys = [] then (0, 0) else (sort ys ! (length ys * 95 div 100), length ys))"
proof -
  have "length xs = length ys" using assms by (metis size_mset)
  moreover have "xs = [] \<longleftrightarrow> ys = []" using assms by auto
  ultimately show ?thesis using sort_mset_eq [OF assms] by simp
qed

lemma health_p95_refines:
  assumes "lr_holds hist r"
  shows "lr_health_p95 now r = health_p95_spec now hist"
proof -
  define c xs ys where "c = now - latency_health_window"
    and "xs = map fst (filter (\<lambda>(d, t). c \<le> t) (take (lr_count r) (lr_cells r)))"
    and "ys = map fst (filter (\<lambda>(d, t). c \<le> t) (drop (length hist - latency_reservoir_size) hist))"
  have "length (lr_samples r) = length (lr_stamps r)" "lr_count r \<le> length (lr_samples r)"
    using assms by (simp_all add: lr_holds_def)
  note cells = recent_cells [OF this, of c, folded xs_def]
  have "mset xs = mset ys"
    unfolding xs_def ys_def mset_map mset_filter lr_holds_mset [OF assms] by (rule refl)
  note eq = p95_cong [OF this]
  have "xs = []" if "lr_count r = 0" using that by (simp add: xs_def)
  then have "lr_health_p95 now r = (if xs = [] then (0, 0) else (sort xs ! (length xs * 95 div 100), length xs))"
    unfolding lr_health_p95_def Let_def c_def [symmetric] cells by presburger
  then show ?thesis
    unfolding health_p95_spec_def Let_def c_def [symmetric] ys_def [symmetric] eq .
qed


end
