(* ===== verification/Accounting.thy ===== *)
theory Accounting
  imports Nexus_Prelude
begin

text \<open>
  The traffic accountant (\<^verbatim>\<open>internal/vpn/forwarder/accounting.go\<close>): per-session and per-connection byte
  counts, drained into database updates by \<open>Flush\<close>. A counter is an \<^verbatim>\<open>atomic.Int64\<close> reached through a map
  that only ever grows, so a map of integers models it; byte counts stay far below 2 to the 63. The
  database is the list of updates sent to it, each with the outcome of the write left open.
\<close>

section \<open>State\<close>

type_synonym byte_counts = "(string, int) fmap"

record accountant =
  ta_db :: bool
  ta_session_rx :: byte_counts
  ta_session_tx :: byte_counts
  ta_conn_rx :: byte_counts
  ta_conn_tx :: byte_counts
  ta_flush_interval :: duration
  ta_running :: bool

definition new_accountant :: "bool \<Rightarrow> duration \<Rightarrow> accountant" where
  "new_accountant db flushInterval =
     \<lparr>ta_db = db, ta_session_rx = fmempty, ta_session_tx = fmempty, ta_conn_rx = fmempty, ta_conn_tx = fmempty,
      ta_flush_interval = (if flushInterval \<le> 0 then 2 * second else flushInterval), ta_running = False\<rparr>"

section \<open>Recording\<close>

definition get_or_create_counter :: "string \<Rightarrow> byte_counts \<Rightarrow> byte_counts" where
  "get_or_create_counter key m = (if fmlookup m key = None then fmupd key 0 m else m)"

definition buffered :: "byte_counts \<Rightarrow> string \<Rightarrow> int" where
  "buffered m key = (case fmlookup m key of None \<Rightarrow> 0 | Some n \<Rightarrow> n)"

definition add_bytes :: "string \<Rightarrow> int \<Rightarrow> byte_counts \<Rightarrow> byte_counts" where
  "add_bytes key n m =
     (if key = [] then m
      else let m' = get_or_create_counter key m in fmupd key (buffered m' key + n) m')"

definition record_rx :: "string \<Rightarrow> string \<Rightarrow> int \<Rightarrow> accountant \<Rightarrow> accountant" where
  "record_rx sessionID connectionID n ta =
     (if n \<le> 0 then ta
      else ta\<lparr>ta_session_rx := add_bytes sessionID n (ta_session_rx ta),
              ta_conn_rx := add_bytes connectionID n (ta_conn_rx ta)\<rparr>)"

definition record_tx :: "string \<Rightarrow> string \<Rightarrow> int \<Rightarrow> accountant \<Rightarrow> accountant" where
  "record_tx sessionID connectionID n ta =
     (if n \<le> 0 then ta
      else ta\<lparr>ta_session_tx := add_bytes sessionID n (ta_session_tx ta),
              ta_conn_tx := add_bytes connectionID n (ta_conn_tx ta)\<rparr>)"

definition get_session_traffic :: "string \<Rightarrow> accountant \<Rightarrow> int \<times> int" where
  "get_session_traffic sid ta = (buffered (ta_session_rx ta) sid, buffered (ta_session_tx ta) sid)"

definition get_connection_traffic :: "string \<Rightarrow> accountant \<Rightarrow> int \<times> int" where
  "get_connection_traffic cid ta = (buffered (ta_conn_rx ta) cid, buffered (ta_conn_tx ta) cid)"

section \<open>Flushing\<close>

text \<open>
  \<open>Flush\<close> swaps every counter with 0 under the lock and then writes the positive deltas. A row of a
  delta table is a pair (received, sent).
\<close>

definition drain_rx :: "byte_counts \<Rightarrow> string \<Rightarrow> (string, int \<times> int) fmap \<Rightarrow> (string, int \<times> int) fmap" where
  "drain_rx m key deltas =
     (let val = buffered m key; old = (case fmlookup deltas key of None \<Rightarrow> (0, 0) | Some p \<Rightarrow> p)
      in if 0 < val then fmupd key (val, snd old) deltas else deltas)"

definition drain_tx :: "byte_counts \<Rightarrow> string \<Rightarrow> (string, int \<times> int) fmap \<Rightarrow> (string, int \<times> int) fmap" where
  "drain_tx m key deltas =
     (let val = buffered m key; old = (case fmlookup deltas key of None \<Rightarrow> (0, 0) | Some p \<Rightarrow> p)
      in if 0 < val then fmupd key (fst old, val) deltas else deltas)"

definition drain_counters ::
    "(string fset \<Rightarrow> string list) \<Rightarrow> byte_counts \<Rightarrow> byte_counts \<Rightarrow> (string, int \<times> int) fmap" where
  "drain_counters ord rx tx = fold (drain_tx tx) (ord (fmdom tx)) (fold (drain_rx rx) (ord (fmdom rx)) fmempty)"

definition zeroed :: "byte_counts \<Rightarrow> byte_counts" where
  "zeroed m = fmmap (\<lambda>_. 0) m"

datatype traffic_update =
    SessionTraffic string int int
  | ConnectionTraffic string int int
  | UserTraffic string int int

definition delta_row :: "(string, int \<times> int) fmap \<Rightarrow> string \<Rightarrow> int \<times> int" where
  "delta_row deltas k = (case fmlookup deltas k of None \<Rightarrow> (0, 0) | Some p \<Rightarrow> p)"

definition session_updates :: "(string, int \<times> int) fmap \<Rightarrow> string list \<Rightarrow> traffic_update list" where
  "session_updates ss ks = map (\<lambda>k. SessionTraffic k (fst (delta_row ss k)) (snd (delta_row ss k))) ks"

text \<open>The first argument is the owner the database names for a connection, if it finds one.\<close>

definition connection_updates ::
    "(string \<Rightarrow> string option) \<Rightarrow> (string, int \<times> int) fmap \<Rightarrow> string list \<Rightarrow> traffic_update list" where
  "connection_updates owner cs ks =
     concat (map (\<lambda>k. ConnectionTraffic k (fst (delta_row cs k)) (snd (delta_row cs k)) #
                    (case owner k of None \<Rightarrow> []
                     | Some u \<Rightarrow> [UserTraffic u (fst (delta_row cs k)) (snd (delta_row cs k))])) ks)"

definition flush ::
    "(string fset \<Rightarrow> string list) \<Rightarrow> (string \<Rightarrow> string option) \<Rightarrow> accountant \<Rightarrow> accountant \<times> traffic_update list" where
  "flush ord owner ta =
     (if \<not> ta_db ta then (ta, [])
      else
        let ss = drain_counters ord (ta_session_rx ta) (ta_session_tx ta);
            cs = drain_counters ord (ta_conn_rx ta) (ta_conn_tx ta)
        in (ta\<lparr>ta_session_rx := zeroed (ta_session_rx ta), ta_session_tx := zeroed (ta_session_tx ta),
               ta_conn_rx := zeroed (ta_conn_rx ta), ta_conn_tx := zeroed (ta_conn_tx ta)\<rparr>,
            session_updates ss (ord (fmdom ss)) @ connection_updates owner cs (ord (fmdom cs))))"

definition start_accountant :: "accountant \<Rightarrow> accountant" where
  "start_accountant ta = ta\<lparr>ta_running := True\<rparr>"

text \<open>\<open>Stop\<close> flushes once more when the loop was running.\<close>

definition stop_accountant ::
    "(string fset \<Rightarrow> string list) \<Rightarrow> (string \<Rightarrow> string option) \<Rightarrow> accountant \<Rightarrow> accountant \<times> traffic_update list" where
  "stop_accountant ord owner ta = (if \<not> ta_running ta then (ta, []) else flush ord owner (ta\<lparr>ta_running := False\<rparr>))"

section \<open>No byte is counted twice\<close>

fun update_bytes :: "string \<Rightarrow> traffic_update \<Rightarrow> int \<times> int" where
  "update_bytes sid (SessionTraffic k rx tx) = (if k = sid then (rx, tx) else (0, 0))"
| "update_bytes sid _ = (0, 0)"

fun connection_bytes :: "string \<Rightarrow> traffic_update \<Rightarrow> int \<times> int" where
  "connection_bytes cid (ConnectionTraffic k rx tx) = (if k = cid then (rx, tx) else (0, 0))"
| "connection_bytes cid _ = (0, 0)"

definition written :: "(traffic_update \<Rightarrow> int \<times> int) \<Rightarrow> traffic_update list \<Rightarrow> int \<times> int" where
  "written b us = (sum_list (map (fst \<circ> b) us), sum_list (map (snd \<circ> b) us))"

datatype traffic_event = Rx string string int | Tx string string int | Flush

fun event_bytes :: "string \<Rightarrow> traffic_event \<Rightarrow> int \<times> int" where
  "event_bytes sid (Rx s c n) = (if s = sid \<and> 0 < n then (n, 0) else (0, 0))"
| "event_bytes sid (Tx s c n) = (if s = sid \<and> 0 < n then (0, n) else (0, 0))"
| "event_bytes sid Flush = (0, 0)"

fun accountant_run ::
    "(string fset \<Rightarrow> string list) \<Rightarrow> (string \<Rightarrow> string option) \<Rightarrow> traffic_event list \<Rightarrow> accountant \<Rightarrow> accountant \<times> traffic_update list" where
  "accountant_run ord owner [] ta = (ta, [])"
| "accountant_run ord owner (e # es) ta =
     (case (case e of Rx s c n \<Rightarrow> (record_rx s c n ta, []) | Tx s c n \<Rightarrow> (record_tx s c n ta, [])
                    | Flush \<Rightarrow> flush ord owner ta) of
        (ta1, us) \<Rightarrow> case accountant_run ord owner es ta1 of (ta2, vs) \<Rightarrow> (ta2, us @ vs))"

lemma buffered_add: "buffered (add_bytes key n m) k = buffered m k + (if k = key \<and> key \<noteq> [] then n else 0)"
  by (auto simp: add_bytes_def buffered_def get_or_create_counter_def Let_def)

lemma buffered_zeroed [simp]: "buffered (zeroed m) k = 0"
  by (simp add: buffered_def zeroed_def split: option.split)

lemma drain_rx_fold:
  assumes "distinct ks"
  shows "fmlookup (fold (drain_rx m) ks d) k =
    (if k \<in> set ks \<and> 0 < buffered m k
     then Some (buffered m k, snd (case fmlookup d k of None \<Rightarrow> (0, 0) | Some p \<Rightarrow> p)) else fmlookup d k)"
  using assms by (induction ks arbitrary: d) (auto simp: drain_rx_def Let_def)

lemma drain_tx_fold:
  assumes "distinct ks"
  shows "fmlookup (fold (drain_tx m) ks d) k =
    (if k \<in> set ks \<and> 0 < buffered m k
     then Some (fst (case fmlookup d k of None \<Rightarrow> (0, 0) | Some p \<Rightarrow> p), buffered m k) else fmlookup d k)"
  using assms by (induction ks arbitrary: d) (auto simp: drain_tx_def Let_def)

definition counts_ok :: "byte_counts \<Rightarrow> bool" where
  "counts_ok m \<longleftrightarrow> (\<forall>k. 0 \<le> buffered m k)"

lemma drain_counters_lookup:
  assumes "range_order ord" "counts_ok rx" "counts_ok tx"
  shows "delta_row (drain_counters ord rx tx) k = (buffered rx k, buffered tx k)"
proof -
  have "k \<in> set (ord (fmdom m)) \<longleftrightarrow> fmlookup m k \<noteq> None" for m :: byte_counts
    by (simp add: range_orderD(2) [OF assms(1)] fmlookup_dom_iff)
  moreover have "0 \<le> buffered rx k" "0 \<le> buffered tx k" using assms(2,3) by (simp_all add: counts_ok_def)
  moreover have "fmlookup m k = None \<Longrightarrow> buffered m k = 0" for m by (simp add: buffered_def)
  ultimately show ?thesis
    by (auto simp: delta_row_def drain_counters_def drain_rx_fold [OF range_orderD(1) [OF assms(1)]]
        drain_tx_fold [OF range_orderD(1) [OF assms(1)]])
qed

lemma sum_list_single_key:
  assumes "distinct ks" "\<And>k. k \<notin> set ks \<Longrightarrow> g k = (0::int)"
  shows "(\<Sum>k\<leftarrow>ks. if k = sid then g k else 0) = g sid"
  using assms(1) assms(2) [of sid]
  by (simp add: sum_list_distinct_conv_sum_set sum.delta)

lemma written_append: "written b (us @ vs) = (fst (written b us) + fst (written b vs), snd (written b us) + snd (written b vs))"
  by (simp add: written_def)

definition ta_ok :: "accountant \<Rightarrow> bool" where
  "ta_ok ta \<longleftrightarrow> counts_ok (ta_session_rx ta) \<and> counts_ok (ta_session_tx ta) \<and>
     counts_ok (ta_conn_rx ta) \<and> counts_ok (ta_conn_tx ta)"

lemma counts_ok_add: "counts_ok m \<Longrightarrow> 0 < n \<Longrightarrow> counts_ok (add_bytes key n m)"
  by (auto simp: counts_ok_def buffered_add intro: add_nonneg_nonneg)

lemma counts_ok_zeroed [simp]: "counts_ok (zeroed m)"
  by (simp add: counts_ok_def)

lemma delta_row_none: "k |\<notin>| fmdom d \<Longrightarrow> delta_row d k = (0, 0)"
  by (simp add: delta_row_def fmdom_notD)

lemma written_sessions:
  assumes "range_order ord"
  shows "written (update_bytes sid) (session_updates ss (ord (fmdom ss))) = delta_row ss sid"
proof -
  note ks = range_orderD [OF assms, of "fmdom ss"]
  have out: "delta_row ss k = (0, 0)" if "k \<notin> set (ord (fmdom ss))" for k
    using that by (intro delta_row_none) (simp add: ks(2))
  have "fst (update_bytes sid (SessionTraffic k (fst p) (snd p))) = (if k = sid then fst p else 0)"
    "snd (update_bytes sid (SessionTraffic k (fst p) (snd p))) = (if k = sid then snd p else 0)" for k p
    by simp_all
  then show ?thesis
    using sum_list_single_key [OF ks(1), of "\<lambda>k. fst (delta_row ss k)" sid]
      sum_list_single_key [OF ks(1), of "\<lambda>k. snd (delta_row ss k)" sid] out
    by (simp add: written_def session_updates_def o_def del: update_bytes.simps)
qed

lemma written_sessions_other: "written (connection_bytes cid) (session_updates ss ks) = (0, 0)"
  by (induction ks) (simp_all add: written_def session_updates_def)

lemma written_connections_other: "written (update_bytes sid) (connection_updates owner cs ks) = (0, 0)"
  by (induction ks) (auto simp: written_def connection_updates_def split: option.splits)

lemma written_connections_sum:
  "written (connection_bytes cid) (connection_updates owner cs ks) =
     ((\<Sum>k\<leftarrow>ks. if k = cid then fst (delta_row cs k) else 0), (\<Sum>k\<leftarrow>ks. if k = cid then snd (delta_row cs k) else 0))"
  by (induction ks) (auto simp: written_def connection_updates_def split: option.splits)

lemma written_connections:
  assumes "range_order ord"
  shows "written (connection_bytes cid) (connection_updates owner cs (ord (fmdom cs))) = delta_row cs cid"
proof -
  note ks = range_orderD [OF assms, of "fmdom cs"]
  have out: "delta_row cs k = (0, 0)" if "k \<notin> set (ord (fmdom cs))" for k
    using that by (intro delta_row_none) (simp add: ks(2))
  then show ?thesis
    using sum_list_single_key [OF ks(1), of "\<lambda>k. fst (delta_row cs k)" cid]
      sum_list_single_key [OF ks(1), of "\<lambda>k. snd (delta_row cs k)" cid]
    by (simp add: written_connections_sum)
qed

lemma flush_spec:
  assumes "range_order ord" "ta_ok ta" "ta_db ta" "flush ord owner ta = (ta', us)"
  shows "written (update_bytes k) us = get_session_traffic k ta"
    and "written (connection_bytes k) us = get_connection_traffic k ta"
    and "get_session_traffic k ta' = (0, 0)" "get_connection_traffic k ta' = (0, 0)"
  using assms
  by (auto simp: flush_def Let_def written_append written_sessions written_sessions_other written_connections
      written_connections_other drain_counters_lookup ta_ok_def get_session_traffic_def get_connection_traffic_def)

lemma accountant_run_spec:
  assumes "range_order ord" "ta_ok ta" "accountant_run ord owner es ta = (ta', us)" "k \<noteq> []"
  shows "fst (written (update_bytes k) us) + fst (get_session_traffic k ta') =
      fst (get_session_traffic k ta) + (\<Sum>e\<leftarrow>es. fst (event_bytes k e)) \<and>
    snd (written (update_bytes k) us) + snd (get_session_traffic k ta') =
      snd (get_session_traffic k ta) + (\<Sum>e\<leftarrow>es. snd (event_bytes k e))"
  using assms(2,3)
proof (induction es arbitrary: ta us)
  case Nil
  then show ?case by (simp add: written_def)
next
  case (Cons e es)
  obtain ta1 us1 vs where 1: "(case e of Rx s c n \<Rightarrow> (record_rx s c n ta, []) | Tx s c n \<Rightarrow> (record_tx s c n ta, [])
        | Flush \<Rightarrow> flush ord owner ta) = (ta1, us1)"
    and 2: "accountant_run ord owner es ta1 = (ta', vs)" and us: "us = us1 @ vs"
    using Cons.prems(2) by (auto split: prod.splits)
  have ok: "ta_ok ta1"
    using 1 Cons.prems(1)
    by (auto simp: record_rx_def record_tx_def flush_def ta_ok_def counts_ok_add Let_def
        split: traffic_event.splits if_splits)
  have head: "fst (written (update_bytes k) us1) + fst (get_session_traffic k ta1) =
      fst (get_session_traffic k ta) + fst (event_bytes k e) \<and>
    snd (written (update_bytes k) us1) + snd (get_session_traffic k ta1) =
      snd (get_session_traffic k ta) + snd (event_bytes k e)"
  proof (cases e)
    case Flush
    then show ?thesis
      using 1 flush_spec [OF assms(1) Cons.prems(1), of owner ta1 us1 k]
      by (cases "ta_db ta") (auto simp: flush_def written_def)
  qed (use 1 assms(4) in \<open>auto simp: record_rx_def record_tx_def get_session_traffic_def buffered_add written_def\<close>)
  show ?case using Cons.IH [OF ok 2] head by (simp add: us written_append)
qed

text \<open>
  C31: no byte of a session is lost or counted twice. Whatever is recorded and however often the counters
  are flushed in between, in any order of Go's maps, the bytes sent to the database for a session plus
  the bytes still buffered are exactly the positive byte counts recorded for it, in each direction.
\<close>

theorem session_bytes_conserved:
  assumes "range_order ord" "accountant_run ord owner es (new_accountant db interval) = (ta, us)" "sid \<noteq> []"
  shows "fst (written (update_bytes sid) us) + fst (get_session_traffic sid ta) = (\<Sum>e\<leftarrow>es. fst (event_bytes sid e)) \<and>
    snd (written (update_bytes sid) us) + snd (get_session_traffic sid ta) = (\<Sum>e\<leftarrow>es. snd (event_bytes sid e))"
proof -
  have "ta_ok (new_accountant db interval)"
    by (simp add: ta_ok_def counts_ok_def new_accountant_def buffered_def)
  from accountant_run_spec [OF assms(1) this assms(2,3)]
  show ?thesis
    by (simp add: get_session_traffic_def new_accountant_def buffered_def)
qed

definition demo_traffic :: "traffic_event list" where
  "demo_traffic = [Rx ''s'' ''c'' 100, Flush, Rx ''s'' ''c'' 40, Tx ''s'' ''c'' 7, Flush, Rx ''s'' [] 2]"

theorem session_bytes_conserved_witness:
  "\<exists>ta us. accountant_run sorted_list_of_fset (\<lambda>_. Some ''u'') demo_traffic (new_accountant True 0) = (ta, us) \<and>
     fst (written (update_bytes ''s'') us) + fst (get_session_traffic ''s'' ta) = 142"
proof -
  obtain ta us where r: "accountant_run sorted_list_of_fset (\<lambda>_. Some ''u'') demo_traffic (new_accountant True 0) = (ta, us)"
    by fastforce
  show ?thesis
    using session_bytes_conserved [OF range_order_sorted r, of "''s''"] r by (auto simp: demo_traffic_def)
qed

end
