(* ===== verification/Forwarder.thy ===== *)
theory Forwarder
  imports Device_Writes Accounting Net_Addr
begin

text \<open>
  The packet forwarder (\<^verbatim>\<open>internal/vpn/forwarder\<close>: \<^verbatim>\<open>forwarder.go\<close>, \<^verbatim>\<open>routes.go\<close>, \<^verbatim>\<open>return_path.go\<close>,
  \<^verbatim>\<open>pumps.go\<close>, \<^verbatim>\<open>queues.go\<close>, \<^verbatim>\<open>client_write.go\<close>): its routing tables, the queues between clients and
  backends, and the two packet paths.

  Route objects, traffic counters, token buckets and return paths are shared by pointer and compared by
  identity, so they live in heaps and the tables hold references. A bounded channel is a list with
  its capacity. A section of code under one lock is one definition; where an operation releases the lock
  and takes it again, the interference of other goroutines in between is the argument \<open>env\<close>. The clock
  is read once per section.
\<close>

section \<open>State\<close>

type_synonym packet = "byte list"
type_synonym route_ref = nat
type_synonym path_ref = nat
type_synonym bucket_ref = nat
type_synonym traffic_ref = nat

datatype fwd_error =
    ErrSessionNotRegistered
  | ErrBackendNotFound
  | ErrQueueFull
  | ErrPacketTooLarge
  | ErrRateLimitExceeded
  | ErrSpoofedSourceIP
  | ErrRouteCapacityExhausted
  | ErrReturnRouteMismatch
  | ErrReturnPathClosed
  | ErrRouteLimitExceedsBudget
  | ErrQueueSizeInUse
  | ErrRouteLimitInUse

record return_path =
  rp_closed :: bool
  rp_has_write :: bool

record 'f session_route =
  r_session :: string
  r_connection :: string
  r_peer :: string
  r_ip :: string
  r_backend :: int
  r_path :: "path_ref option"
  r_queue :: "packet list"
  r_capacity :: nat
  r_ready :: bool
  r_high_water :: "64 word"
  r_full_drops :: "64 word"
  r_occupancy :: int
  r_pressure :: "'f pressure_window"
  r_retired :: bool
  r_created_at :: time
  r_traffic :: "'f traffic_counters"
  r_writes :: device_writes
  r_latencies :: route_latency_reservoir
  r_stopped :: bool
  r_limit_down :: int
  r_limit_up :: int
  r_tb_down :: "bucket_ref option"
  r_tb_up :: "bucket_ref option"
  r_pump_started :: bool

record fwd_counters =
  total_rx_bytes :: "64 word"
  total_tx_bytes :: "64 word"
  total_rx_packets :: "64 word"
  total_tx_packets :: "64 word"
  drops_queue_full :: "64 word"
  drops_no_route :: "64 word"
  drops_too_large :: "64 word"
  drops_total :: "64 word"
  client_drops_queue_full :: "64 word"
  client_drops_rate_limited :: "64 word"
  client_drops_no_backend :: "64 word"
  client_drops_total :: "64 word"
  spoofed_rebinds :: "64 word"

record 'f forwarder =
  fw_accountant :: "accountant option"
  routes_by_peer :: "(string, route_ref) fmap"
  routes_by_ip :: "(string, route_ref) fmap"
  fw_routes :: "(route_ref, 'f session_route) fmap"
  next_route :: route_ref
  fw_paths :: "(path_ref, return_path) fmap"
  fw_buckets :: "(bucket_ref, 'f token_bucket) fmap"
  next_bucket :: bucket_ref
  backend_traffic :: "(int, traffic_ref) fmap"
  fw_traffic :: "(traffic_ref, 'f traffic_counters) fmap"
  next_traffic :: traffic_ref
  backend_queues :: "(int, packet list) fmap"
  backend_devices :: "int fset"
  backend_pump_stops :: "int fset"
  buf_size :: int
  backend_buf_size :: int
  max_active_routes :: int
  fw_counters :: fwd_counters
  fw_classifier :: bool
  write_err_log_until :: int
  write_metrics :: device_writes
  write_histogram_of :: "'f write_histogram"
  write_latencies :: latency_reservoir
  writes_in_flight :: "(route_ref, time) fmap"
  gen_epoch :: "64 word"
  backend_traffic_generation :: "64 word"
  aggregate_occupancy :: int
  aggregate_capacity :: int
  queue_dwell_of :: queue_dwell
  aggregate_high_water :: "64 word"
  fw_running :: bool
  pumps_running :: bool
  peer_regs :: "(string, 64 word) fmap"
  stop_timeout :: duration

definition default_client_queue_size :: int where "default_client_queue_size = 2048"
definition default_backend_queue_size :: int where "default_backend_queue_size = 2048"
definition max_supported_active_routes :: int where "max_supported_active_routes = 1000"
definition max_client_queue_packet_bytes :: int where "max_client_queue_packet_bytes = 1500"
definition max_client_queue_memory_bytes :: int where "max_client_queue_memory_bytes = 8 * 2 ^ 30"
definition max_budgeted_active_routes :: int where
  "max_budgeted_active_routes = max_client_queue_memory_bytes div max_client_queue_packet_bytes"

definition no_counters :: fwd_counters where
  "no_counters = \<lparr>total_rx_bytes = 0, total_tx_bytes = 0, total_rx_packets = 0, total_tx_packets = 0,
     drops_queue_full = 0, drops_no_route = 0, drops_too_large = 0, drops_total = 0, client_drops_queue_full = 0,
     client_drops_rate_limited = 0, client_drops_no_backend = 0, client_drops_total = 0, spoofed_rebinds = 0\<rparr>"

definition validate_client_route_limit :: "int \<Rightarrow> fwd_error option" where
  "validate_client_route_limit activeRoutes =
     (if max_budgeted_active_routes < activeRoutes then Some ErrRouteLimitExceedsBudget else None)"

definition max_client_queue_packets_for_routes :: "int \<Rightarrow> int" where
  "max_client_queue_packets_for_routes activeRoutes =
     (let n = (if activeRoutes \<le> 0 then max_supported_active_routes else activeRoutes);
          budget = max_client_queue_memory_bytes sdiv max_client_queue_packet_bytes
      in if budget < n then 0
         else let p = budget sdiv n in if p < 1 then 1 else p)"

text \<open>
  The portal subnet of the constructor is kept for \<open>InPortalSubnet\<close> only, which no operation here calls,
  and the two rate trackers feed the statistics page; both are left out.
\<close>

definition new_forwarder_with_limits ::
    "'f f64 \<Rightarrow> accountant option \<Rightarrow> int \<Rightarrow> int \<Rightarrow> fwd_error + 'f forwarder" where
  "new_forwarder_with_limits F acct queueSize maxActiveRoutes =
     (case validate_client_route_limit maxActiveRoutes of
        Some e \<Rightarrow> Inl e
      | None \<Rightarrow>
          let maxRoutes = (if maxActiveRoutes \<le> 0 then max_supported_active_routes else maxActiveRoutes);
              maxQueue = max_client_queue_packets_for_routes maxRoutes;
              q0 = (if queueSize \<le> 0 then default_client_queue_size else queueSize);
              q = (if maxQueue < q0 then maxQueue else q0)
          in Inr \<lparr>fw_accountant = acct, routes_by_peer = fmempty, routes_by_ip = fmempty, fw_routes = fmempty,
                   next_route = 0, fw_paths = fmempty, fw_buckets = fmempty, next_bucket = 0,
                   backend_traffic = fmempty, fw_traffic = fmempty, next_traffic = 0, backend_queues = fmempty,
                   backend_devices = {||}, backend_pump_stops = {||}, buf_size = q,
                   backend_buf_size = default_backend_queue_size, max_active_routes = maxRoutes,
                   fw_counters = no_counters, fw_classifier = False, write_err_log_until = 0,
                   write_metrics = no_writes, write_histogram_of = new_write_histogram F,
                   write_latencies = new_latency_reservoir, writes_in_flight = fmempty, gen_epoch = 0,
                   backend_traffic_generation = 0, aggregate_occupancy = 0, aggregate_capacity = 0,
                   queue_dwell_of = new_queue_dwell, aggregate_high_water = 0, fw_running = False,
                   pumps_running = False, peer_regs = fmempty, stop_timeout = 0\<rparr>)"

section \<open>Return paths\<close>

definition path_closed :: "'f forwarder \<Rightarrow> path_ref \<Rightarrow> bool" where
  "path_closed f p = (case fmlookup (fw_paths f) p of None \<Rightarrow> False | Some rp \<Rightarrow> rp_closed rp)"

definition new_return_path :: "path_ref \<Rightarrow> bool \<Rightarrow> 'f forwarder \<Rightarrow> 'f forwarder" where
  "new_return_path p hasWrite f = f\<lparr>fw_paths := fmupd p \<lparr>rp_closed = False, rp_has_write = hasWrite\<rparr> (fw_paths f)\<rparr>"

definition close_path :: "path_ref \<Rightarrow> 'f forwarder \<Rightarrow> 'f forwarder" where
  "close_path p f =
     (case fmlookup (fw_paths f) p of None \<Rightarrow> f
      | Some rp \<Rightarrow> f\<lparr>fw_paths := fmupd p (rp\<lparr>rp_closed := True\<rparr>) (fw_paths f)\<rparr>)"

text \<open>\<open>ReturnPath.Write\<close> either refuses or hands the packet to the engine's callback.\<close>

definition path_write :: "'f forwarder \<Rightarrow> path_ref option \<Rightarrow> string \<Rightarrow> string \<Rightarrow> packet \<Rightarrow> fwd_error + string \<times> string \<times> packet" where
  "path_write f p peerKey assignedIP pkt =
     (case p of
        None \<Rightarrow> Inl ErrReturnPathClosed
      | Some q \<Rightarrow>
          (case fmlookup (fw_paths f) q of
             None \<Rightarrow> Inl ErrReturnPathClosed
           | Some rp \<Rightarrow> if rp_closed rp \<or> \<not> rp_has_write rp then Inl ErrReturnPathClosed
                        else Inr (peerKey, assignedIP, pkt)))"

definition be16 :: "byte \<Rightarrow> byte \<Rightarrow> nat" where
  "be16 a b = unat a * 256 + unat b"

definition packet_addr :: "packet \<Rightarrow> nat \<Rightarrow> ipv4" where
  "packet_addr pkt i = ipv4_of_bytes [pkt ! i, pkt ! (i + 1), pkt ! (i + 2), pkt ! (i + 3)]"

definition valid_return_destination :: "packet \<Rightarrow> string \<Rightarrow> bool" where
  "valid_return_destination pkt destination =
     (if length pkt < 20 \<or> drop_bit 4 (pkt ! 0) \<noteq> 4 then False
      else let header = unat (pkt ! 0 AND 15) * 4; total = be16 (pkt ! 2) (pkt ! 3)
           in if header < 20 \<or> length pkt < header \<or> total < header \<or> length pkt < total then False
              else ip_string (packet_addr pkt 16) = destination)"

definition route_writer_write :: "'f forwarder \<Rightarrow> path_ref option \<Rightarrow> string \<Rightarrow> string \<Rightarrow> packet \<Rightarrow> fwd_error + string \<times> string \<times> packet" where
  "route_writer_write f p peerKey assignedIP pkt =
     (if \<not> valid_return_destination pkt assignedIP then Inl ErrReturnRouteMismatch
      else path_write f p peerKey assignedIP pkt)"

section \<open>Queue accounting\<close>

definition upd_route :: "route_ref \<Rightarrow> ('f session_route \<Rightarrow> 'f session_route) \<Rightarrow> 'f forwarder \<Rightarrow> 'f forwarder" where
  "upd_route r g f =
     (case fmlookup (fw_routes f) r of None \<Rightarrow> f | Some rt \<Rightarrow> f\<lparr>fw_routes := fmupd r (g rt) (fw_routes f)\<rparr>)"

definition change_queue_capacity :: "'f f64 \<Rightarrow> time \<Rightarrow> int \<Rightarrow> 'f forwarder \<Rightarrow> 'f forwarder" where
  "change_queue_capacity F now delta f =
     (let cap' = aggregate_capacity f + delta
      in f\<lparr>aggregate_capacity := cap', queue_dwell_of := dwell_observe F now (aggregate_occupancy f) cap' (queue_dwell_of f)\<rparr>)"

definition reconcile_before_queue_mutation :: "'f f64 \<Rightarrow> time \<Rightarrow> route_ref \<Rightarrow> 'f forwarder \<Rightarrow> 'f forwarder" where
  "reconcile_before_queue_mutation F now r f =
     (case fmlookup (fw_routes f) r of
        None \<Rightarrow> f
      | Some rt \<Rightarrow>
          let occ = int (length (r_queue rt))
          in if occ = r_occupancy rt then f
             else let f1 = upd_route r (\<lambda>rt. rt\<lparr>r_occupancy := occ\<rparr>) f;
                      agg = aggregate_occupancy f + (occ - r_occupancy rt)
                  in f1\<lparr>aggregate_occupancy := agg,
                        queue_dwell_of := dwell_reconcile F now agg (aggregate_capacity f) (queue_dwell_of f)\<rparr>)"

definition reconcile_queue_occupancy :: "'f f64 \<Rightarrow> time \<Rightarrow> route_ref \<Rightarrow> 'f forwarder \<Rightarrow> 'f forwarder" where
  "reconcile_queue_occupancy F now r f =
     (case fmlookup (fw_routes f) r of
        None \<Rightarrow> f
      | Some rt \<Rightarrow>
          let occ = int (length (r_queue rt));
              f1 = upd_route r (\<lambda>rt. rt\<lparr>r_occupancy := occ\<rparr>) f;
              agg = aggregate_occupancy f + (occ - r_occupancy rt)
          in f1\<lparr>aggregate_occupancy := agg,
                queue_dwell_of := dwell_observe F now agg (aggregate_capacity f) (queue_dwell_of f)\<rparr>)"

definition stop_route_pump :: "route_ref \<Rightarrow> 'f forwarder \<Rightarrow> 'f forwarder" where
  "stop_route_pump =
     (\<lambda>r. upd_route r (\<lambda>rt. if r_stopped rt then rt
                           else rt\<lparr>r_retired := True, r_stopped := True, r_pump_started := False\<rparr>))"

fun drain_loop :: "'f f64 \<Rightarrow> time \<Rightarrow> route_ref \<Rightarrow> nat \<Rightarrow> 'f forwarder \<Rightarrow> 'f forwarder" where
  "drain_loop F now r 0 f = f"
| "drain_loop F now r (Suc n) f =
     drain_loop F now r n (reconcile_queue_occupancy F now r (upd_route r (\<lambda>rt. rt\<lparr>r_queue := tl (r_queue rt)\<rparr>) f))"

definition queue_length :: "'f forwarder \<Rightarrow> route_ref \<Rightarrow> nat" where
  "queue_length f r = (case fmlookup (fw_routes f) r of None \<Rightarrow> 0 | Some rt \<Rightarrow> length (r_queue rt))"

definition drain_route_queue :: "'f f64 \<Rightarrow> time \<Rightarrow> route_ref \<Rightarrow> 'f forwarder \<Rightarrow> 'f forwarder" where
  "drain_route_queue F now r f =
     (let f1 = reconcile_before_queue_mutation F now r f in drain_loop F now r (queue_length f1 r) f1)"

section \<open>The routing tables\<close>

definition ensure_backend_traffic :: "'f f64 \<Rightarrow> int \<Rightarrow> 'f forwarder \<Rightarrow> 'f forwarder" where
  "ensure_backend_traffic F b f =
     (if fmlookup (backend_traffic f) b = None
      then f\<lparr>backend_traffic := fmupd b (next_traffic f) (backend_traffic f),
             fw_traffic := fmupd (next_traffic f) (new_traffic_counters F) (fw_traffic f),
             next_traffic := next_traffic f + 1\<rparr>
      else f)"

definition ensure_backend_queue :: "'f f64 \<Rightarrow> int \<Rightarrow> 'f forwarder \<Rightarrow> 'f forwarder" where
  "ensure_backend_queue F b f =
     (if fmlookup (backend_queues f) b = None
      then ensure_backend_traffic F b (f\<lparr>backend_queues := fmupd b [] (backend_queues f)\<rparr>) else f)"

definition alloc_bucket :: "'f token_bucket option \<Rightarrow> 'f forwarder \<Rightarrow> 'f forwarder \<times> bucket_ref option" where
  "alloc_bucket tb f =
     (case tb of
        None \<Rightarrow> (f, None)
      | Some b \<Rightarrow> (f\<lparr>fw_buckets := fmupd (next_bucket f) b (fw_buckets f), next_bucket := next_bucket f + 1\<rparr>,
                  Some (next_bucket f)))"

text \<open>The removal every retirement shares: the address entry only if it is this route's, then the peer's.\<close>

definition drop_route_ip :: "route_ref \<Rightarrow> string \<Rightarrow> 'f forwarder \<Rightarrow> 'f forwarder" where
  "drop_route_ip r ip f =
     (if fmlookup (routes_by_ip f) ip = Some r then f\<lparr>routes_by_ip := fmdrop ip (routes_by_ip f)\<rparr> else f)"

definition retire_queue :: "'f f64 \<Rightarrow> time \<Rightarrow> route_ref \<Rightarrow> 'f session_route \<Rightarrow> 'f forwarder \<Rightarrow> 'f forwarder" where
  "retire_queue F now r rt f =
     change_queue_capacity F now (- int (r_capacity rt)) (drain_route_queue F now r (stop_route_pump r f))"

record route_args =
  a_session :: string
  a_connection :: string
  a_peer :: string
  a_ip :: string
  a_backend :: int
  a_limit_down :: int
  a_limit_up :: int
  a_path :: "path_ref option"

definition fresh_route :: "'f f64 \<Rightarrow> time \<Rightarrow> int \<Rightarrow> route_args \<Rightarrow> bucket_ref option \<Rightarrow> bucket_ref option \<Rightarrow> 'f session_route" where
  "fresh_route F now bufSize a tbDown tbUp =
     \<lparr>r_session = a_session a, r_connection = a_connection a, r_peer = a_peer a, r_ip = a_ip a,
      r_backend = a_backend a, r_path = a_path a, r_queue = [], r_capacity = nat bufSize, r_ready = False,
      r_high_water = 0, r_full_drops = 0, r_occupancy = 0, r_pressure = new_pressure_window F, r_retired = False,
      r_created_at = now, r_traffic = new_traffic_counters F, r_writes = no_writes,
      r_latencies = new_route_latency_reservoir, r_stopped = False, r_limit_down = a_limit_down a,
      r_limit_up = a_limit_up a, r_tb_down = tbDown, r_tb_up = tbUp, r_pump_started = False\<rparr>"

definition route_limit :: "'f forwarder \<Rightarrow> int" where
  "route_limit f = (if max_active_routes f \<le> 0 then max_supported_active_routes else max_active_routes f)"

definition replace_old_route :: "'f f64 \<Rightarrow> time \<Rightarrow> string \<Rightarrow> 'f forwarder \<Rightarrow> 'f forwarder \<times> route_ref option" where
  "replace_old_route F now peer f =
     (case fmlookup (routes_by_peer f) peer of
        None \<Rightarrow> (f, None)
      | Some r \<Rightarrow>
          (case fmlookup (fw_routes f) r of
             None \<Rightarrow> (f, None)
           | Some old \<Rightarrow>
               let f1 = retire_queue F now r old f
               in (if r_ip old \<noteq> [] then drop_route_ip r (r_ip old) f1 else f1, Some r)))"

text \<open>The retirement returned is the reference of the replaced route.\<close>

definition register_session_locked ::
    "'f f64 \<Rightarrow> time \<Rightarrow> route_args \<Rightarrow> 'f forwarder \<Rightarrow> 'f forwarder \<times> (fwd_error + route_ref option)" where
  "register_session_locked F now a f =
     (if (case a_path a of None \<Rightarrow> False | Some p \<Rightarrow> path_closed f p) then (f, Inl ErrReturnPathClosed)
      else if fmlookup (routes_by_peer f) (a_peer a) = None \<and> route_limit f \<le> int (go_len (routes_by_peer f))
      then (f, Inl ErrRouteCapacityExhausted)
      else
        let f1 = ensure_backend_queue F (a_backend a) f;
            (f2, tbDown) = alloc_bucket (new_token_bucket F now (a_limit_down a) []) f1;
            (f3, tbUp) = alloc_bucket (new_token_bucket F now (a_limit_up a) []) f2;
            r = next_route f3;
            route = (fresh_route F now (buf_size f3) a tbDown tbUp)\<lparr>r_pump_started := pumps_running f3\<rparr>;
            (f4, old) = replace_old_route F now (a_peer a) f3;
            regs = (case fmlookup (peer_regs f4) (a_peer a) of None \<Rightarrow> 0 | Some n \<Rightarrow> n);
            f5 = f4\<lparr>peer_regs := fmupd (a_peer a) (regs + 1) (peer_regs f4),
                    routes_by_peer := fmupd (a_peer a) r (routes_by_peer f4),
                    fw_routes := fmupd r route (fw_routes f4), next_route := r + 1\<rparr>;
            f6 = change_queue_capacity F now (int (r_capacity route)) f5
        in (if a_ip a \<noteq> [] then f6\<lparr>routes_by_ip := fmupd (a_ip a) r (routes_by_ip f6)\<rparr> else f6, Inr old))"

definition try_register_session_with_return_path ::
    "'f f64 \<Rightarrow> time \<Rightarrow> route_args \<Rightarrow> 'f forwarder \<Rightarrow> 'f forwarder \<times> (fwd_error + route_ref option)" where
  "try_register_session_with_return_path F now a f =
     (if (case a_path a of None \<Rightarrow> False | Some p \<Rightarrow> path_closed f p) then (f, Inl ErrReturnPathClosed)
      else register_session_locked F now a f)"

definition try_register_session_with_limit ::
    "'f f64 \<Rightarrow> time \<Rightarrow> route_args \<Rightarrow> 'f forwarder \<Rightarrow> 'f forwarder \<times> (fwd_error + route_ref option)" where
  "try_register_session_with_limit F now a f = try_register_session_with_return_path F now (a\<lparr>a_path := None\<rparr>) f"

text \<open>A rebinding keeps the buckets: the new route object takes over the old one's pointers.\<close>

definition bind_session_return_path ::
    "'f f64 \<Rightarrow> time \<Rightarrow> route_args \<Rightarrow> 'f forwarder \<Rightarrow> 'f forwarder \<times> (fwd_error + route_ref option)" where
  "bind_session_return_path F now a f =
     (if (case a_path a of None \<Rightarrow> False | Some p \<Rightarrow> path_closed f p) then (f, Inl ErrReturnPathClosed)
      else case fmlookup (routes_by_peer f) (a_peer a) of
        None \<Rightarrow> (f, Inl ErrSessionNotRegistered)
      | Some r \<Rightarrow>
          (case fmlookup (fw_routes f) r of
             None \<Rightarrow> (f, Inl ErrSessionNotRegistered)
           | Some old \<Rightarrow>
               if r_session old \<noteq> a_session a \<or> r_connection old \<noteq> a_connection a \<or> r_ip old \<noteq> a_ip a \<or>
                  r_backend old \<noteq> a_backend a
               then (f, Inl ErrSessionNotRegistered)
               else if r_path old = a_path a then (f, Inr None)
               else (case register_session_locked F now (a\<lparr>a_limit_down := r_limit_down old, a_limit_up := r_limit_up old\<rparr>) f of
                       (f1, Inl e) \<Rightarrow> (f1, Inl e)
                     | (f1, Inr retired) \<Rightarrow>
                         (case fmlookup (routes_by_peer f1) (a_peer a) of
                            None \<Rightarrow> (f1, Inr retired)
                          | Some current \<Rightarrow>
                              (upd_route current (\<lambda>rt. rt\<lparr>r_tb_down := r_tb_down old, r_tb_up := r_tb_up old\<rparr>) f1,
                               Inr retired)))))"

definition begin_unregister_session ::
    "'f f64 \<Rightarrow> time \<Rightarrow> string \<Rightarrow> string \<Rightarrow> 'f forwarder \<Rightarrow> 'f forwarder \<times> route_ref option" where
  "begin_unregister_session F now peerKey sessionID f =
     (case fmlookup (routes_by_peer f) peerKey of
        None \<Rightarrow> (f, None)
      | Some r \<Rightarrow>
          (case fmlookup (fw_routes f) r of
             None \<Rightarrow> (f, None)
           | Some route \<Rightarrow>
               if sessionID = [] \<or> r_session route = sessionID
               then let f1 = drop_route_ip r (r_ip route) f;
                        f2 = f1\<lparr>routes_by_peer := fmdrop peerKey (routes_by_peer f1)\<rparr>
                    in (retire_queue F now r route f2, Some r)
               else (f, None)))"

text \<open>The exported form refuses an empty session identifier.\<close>

definition begin_unregister_session_checked ::
    "'f f64 \<Rightarrow> time \<Rightarrow> string \<Rightarrow> string \<Rightarrow> 'f forwarder \<Rightarrow> 'f forwarder \<times> route_ref option" where
  "begin_unregister_session_checked F now peerKey sessionID f =
     (if sessionID = [] then (f, None) else begin_unregister_session F now peerKey sessionID f)"

definition update_route_backend :: "'f f64 \<Rightarrow> string \<Rightarrow> int \<Rightarrow> 'f forwarder \<Rightarrow> 'f forwarder \<times> (fwd_error + unit)" where
  "update_route_backend F peerKey newBackend f =
     (case fmlookup (routes_by_peer f) peerKey of
        None \<Rightarrow> (f, Inl ErrSessionNotRegistered)
      | Some r \<Rightarrow> (upd_route r (\<lambda>rt. rt\<lparr>r_backend := newBackend\<rparr>) (ensure_backend_queue F newBackend f), Inr ()))"

definition retire_one :: "'f f64 \<Rightarrow> time \<Rightarrow> route_ref \<Rightarrow> 'f forwarder \<Rightarrow> 'f forwarder" where
  "retire_one F now r f =
     (case fmlookup (fw_routes f) r of
        None \<Rightarrow> f
      | Some route \<Rightarrow>
          let f1 = drop_route_ip r (r_ip route) f;
              f2 = f1\<lparr>routes_by_peer := fmdrop (r_peer route) (routes_by_peer f1)\<rparr>
          in retire_queue F now r route f2)"

definition matching_routes ::
    "(string fset \<Rightarrow> string list) \<Rightarrow> ('f session_route \<Rightarrow> bool) \<Rightarrow> 'f forwarder \<Rightarrow> route_ref list" where
  "matching_routes ord P f =
     concat (map (\<lambda>k. case fmlookup (routes_by_peer f) k of
                       None \<Rightarrow> []
                     | Some r \<Rightarrow> (case fmlookup (fw_routes f) r of
                                   None \<Rightarrow> [] | Some rt \<Rightarrow> if P rt then [r] else []))
                 (ord (fmdom (routes_by_peer f))))"

definition retire_routes_matching ::
    "(string fset \<Rightarrow> string list) \<Rightarrow> 'f f64 \<Rightarrow> time \<Rightarrow> ('f session_route \<Rightarrow> bool) \<Rightarrow> 'f forwarder \<Rightarrow> 'f forwarder \<times> route_ref list" where
  "retire_routes_matching ord F now P f =
     (let rs = matching_routes ord P f in (fold (retire_one F now) rs f, rs))"

definition retire_all_routes ::
    "(string fset \<Rightarrow> string list) \<Rightarrow> 'f f64 \<Rightarrow> time \<Rightarrow> 'f forwarder \<Rightarrow> 'f forwarder \<times> route_ref list" where
  "retire_all_routes ord F now f =
     (case retire_routes_matching ord F now (\<lambda>_. True) f of
        (f1, rs) \<Rightarrow>
          (f1\<lparr>routes_by_peer := fmempty, routes_by_ip := fmempty, aggregate_occupancy := 0, aggregate_capacity := 0,
              queue_dwell_of := dwell_observe F now 0 0 (queue_dwell_of f1)\<rparr>, rs))"

definition retire_routes_by_return_path ::
    "(string fset \<Rightarrow> string list) \<Rightarrow> 'f f64 \<Rightarrow> time \<Rightarrow> path_ref option \<Rightarrow> 'f forwarder \<Rightarrow> 'f forwarder \<times> route_ref list" where
  "retire_routes_by_return_path ord F now p = retire_routes_matching ord F now (\<lambda>rt. r_path rt = p)"

section \<open>Queries\<close>

definition lookup_route :: "'f forwarder \<Rightarrow> string \<Rightarrow> (route_ref \<times> 'f session_route) option" where
  "lookup_route f peerKey =
     (case fmlookup (routes_by_peer f) peerKey of
        None \<Rightarrow> None
      | Some r \<Rightarrow> (case fmlookup (fw_routes f) r of None \<Rightarrow> None | Some rt \<Rightarrow> Some (r, rt)))"

definition route_session_id :: "'f forwarder \<Rightarrow> string \<Rightarrow> string" where
  "route_session_id f peerKey = (case lookup_route f peerKey of None \<Rightarrow> [] | Some (r, rt) \<Rightarrow> r_session rt)"

definition route_matches :: "'f session_route \<Rightarrow> string \<Rightarrow> string \<Rightarrow> string \<Rightarrow> int \<Rightarrow> bool" where
  "route_matches rt sessionID connectionID assignedIP backend \<longleftrightarrow>
     r_session rt = sessionID \<and> r_connection rt = connectionID \<and> r_ip rt = assignedIP \<and> r_backend rt = backend"

definition has_session_route :: "'f forwarder \<Rightarrow> string \<Rightarrow> string \<Rightarrow> string \<Rightarrow> string \<Rightarrow> int \<Rightarrow> bool" where
  "has_session_route f peerKey sessionID connectionID assignedIP backend =
     (case lookup_route f peerKey of
        None \<Rightarrow> False
      | Some (r, rt) \<Rightarrow> \<not> r_retired rt \<and> route_matches rt sessionID connectionID assignedIP backend \<and>
                       fmlookup (routes_by_ip f) assignedIP = Some r)"

definition has_session_route_with_return_path ::
    "'f forwarder \<Rightarrow> string \<Rightarrow> string \<Rightarrow> string \<Rightarrow> string \<Rightarrow> int \<Rightarrow> path_ref option \<Rightarrow> bool" where
  "has_session_route_with_return_path f peerKey sessionID connectionID assignedIP backend p =
     (case p of
        None \<Rightarrow> False
      | Some q \<Rightarrow>
          \<not> path_closed f q \<and>
          (case lookup_route f peerKey of
             None \<Rightarrow> False
           | Some (r, rt) \<Rightarrow> \<not> r_stopped rt \<and> route_matches rt sessionID connectionID assignedIP backend \<and>
                            r_path rt = p \<and> fmlookup (routes_by_ip f) assignedIP = Some r))"

definition peer_registration :: "'f forwarder \<Rightarrow> string \<Rightarrow> 64 word" where
  "peer_registration f peerKey = (case fmlookup (peer_regs f) peerKey of None \<Rightarrow> 0 | Some n \<Rightarrow> n)"

definition has_routes_for_return_path :: "'f forwarder \<Rightarrow> path_ref option \<Rightarrow> bool" where
  "has_routes_for_return_path f p \<longleftrightarrow>
     p \<noteq> None \<and> fBex (fmran (routes_by_peer f))
       (\<lambda>r. case fmlookup (fw_routes f) r of None \<Rightarrow> False | Some rt \<Rightarrow> r_path rt = p)"

definition return_route_owner :: "'f forwarder \<Rightarrow> string" where
  "return_route_owner f =
     (if fBex (fmran (routes_by_peer f))
           (\<lambda>r. case fmlookup (fw_routes f) r of
                  None \<Rightarrow> False
                | Some rt \<Rightarrow> \<not> r_stopped rt \<and> (case r_path rt of None \<Rightarrow> False | Some p \<Rightarrow> \<not> path_closed f p))
      then ''upstream'' else ''none'')"

definition active_routes_count :: "'f forwarder \<Rightarrow> nat" where
  "active_routes_count f = go_len (routes_by_peer f)"

section \<open>Rate limits and queue configuration\<close>

definition set_peer_rate_limit :: "'f f64 \<Rightarrow> time \<Rightarrow> string \<Rightarrow> int \<Rightarrow> int \<Rightarrow> 'f forwarder \<Rightarrow> 'f forwarder \<times> (fwd_error + unit)" where
  "set_peer_rate_limit F now peerKey down up f =
     (case fmlookup (routes_by_peer f) peerKey of
        None \<Rightarrow> (f, Inl ErrSessionNotRegistered)
      | Some r \<Rightarrow>
          let (f1, tbDown) = alloc_bucket (new_token_bucket F now down []) f;
              (f2, tbUp) = alloc_bucket (new_token_bucket F now up []) f1
          in (upd_route r (\<lambda>rt. rt\<lparr>r_limit_down := down, r_limit_up := up, r_tb_down := tbDown, r_tb_up := tbUp\<rparr>) f2,
              Inr ()))"

definition get_peer_rate_limit :: "'f forwarder \<Rightarrow> string \<Rightarrow> fwd_error + int \<times> int" where
  "get_peer_rate_limit f peerKey =
     (case lookup_route f peerKey of
        None \<Rightarrow> Inl ErrSessionNotRegistered | Some (r, rt) \<Rightarrow> Inr (r_limit_down rt, r_limit_up rt))"

definition reconfigure_client_queue_config :: "int \<Rightarrow> int \<Rightarrow> 'f forwarder \<Rightarrow> 'f forwarder \<times> (fwd_error + unit)" where
  "reconfigure_client_queue_config qsize maxActiveRoutes f =
     (case validate_client_route_limit maxActiveRoutes of
        Some e \<Rightarrow> (f, Inl e)
      | None \<Rightarrow>
          let maxRoutes = (if maxActiveRoutes \<le> 0 then max_supported_active_routes else maxActiveRoutes);
              maxQueue = max_client_queue_packets_for_routes maxRoutes;
              q0 = (if qsize \<le> 0 then default_client_queue_size else qsize);
              q = (if maxQueue < q0 then maxQueue else q0)
          in if 0 < go_len (routes_by_peer f) \<and> q \<noteq> buf_size f then (f, Inl ErrQueueSizeInUse)
             else if maxRoutes < int (go_len (routes_by_peer f)) then (f, Inl ErrRouteLimitInUse)
             else (f\<lparr>buf_size := q, max_active_routes := maxRoutes\<rparr>, Inr ()))"

section \<open>Counters\<close>

definition count_up :: "(fwd_counters \<Rightarrow> fwd_counters) \<Rightarrow> 'f forwarder \<Rightarrow> 'f forwarder" where
  "count_up g f = f\<lparr>fw_counters := g (fw_counters f)\<rparr>"

definition drop_no_route :: "'f forwarder \<Rightarrow> 'f forwarder" where
  "drop_no_route = count_up (\<lambda>c. c\<lparr>drops_no_route := drops_no_route c + 1, drops_total := drops_total c + 1\<rparr>)"

definition drop_too_large :: "'f forwarder \<Rightarrow> 'f forwarder" where
  "drop_too_large = count_up (\<lambda>c. c\<lparr>drops_too_large := drops_too_large c + 1, drops_total := drops_total c + 1\<rparr>)"

definition drop_queue_full :: "'f forwarder \<Rightarrow> 'f forwarder" where
  "drop_queue_full = count_up (\<lambda>c. c\<lparr>drops_queue_full := drops_queue_full c + 1, drops_total := drops_total c + 1\<rparr>)"

definition drop_client_no_backend :: "'f forwarder \<Rightarrow> 'f forwarder" where
  "drop_client_no_backend = count_up (\<lambda>c. c\<lparr>client_drops_no_backend := client_drops_no_backend c + 1,
     client_drops_total := client_drops_total c + 1\<rparr>)"

definition drop_client_rate_limited :: "'f forwarder \<Rightarrow> 'f forwarder" where
  "drop_client_rate_limited = count_up (\<lambda>c. c\<lparr>client_drops_rate_limited := client_drops_rate_limited c + 1,
     client_drops_total := client_drops_total c + 1\<rparr>)"

definition drop_client_queue_full :: "'f forwarder \<Rightarrow> 'f forwarder" where
  "drop_client_queue_full = count_up (\<lambda>c. c\<lparr>client_drops_queue_full := client_drops_queue_full c + 1,
     client_drops_total := client_drops_total c + 1\<rparr>)"

definition reset_drop_counters :: "'f forwarder \<Rightarrow> 'f forwarder" where
  "reset_drop_counters = count_up (\<lambda>c. c\<lparr>drops_queue_full := 0, drops_no_route := 0, drops_too_large := 0,
     drops_total := 0, client_drops_queue_full := 0, client_drops_rate_limited := 0, client_drops_no_backend := 0,
     client_drops_total := 0\<rparr>)"

text \<open>A bucket taken through a captured pointer; a nil pointer never limits.\<close>

definition bucket_allow :: "'f f64 \<Rightarrow> time \<Rightarrow> int \<Rightarrow> bucket_ref option \<Rightarrow> 'f forwarder \<Rightarrow> 'f forwarder \<times> bool" where
  "bucket_allow F now n tb f =
     (case tb of
        None \<Rightarrow> (f, True)
      | Some b \<Rightarrow>
          (case tb_allow F now n (fmlookup (fw_buckets f) b) of
             (None, ok) \<Rightarrow> (f, ok)
           | (Some tb', ok) \<Rightarrow> (f\<lparr>fw_buckets := fmupd b tb' (fw_buckets f)\<rparr>, ok)))"

definition unix_epoch :: time where "unix_epoch = 62135596800 * second"

definition record_backend_traffic :: "64 word \<Rightarrow> bool \<Rightarrow> time \<Rightarrow> traffic_ref option \<Rightarrow> 'f forwarder \<Rightarrow> 'f forwarder" where
  "record_backend_traffic n rx now t f =
     (case t of
        None \<Rightarrow> f
      | Some q \<Rightarrow>
          (case fmlookup (fw_traffic f) q of
             None \<Rightarrow> f
           | Some c \<Rightarrow> f\<lparr>fw_traffic := fmupd q (record_traffic n rx (now - unix_epoch) c) (fw_traffic f)\<rparr>))"

definition record_route_traffic :: "64 word \<Rightarrow> bool \<Rightarrow> time \<Rightarrow> route_ref \<Rightarrow> 'f forwarder \<Rightarrow> 'f forwarder" where
  "record_route_traffic n rx now r =
     upd_route r (\<lambda>rt. rt\<lparr>r_traffic := record_traffic n rx (now - unix_epoch) (r_traffic rt)\<rparr>)"

section \<open>From a client to its backend\<close>

definition source_ip :: "packet \<Rightarrow> string" where
  "source_ip pkt =
     (if 20 \<le> length pkt \<and> drop_bit 4 (pkt ! 0) = 4 then ip_string (packet_addr pkt 12) else [])"

text \<open>What the first section hands to the second: pointers and identifiers read under the lock.\<close>

record client_admission =
  ca_route :: route_ref
  ca_backend :: int
  ca_session :: string
  ca_connection :: string
  ca_bucket :: "bucket_ref option"
  ca_traffic :: "traffic_ref option"

definition client_admit :: "string \<Rightarrow> packet \<Rightarrow> path_ref option \<Rightarrow> 'f forwarder \<Rightarrow> 'f forwarder \<times> (fwd_error + client_admission)" where
  "client_admit peerKey pkt p f =
     (let srcIP = source_ip pkt
      in case lookup_route f peerKey of
           None \<Rightarrow> (f, Inl ErrSessionNotRegistered)
         | Some (r, route) \<Rightarrow>
             if p \<noteq> None \<and> r_path route \<noteq> p then (f, Inl ErrSessionNotRegistered)
             else if srcIP \<noteq> [] \<and> srcIP \<noteq> ''0.0.0.0'' \<and> r_ip route \<noteq> srcIP
             then (count_up (\<lambda>c. c\<lparr>spoofed_rebinds := spoofed_rebinds c + 1\<rparr>) f, Inl ErrSpoofedSourceIP)
             else if fmlookup (backend_queues f) (r_backend route) = None
             then (drop_client_no_backend f, Inl ErrBackendNotFound)
             else (f, Inr \<lparr>ca_route = r, ca_backend = r_backend route, ca_session = r_session route,
                           ca_connection = r_connection route, ca_bucket = r_tb_up route,
                           ca_traffic = fmlookup (backend_traffic f) (r_backend route)\<rparr>))"

text \<open>
  The queue channel is captured as a pointer; a backend's queue is created once and never replaced, so
  it is the queue of that identifier.
\<close>

definition client_enqueue :: "'f f64 \<Rightarrow> time \<Rightarrow> packet \<Rightarrow> client_admission \<Rightarrow> 'f forwarder \<Rightarrow> 'f forwarder \<times> (fwd_error + unit)" where
  "client_enqueue F now pkt a f =
     (case bucket_allow F now (int (length pkt)) (ca_bucket a) f of
        (f1, False) \<Rightarrow> (drop_client_rate_limited f1, Inl ErrRateLimitExceeded)
      | (f1, True) \<Rightarrow>
          let q = (case fmlookup (backend_queues f1) (ca_backend a) of None \<Rightarrow> [] | Some q \<Rightarrow> q);
              n = word_of_nat (length pkt)
          in if int (length q) < backend_buf_size f1
             then let f2 = f1\<lparr>backend_queues := fmupd (ca_backend a) (q @ [pkt]) (backend_queues f1)\<rparr>;
                      f3 = count_up (\<lambda>c. c\<lparr>total_rx_bytes := total_rx_bytes c + n,
                                          total_rx_packets := total_rx_packets c + 1\<rparr>) f2;
                      f4 = record_route_traffic n True now (ca_route a) f3;
                      f5 = record_backend_traffic n True now (ca_traffic a) f4
                  in (f5\<lparr>fw_accountant := map_option (record_rx (ca_session a) (ca_connection a) (int (length pkt)))
                          (fw_accountant f5)\<rparr>, Inr ())
             else (drop_client_queue_full f1, Inl ErrQueueFull))"

definition route_client_to_backend_on ::
    "'f f64 \<Rightarrow> time \<Rightarrow> ('f forwarder \<Rightarrow> 'f forwarder) \<Rightarrow> string \<Rightarrow> packet \<Rightarrow> path_ref option \<Rightarrow> 'f forwarder \<Rightarrow>
     'f forwarder \<times> (fwd_error + unit)" where
  "route_client_to_backend_on F now env peerKey pkt p f =
     (case client_admit peerKey pkt p f of
        (f1, Inl e) \<Rightarrow> (f1, Inl e)
      | (f1, Inr a) \<Rightarrow> client_enqueue F now pkt a (env f1))"

definition route_client_to_backend ::
    "'f f64 \<Rightarrow> time \<Rightarrow> ('f forwarder \<Rightarrow> 'f forwarder) \<Rightarrow> string \<Rightarrow> packet \<Rightarrow> 'f forwarder \<Rightarrow> 'f forwarder \<times> (fwd_error + unit)" where
  "route_client_to_backend F now env peerKey pkt f = route_client_to_backend_on F now env peerKey pkt None f"

definition route_client_to_backend_with_return_path ::
    "'f f64 \<Rightarrow> time \<Rightarrow> ('f forwarder \<Rightarrow> 'f forwarder) \<Rightarrow> string \<Rightarrow> packet \<Rightarrow> path_ref option \<Rightarrow> 'f forwarder \<Rightarrow>
     'f forwarder \<times> (fwd_error + unit)" where
  "route_client_to_backend_with_return_path F now env peerKey pkt p f =
     (if (case p of None \<Rightarrow> True | Some q \<Rightarrow> path_closed f q) then (f, Inl ErrReturnPathClosed)
      else route_client_to_backend_on F now env peerKey pkt p f)"

section \<open>From a backend to a client\<close>

datatype reject_reason = ReturnRejectedUnrouted | ReturnRejectedMalformed | ReturnRejectedMismatch

text \<open>The classifier call, when one is registered, is part of the answer.\<close>

definition classify :: "'f forwarder \<Rightarrow> reject_reason \<Rightarrow> reject_reason list" where
  "classify f reason = (if fw_classifier f then [reason] else [])"

record return_admission =
  ra_route :: route_ref
  ra_session :: string
  ra_connection :: string
  ra_bucket :: "bucket_ref option"
  ra_traffic :: "traffic_ref option"

definition return_admit ::
    "int \<Rightarrow> packet \<Rightarrow> string \<Rightarrow> 'f forwarder \<Rightarrow> 'f forwarder \<times> (fwd_error + return_admission) \<times> reject_reason list" where
  "return_admit backend pkt destIP f =
     (case (case fmlookup (routes_by_ip f) destIP of
              None \<Rightarrow> None
            | Some r \<Rightarrow> (case fmlookup (fw_routes f) r of None \<Rightarrow> None | Some rt \<Rightarrow> Some (r, rt))) of
        None \<Rightarrow> (drop_no_route f, Inl ErrSessionNotRegistered, classify f ReturnRejectedUnrouted)
      | Some (r, route) \<Rightarrow>
          if r_path route \<noteq> None \<and> backend \<noteq> r_backend route
          then (drop_no_route f, Inl ErrReturnRouteMismatch, classify f ReturnRejectedMismatch)
          else if r_path route \<noteq> None \<and> \<not> valid_return_destination pkt destIP
          then (drop_no_route f, Inl ErrReturnRouteMismatch, classify f ReturnRejectedMalformed)
          else (f, Inr \<lparr>ra_route = r, ra_session = r_session route, ra_connection = r_connection route,
                        ra_bucket = r_tb_down route, ra_traffic = fmlookup (backend_traffic f) backend\<rparr>, []))"

definition raise_mark :: "64 word \<Rightarrow> 64 word \<Rightarrow> 64 word" where
  "raise_mark current new = (if current < new then new else current)"

text \<open>The second section: the route is looked up again, and must be the same object.\<close>

definition return_enqueue ::
    "'f f64 \<Rightarrow> time \<Rightarrow> packet \<Rightarrow> string \<Rightarrow> return_admission \<Rightarrow> 'f forwarder \<Rightarrow>
     'f forwarder \<times> (fwd_error + unit) \<times> reject_reason list" where
  "return_enqueue F now pkt destIP a f =
     (if fmlookup (routes_by_ip f) destIP \<noteq> Some (ra_route a)
      then (drop_no_route f, Inl ErrSessionNotRegistered, classify f ReturnRejectedUnrouted)
      else
        let r = ra_route a;
            f1 = reconcile_before_queue_mutation F now r f
        in case fmlookup (fw_routes f1) r of
             None \<Rightarrow> (f1, Inl ErrSessionNotRegistered, [])
           | Some rt \<Rightarrow>
               if length (r_queue rt) < r_capacity rt
               then
                 let f2 = reconcile_queue_occupancy F now r (upd_route r (\<lambda>rt. rt\<lparr>r_queue := r_queue rt @ [pkt]\<rparr>) f1);
                     occ = word_of_nat (length (r_queue rt) + 1);
                     f3 = upd_route r (\<lambda>rt. rt\<lparr>r_high_water := raise_mark (r_high_water rt) occ, r_ready := True\<rparr>) f2;
                     f4 = f3\<lparr>aggregate_high_water :=
                               raise_mark (aggregate_high_water f3) (word_of_int (aggregate_occupancy f3))\<rparr>;
                     n = word_of_nat (length pkt);
                     f5 = count_up (\<lambda>c. c\<lparr>total_tx_bytes := total_tx_bytes c + n,
                                         total_tx_packets := total_tx_packets c + 1\<rparr>) f4;
                     f6 = record_route_traffic n False now r f5;
                     f7 = record_backend_traffic n False now (ra_traffic a) f6
                 in (f7\<lparr>fw_accountant := map_option (record_tx (ra_session a) (ra_connection a) (int (length pkt)))
                          (fw_accountant f7)\<rparr>, Inr (), [])
               else (drop_queue_full (upd_route r (\<lambda>rt. rt\<lparr>r_full_drops := r_full_drops rt + 1\<rparr>) f1),
                     Inl ErrQueueFull, []))"

definition route_backend_to_client ::
    "'f f64 \<Rightarrow> time \<Rightarrow> ('f forwarder \<Rightarrow> 'f forwarder) \<Rightarrow> int \<Rightarrow> packet \<Rightarrow> string \<Rightarrow> 'f forwarder \<Rightarrow>
     'f forwarder \<times> (fwd_error + unit) \<times> reject_reason list" where
  "route_backend_to_client F now env backend pkt destIP f =
     (case return_admit backend pkt destIP f of
        (f1, Inl e, cs) \<Rightarrow> (f1, Inl e, cs)
      | (f1, Inr a, cs) \<Rightarrow>
          if max_client_queue_packet_bytes < int (length pkt) then (drop_too_large f1, Inl ErrPacketTooLarge, [])
          else case bucket_allow F now (int (length pkt)) (ra_bucket a) f1 of
                 (f2, False) \<Rightarrow> (f2, Inl ErrRateLimitExceeded, [])
               | (f2, True) \<Rightarrow> return_enqueue F now pkt destIP a (env f2))"

section \<open>The client pumps\<close>

text \<open>
  One turn of a route's pump: take a packet under the accounting lock, or wait for the notification and
  consume it; then find the packet's writer.
\<close>

definition pump_take :: "'f f64 \<Rightarrow> time \<Rightarrow> route_ref \<Rightarrow> 'f forwarder \<Rightarrow> 'f forwarder \<times> packet option" where
  "pump_take F now r f =
     (let f1 = reconcile_before_queue_mutation F now r f
      in case fmlookup (fw_routes f1) r of
           None \<Rightarrow> (f1, None)
         | Some rt \<Rightarrow>
             (case r_queue rt of
                [] \<Rightarrow> (upd_route r (\<lambda>rt. rt\<lparr>r_ready := False\<rparr>) f1, None)
              | pkt # _ \<Rightarrow>
                  (reconcile_queue_occupancy F now r (upd_route r (\<lambda>rt. rt\<lparr>r_queue := tl (r_queue rt)\<rparr>) f1), Some pkt)))"

definition pump_writer :: "route_ref \<Rightarrow> 'f forwarder \<Rightarrow> (path_ref \<times> string \<times> string) option" where
  "pump_writer r f =
     (case fmlookup (fw_routes f) r of
        None \<Rightarrow> None
      | Some rt \<Rightarrow>
          if fmlookup (routes_by_peer f) (r_peer rt) \<noteq> Some r \<or> r_stopped rt then None
          else case r_path rt of None \<Rightarrow> None | Some p \<Rightarrow> Some (p, r_peer rt, r_ip rt))"

text \<open>
  \<open>writeClientPacket\<close>: admission under the route's write lock, the device write, and its bookkeeping.
  \<open>ended\<close> is the clock after the write, \<open>err\<close> its outcome.
\<close>

definition write_begin :: "time \<Rightarrow> route_ref \<Rightarrow> 'f forwarder \<Rightarrow> 'f forwarder \<times> bool" where
  "write_begin started r f =
     (case fmlookup (fw_routes f) r of
        None \<Rightarrow> (f, False)
      | Some rt \<Rightarrow>
          if r_retired rt then (f, False)
          else (let f1 = upd_route r (\<lambda>rt. rt\<lparr>r_writes := (r_writes rt)\<lparr>wt_count := wt_count (r_writes rt) + 1\<rparr>\<rparr>) f
                in (f1\<lparr>write_metrics := (write_metrics f1)\<lparr>wt_count := wt_count (write_metrics f1) + 1\<rparr>,
                      writes_in_flight := fmupd r started (writes_in_flight f1)\<rparr>, True)))"

definition write_account :: "duration \<Rightarrow> bool \<Rightarrow> device_writes \<Rightarrow> device_writes" where
  "write_account d err w =
     w\<lparr>wt_total := wt_total w + d, wt_max := (if wt_max w < d then d else wt_max w),
       wt_stalls := (if device_write_stall_threshold \<le> d then wt_stalls w + 1 else wt_stalls w),
       wt_errors := (if err then wt_errors w + 1 else wt_errors w)\<rparr>"

definition write_complete :: "'f f64 \<Rightarrow> time \<Rightarrow> time \<Rightarrow> bool \<Rightarrow> route_ref \<Rightarrow> 'f forwarder \<Rightarrow> 'f forwarder" where
  "write_complete F started ended err r f =
     (let d = time_sub ended started;
          f1 = upd_route r (\<lambda>rt. rt\<lparr>r_writes := write_account d err (r_writes rt),
                                    r_latencies := rl_record d (r_latencies rt)\<rparr>) f;
          f2 = f1\<lparr>writes_in_flight := fmdrop r (writes_in_flight f1),
                  write_metrics := write_account d err (write_metrics f1),
                  write_latencies := lr_record_at d ended (write_latencies f1),
                  write_histogram_of := histogram_observe F d (write_histogram_of f1)\<rparr>;
          nowSec = (ended - unix_epoch) div second
      in if err \<and> write_err_log_until f2 \<le> nowSec then f2\<lparr>write_err_log_until := nowSec + 1\<rparr> else f2)"

definition write_client_packet ::
    "'f f64 \<Rightarrow> time \<Rightarrow> time \<Rightarrow> bool \<Rightarrow> ('f forwarder \<Rightarrow> 'f forwarder) \<Rightarrow> route_ref \<Rightarrow> path_ref \<times> string \<times> string \<Rightarrow> packet \<Rightarrow>
     'f forwarder \<Rightarrow> 'f forwarder \<times> (string \<times> string \<times> packet) option" where
  "write_client_packet F started ended cbErr env r w pkt f =
     (case write_begin started r f of
        (f1, False) \<Rightarrow> (f1, None)
      | (f1, True) \<Rightarrow>
          let out = (case w of (p, peerKey, assignedIP) \<Rightarrow> route_writer_write f1 (Some p) peerKey assignedIP pkt);
              err = (case out of Inl _ \<Rightarrow> True | Inr _ \<Rightarrow> cbErr)
          in (write_complete F started ended err r (env f1), case out of Inl _ \<Rightarrow> None | Inr d \<Rightarrow> Some d))"

section \<open>Backend devices and lifecycle\<close>

definition attach_backend_device :: "'f f64 \<Rightarrow> ('f forwarder \<Rightarrow> 'f forwarder) \<Rightarrow> int \<Rightarrow> bool \<Rightarrow> 'f forwarder \<Rightarrow> 'f forwarder" where
  "attach_backend_device F env b hasDev f0 =
     (let f = env (f0\<lparr>backend_pump_stops := backend_pump_stops f0 |-| {|b|}\<rparr>);
          f1 = ensure_backend_queue F b f;
          f2 = (if hasDev
                then (let f' = ensure_backend_traffic F b (f1\<lparr>backend_devices := finsert b (backend_devices f1)\<rparr>)
                      in f'\<lparr>backend_traffic := fmupd b (next_traffic f') (backend_traffic f'),
                            fw_traffic := fmupd (next_traffic f') (new_traffic_counters F) (fw_traffic f'),
                            next_traffic := next_traffic f' + 1\<rparr>)
                else f1\<lparr>backend_devices := backend_devices f1 |-| {|b|}, backend_traffic := fmdrop b (backend_traffic f1)\<rparr>)
      in if pumps_running f2 \<and> hasDev then f2\<lparr>backend_pump_stops := finsert b (backend_pump_stops f2)\<rparr> else f2)"

definition detach_backend_device :: "int \<Rightarrow> 'f forwarder \<Rightarrow> 'f forwarder" where
  "detach_backend_device b f =
     f\<lparr>backend_devices := backend_devices f |-| {|b|}, backend_traffic := fmdrop b (backend_traffic f),
       backend_pump_stops := backend_pump_stops f |-| {|b|}\<rparr>"

definition on_registered :: "('f session_route \<Rightarrow> 'f session_route) \<Rightarrow> 'f forwarder \<Rightarrow> 'f forwarder" where
  "on_registered g f =
     f\<lparr>fw_routes := fmmap_keys (\<lambda>r rt. if r |\<in>| fmran (routes_by_peer f) then g rt else rt) (fw_routes f)\<rparr>"

definition start_pumps :: "'f forwarder \<Rightarrow> 'f forwarder" where
  "start_pumps f =
     (if pumps_running f then f
      else let f1 = f\<lparr>pumps_running := True,
                      backend_pump_stops := backend_pump_stops f |\<union>|
                        ffilter (\<lambda>b. b |\<in>| fmdom (backend_queues f)) (backend_devices f)\<rparr>
           in on_registered (\<lambda>rt. rt\<lparr>r_pump_started := True\<rparr>) f1)"

definition stop_pumps :: "'f forwarder \<Rightarrow> 'f forwarder" where
  "stop_pumps f =
     (if \<not> pumps_running f then f
      else on_registered (\<lambda>rt. rt\<lparr>r_pump_started := False\<rparr>)
             (f\<lparr>pumps_running := False, backend_pump_stops := {||}\<rparr>))"

definition start_forwarder :: "'f f64 \<Rightarrow> time \<Rightarrow> ('f forwarder \<Rightarrow> 'f forwarder) \<Rightarrow> 'f forwarder \<Rightarrow> 'f forwarder" where
  "start_forwarder F now env f =
     (let g = gen_epoch f + 1;
          f1 = env (reset_drop_counters (f\<lparr>fw_running := True, gen_epoch := g, backend_traffic_generation := g\<rparr>));
          f2 = f1\<lparr>fw_traffic := fmmap_keys (\<lambda>t c. if t |\<in>| fmran (backend_traffic f1) then reset_history F g now c else c)
                     (fw_traffic f1)\<rparr>
      in f2\<lparr>fw_accountant := map_option start_accountant (fw_accountant f2)\<rparr>)"

end
