(* ===== verification/Forwarder_Inv.thy ===== *)
theory Forwarder_Inv
  imports Forwarder
begin

text \<open>
  The invariant of the forwarder's routing tables and queues, and its preservation by every locked
  section of the code.
\<close>

section \<open>The invariant\<close>

definition queued_bytes :: "'f session_route \<Rightarrow> int" where
  "queued_bytes rt = (\<Sum>p\<leftarrow>r_queue rt. int (length p))"

definition live_capacity :: "'f session_route \<Rightarrow> int" where
  "live_capacity rt = (if r_stopped rt then 0 else int (r_capacity rt))"

definition queue_count :: "'f session_route \<Rightarrow> int" where
  "queue_count rt = int (length (r_queue rt))"

definition route_ok :: "'f forwarder \<Rightarrow> route_ref \<Rightarrow> 'f session_route \<Rightarrow> bool" where
  "route_ok f r rt \<longleftrightarrow>
     r < next_route f \<and> r_occupancy rt = int (length (r_queue rt)) \<and> length (r_queue rt) \<le> r_capacity rt \<and>
     (\<forall>p \<in> set (r_queue rt). int (length p) \<le> max_client_queue_packet_bytes) \<and> r_retired rt = r_stopped rt \<and>
     (if r_stopped rt then r_queue rt = []
      else fmlookup (routes_by_peer f) (r_peer rt) = Some r \<and> fmlookup (backend_queues f) (r_backend rt) \<noteq> None \<and>
           int (r_capacity rt) = buf_size f)"

definition peers_ok :: "'f forwarder \<Rightarrow> bool" where
  "peers_ok f \<longleftrightarrow> (\<forall>peer r. fmlookup (routes_by_peer f) peer = Some r \<longrightarrow>
     (\<exists>rt. fmlookup (fw_routes f) r = Some rt \<and> r_peer rt = peer \<and> \<not> r_stopped rt))"

definition ips_ok :: "'f forwarder \<Rightarrow> bool" where
  "ips_ok f \<longleftrightarrow> (\<forall>ip r. fmlookup (routes_by_ip f) ip = Some r \<longrightarrow>
     ip \<noteq> [] \<and> (\<exists>rt. fmlookup (fw_routes f) r = Some rt \<and> r_ip rt = ip \<and> \<not> r_stopped rt))"

definition limits_ok :: "'f forwarder \<Rightarrow> bool" where
  "limits_ok f \<longleftrightarrow> 0 < buf_size f \<and> 0 < backend_buf_size f \<and> 0 < max_active_routes f \<and>
     buf_size f * max_active_routes f \<le> max_budgeted_active_routes \<and>
     int (go_len (routes_by_peer f)) \<le> max_active_routes f \<and>
     (\<forall>b q. fmlookup (backend_queues f) b = Some q \<longrightarrow> int (length q) \<le> backend_buf_size f)"

definition fw_inv :: "'f forwarder \<Rightarrow> bool" where
  "fw_inv f \<longleftrightarrow>
     (\<forall>r rt. fmlookup (fw_routes f) r = Some rt \<longrightarrow> route_ok f r rt) \<and> peers_ok f \<and> ips_ok f \<and> limits_ok f \<and>
     aggregate_occupancy f = fmsum queue_count (fw_routes f) \<and>
     aggregate_capacity f = fmsum live_capacity (fw_routes f)"

lemma fw_invD:
  assumes "fw_inv f"
  shows "fmlookup (fw_routes f) r = Some rt \<Longrightarrow> route_ok f r rt" "peers_ok f" "ips_ok f" "limits_ok f"
    "aggregate_occupancy f = fmsum queue_count (fw_routes f)"
    "aggregate_capacity f = fmsum live_capacity (fw_routes f)"
  using assms by (auto simp: fw_inv_def)

text \<open>Operations that touch none of the fields above keep it.\<close>

lemma fw_inv_cong:
  assumes "fw_inv f" "routes_by_peer f' = routes_by_peer f" "routes_by_ip f' = routes_by_ip f"
    "fw_routes f' = fw_routes f" "next_route f' = next_route f" "backend_queues f' = backend_queues f"
    "buf_size f' = buf_size f" "backend_buf_size f' = backend_buf_size f"
    "max_active_routes f' = max_active_routes f" "aggregate_occupancy f' = aggregate_occupancy f"
    "aggregate_capacity f' = aggregate_capacity f"
  shows "fw_inv f'"
  using assms(1) unfolding fw_inv_def route_ok_def peers_ok_def ips_ok_def limits_ok_def assms(2-) .

definition same_core :: "'f session_route \<Rightarrow> 'f session_route \<Rightarrow> bool" where
  "same_core rt rt' \<longleftrightarrow> r_peer rt' = r_peer rt \<and> r_ip rt' = r_ip rt \<and> r_backend rt' = r_backend rt \<and>
     r_queue rt' = r_queue rt \<and> r_capacity rt' = r_capacity rt \<and> r_occupancy rt' = r_occupancy rt \<and>
     r_retired rt' = r_retired rt \<and> r_stopped rt' = r_stopped rt"

lemma upd_route_lookup [simp]:
  "fmlookup (fw_routes (upd_route r g f)) q =
     (if q = r then map_option g (fmlookup (fw_routes f) r) else fmlookup (fw_routes f) q)"
  by (auto simp: upd_route_def split: option.split)

lemma upd_route_fields [simp]:
  "routes_by_peer (upd_route r g f) = routes_by_peer f" "routes_by_ip (upd_route r g f) = routes_by_ip f"
  "next_route (upd_route r g f) = next_route f" "backend_queues (upd_route r g f) = backend_queues f"
  "buf_size (upd_route r g f) = buf_size f" "backend_buf_size (upd_route r g f) = backend_buf_size f"
  "max_active_routes (upd_route r g f) = max_active_routes f"
  "aggregate_occupancy (upd_route r g f) = aggregate_occupancy f"
  "aggregate_capacity (upd_route r g f) = aggregate_capacity f" "fw_counters (upd_route r g f) = fw_counters f"
  "queue_dwell_of (upd_route r g f) = queue_dwell_of f" "fw_paths (upd_route r g f) = fw_paths f"
  by (simp_all add: upd_route_def split: option.split)

lemma fmsum_same:
  assumes "fmlookup m k = Some v" "h v' = h v"
  shows "fmsum h (fmupd k v' m) = fmsum h m"
  using assms by (simp add: fmsum_upd)

lemma fw_inv_upd_route:
  assumes "fw_inv f" "\<And>rt. fmlookup (fw_routes f) r = Some rt \<Longrightarrow> same_core rt (g rt)"
  shows "fw_inv (upd_route r g f)"
proof (cases "fmlookup (fw_routes f) r")
  case None
  then show ?thesis using assms(1) by (simp add: upd_route_def)
next
  case (Some rt)
  note c = assms(2) [OF Some, unfolded same_core_def]
  let ?f = "upd_route r g f"
  have m: "fw_routes ?f = fmupd r (g rt) (fw_routes f)" by (simp add: upd_route_def Some)
  have "queue_count (g rt) = queue_count rt" "live_capacity (g rt) = live_capacity rt"
    using c by (simp_all add: queue_count_def live_capacity_def)
  then have sums: "fmsum queue_count (fw_routes ?f) = fmsum queue_count (fw_routes f)"
    "fmsum live_capacity (fw_routes ?f) = fmsum live_capacity (fw_routes f)"
    unfolding m using Some by (simp_all add: fmsum_same)
  have "route_ok ?f q rt'" if "fmlookup (fw_routes ?f) q = Some rt'" for q rt'
    using that c Some fw_invD(1) [OF assms(1), of q] by (auto simp: route_ok_def split: if_splits)
  moreover have "peers_ok ?f" unfolding peers_ok_def
  proof (intro allI impI)
    fix peer q assume "fmlookup (routes_by_peer ?f) peer = Some q"
    then obtain rt' where "fmlookup (fw_routes f) q = Some rt'" "r_peer rt' = peer" "\<not> r_stopped rt'"
      using fw_invD(2) [OF assms(1)] by (auto simp: peers_ok_def)
    then show "\<exists>rt. fmlookup (fw_routes ?f) q = Some rt \<and> r_peer rt = peer \<and> \<not> r_stopped rt"
      using c Some by (cases "q = r") auto
  qed
  moreover have "ips_ok ?f" unfolding ips_ok_def
  proof (intro allI impI)
    fix ip q assume "fmlookup (routes_by_ip ?f) ip = Some q"
    then obtain rt' where "ip \<noteq> []" "fmlookup (fw_routes f) q = Some rt'" "r_ip rt' = ip" "\<not> r_stopped rt'"
      using fw_invD(3) [OF assms(1)] by (auto simp: ips_ok_def)
    then show "ip \<noteq> [] \<and> (\<exists>rt. fmlookup (fw_routes ?f) q = Some rt \<and> r_ip rt = ip \<and> \<not> r_stopped rt)"
      using c Some by (cases "q = r") auto
  qed
  moreover have "limits_ok ?f" using fw_invD(4) [OF assms(1)] by (simp add: limits_ok_def)
  ultimately show ?thesis using fw_invD(5,6) [OF assms(1)] sums by (simp add: fw_inv_def)
qed

section \<open>Queue accounting under the invariant\<close>

lemma fmupd_idle: "fmlookup m k = Some v \<Longrightarrow> fmupd k v m = m"
  by (rule fmap_ext) auto

lemma fmupd_twice [simp]: "fmupd k v (fmupd k w m) = fmupd k v m"
  by (auto intro: fmap_ext)

lemma reconcile_before_idle:
  assumes "fmlookup (fw_routes f) r = Some rt" "r_occupancy rt = int (length (r_queue rt))"
  shows "reconcile_before_queue_mutation F now r f = f"
  using assms by (simp add: reconcile_before_queue_mutation_def)

lemma fw_inv_reconcile_before [simp]:
  "fw_inv f \<Longrightarrow> reconcile_before_queue_mutation F now r f = f"
  by (cases "fmlookup (fw_routes f) r")
     (auto simp: reconcile_before_idle route_ok_def reconcile_before_queue_mutation_def dest: fw_invD(1))

lemma reconcile_after:
  assumes "fmlookup (fw_routes f) r = Some rt"
  shows "\<exists>d. reconcile_queue_occupancy F now r f =
    f\<lparr>fw_routes := fmupd r (rt\<lparr>r_occupancy := int (length (r_queue rt))\<rparr>) (fw_routes f),
      aggregate_occupancy := aggregate_occupancy f + (int (length (r_queue rt)) - r_occupancy rt), queue_dwell_of := d\<rparr>"
  using assms by (auto simp: reconcile_queue_occupancy_def upd_route_def Let_def)

lemma drain_loop_spec:
  assumes "fmlookup (fw_routes f) r = Some rt" "r_occupancy rt = int (length (r_queue rt))" "n \<le> length (r_queue rt)"
  shows "\<exists>d. drain_loop F now r n f =
    f\<lparr>fw_routes := fmupd r (rt\<lparr>r_queue := drop n (r_queue rt), r_occupancy := int (length (r_queue rt) - n)\<rparr>) (fw_routes f),
      aggregate_occupancy := aggregate_occupancy f - int n, queue_dwell_of := d\<rparr>"
  using assms
proof (induction n arbitrary: f rt)
  case 0
  then have "fmupd r (rt\<lparr>r_queue := drop 0 (r_queue rt), r_occupancy := int (length (r_queue rt) - 0)\<rparr>) (fw_routes f) = fw_routes f"
    by (intro fmupd_idle) simp
  then show ?case by (intro exI [of _ "queue_dwell_of f"]) simp
next
  case (Suc n)
  let ?rt1 = "rt\<lparr>r_queue := tl (r_queue rt)\<rparr>" and ?f1 = "upd_route r (\<lambda>rt. rt\<lparr>r_queue := tl (r_queue rt)\<rparr>) f"
  have l: "fmlookup (fw_routes ?f1) r = Some ?rt1" using Suc.prems(1) by simp
  obtain d where d: "reconcile_queue_occupancy F now r ?f1 =
      ?f1\<lparr>fw_routes := fmupd r (?rt1\<lparr>r_occupancy := int (length (r_queue ?rt1))\<rparr>) (fw_routes ?f1),
        aggregate_occupancy := aggregate_occupancy ?f1 + (int (length (r_queue ?rt1)) - r_occupancy ?rt1), queue_dwell_of := d\<rparr>"
    using reconcile_after [OF l, of F now] by blast
  let ?f2 = "reconcile_queue_occupancy F now r ?f1" and ?rt2 = "?rt1\<lparr>r_occupancy := int (length (tl (r_queue rt)))\<rparr>"
  have f2: "?f2 = f\<lparr>fw_routes := fmupd r ?rt2 (fw_routes f), aggregate_occupancy := aggregate_occupancy f - 1, queue_dwell_of := d\<rparr>"
    unfolding d using Suc.prems by (simp add: upd_route_def)
  obtain e where e: "drain_loop F now r n ?f2 =
    ?f2\<lparr>fw_routes := fmupd r (?rt2\<lparr>r_queue := drop n (r_queue ?rt2), r_occupancy := int (length (r_queue ?rt2) - n)\<rparr>) (fw_routes ?f2),
      aggregate_occupancy := aggregate_occupancy ?f2 - int n, queue_dwell_of := e\<rparr>"
  proof -
    have "fmlookup (fw_routes ?f2) r = Some ?rt2" "r_occupancy ?rt2 = int (length (r_queue ?rt2))" "n \<le> length (r_queue ?rt2)"
      using Suc.prems(3) by (auto simp: f2)
    from Suc.IH [OF this] show ?thesis using that by blast
  qed
  show ?case
    unfolding drain_loop.simps e unfolding f2
    using Suc.prems(3) by (intro exI [of _ e]) (simp add: drop_Suc algebra_simps)
qed

definition dead :: "'f session_route \<Rightarrow> 'f session_route" where
  "dead rt = rt\<lparr>r_retired := True, r_stopped := True, r_pump_started := False, r_queue := [], r_occupancy := 0\<rparr>"

lemma retire_queue_spec:
  assumes "fmlookup (fw_routes f) r = Some rt" "r_occupancy rt = int (length (r_queue rt))" "\<not> r_stopped rt"
  shows "\<exists>d. retire_queue F now r rt f =
    f\<lparr>fw_routes := fmupd r (dead rt) (fw_routes f), aggregate_occupancy := aggregate_occupancy f - int (length (r_queue rt)),
      aggregate_capacity := aggregate_capacity f - int (r_capacity rt), queue_dwell_of := d\<rparr>"
proof -
  let ?rt1 = "rt\<lparr>r_retired := True, r_stopped := True, r_pump_started := False\<rparr>" and ?f1 = "stop_route_pump r f"
  have f1: "?f1 = f\<lparr>fw_routes := fmupd r ?rt1 (fw_routes f)\<rparr>"
    using assms by (simp add: stop_route_pump_def upd_route_def)
  have l: "fmlookup (fw_routes ?f1) r = Some ?rt1" "r_occupancy ?rt1 = int (length (r_queue ?rt1))"
    using assms by (simp_all add: f1)
  obtain d where "drain_loop F now r (length (r_queue ?rt1)) ?f1 =
    ?f1\<lparr>fw_routes := fmupd r (?rt1\<lparr>r_queue := drop (length (r_queue ?rt1)) (r_queue ?rt1),
          r_occupancy := int (length (r_queue ?rt1) - length (r_queue ?rt1))\<rparr>) (fw_routes ?f1),
      aggregate_occupancy := aggregate_occupancy ?f1 - int (length (r_queue ?rt1)), queue_dwell_of := d\<rparr>"
    using drain_loop_spec [OF l order_refl, of F now] by blast
  then have "drain_route_queue F now r ?f1 =
    f\<lparr>fw_routes := fmupd r (dead rt) (fw_routes f), aggregate_occupancy := aggregate_occupancy f - int (length (r_queue rt)),
      queue_dwell_of := d\<rparr>"
    using l unfolding drain_route_queue_def reconcile_before_idle [OF l] Let_def
    by (simp add: queue_length_def f1 dead_def)
  then show ?thesis by (auto simp: retire_queue_def change_queue_capacity_def Let_def)
qed

section \<open>Removing and adding a route\<close>

definition forget_route :: "route_ref \<Rightarrow> 'f session_route \<Rightarrow> 'f forwarder \<Rightarrow> 'f forwarder" where
  "forget_route r rt f =
     f\<lparr>routes_by_ip := (if fmlookup (routes_by_ip f) (r_ip rt) = Some r then fmdrop (r_ip rt) (routes_by_ip f) else routes_by_ip f),
       routes_by_peer := fmdrop (r_peer rt) (routes_by_peer f), fw_routes := fmupd r (dead rt) (fw_routes f),
       aggregate_occupancy := aggregate_occupancy f - int (length (r_queue rt)),
       aggregate_capacity := aggregate_capacity f - int (r_capacity rt)\<rparr>"

lemma forget_route_inv:
  assumes "fw_inv f" "fmlookup (fw_routes f) r = Some rt" "\<not> r_stopped rt"
  shows "fw_inv (forget_route r rt f)"
proof -
  let ?f = "forget_route r rt f"
  note ok = fw_invD(1) [OF assms(1)]
  have own: "fmlookup (routes_by_peer f) (r_peer rt) = Some r" using ok [OF assms(2)] assms(3) by (simp add: route_ok_def)
  have lk: "fmlookup (fw_routes ?f) q = (if q = r then Some (dead rt) else fmlookup (fw_routes f) q)" for q
    by (simp add: forget_route_def)
  have "route_ok ?f q rt'" if "fmlookup (fw_routes ?f) q = Some rt'" for q rt'
  proof (cases "q = r")
    case True
    then show ?thesis using that ok [OF assms(2)] by (auto simp: lk dead_def route_ok_def forget_route_def)
  next
    case False
    then have o: "route_ok f q rt'" using that ok by (simp add: lk)
    have "r_stopped rt' \<or> r_peer rt' \<noteq> r_peer rt" using o own False by (auto simp: route_ok_def)
    then show ?thesis using o by (auto simp: route_ok_def forget_route_def)
  qed
  moreover have "peers_ok ?f" unfolding peers_ok_def
  proof (intro allI impI)
    fix peer q assume a: "fmlookup (routes_by_peer ?f) peer = Some q"
    then have p: "peer \<noteq> r_peer rt" "fmlookup (routes_by_peer f) peer = Some q"
      by (auto simp: forget_route_def split: if_splits)
    then obtain rt' where "fmlookup (fw_routes f) q = Some rt'" "r_peer rt' = peer" "\<not> r_stopped rt'"
      using fw_invD(2) [OF assms(1)] by (auto simp: peers_ok_def)
    then show "\<exists>rt. fmlookup (fw_routes ?f) q = Some rt \<and> r_peer rt = peer \<and> \<not> r_stopped rt"
      using p(1) assms(2) by (cases "q = r") (auto simp: lk)
  qed
  moreover have "ips_ok ?f" unfolding ips_ok_def
  proof (intro allI impI)
    fix ip q assume a: "fmlookup (routes_by_ip ?f) ip = Some q"
    then have p: "fmlookup (routes_by_ip f) ip = Some q" by (auto simp: forget_route_def split: if_splits)
    then obtain rt' where rt': "ip \<noteq> []" "fmlookup (fw_routes f) q = Some rt'" "r_ip rt' = ip" "\<not> r_stopped rt'"
      using fw_invD(3) [OF assms(1)] by (auto simp: ips_ok_def)
    moreover have "q \<noteq> r"
    proof
      assume "q = r"
      then have "r_ip rt = ip" using rt' assms(2) by simp
      then show False using a p \<open>q = r\<close> by (simp add: forget_route_def)
    qed
    ultimately show "ip \<noteq> [] \<and> (\<exists>rt. fmlookup (fw_routes ?f) q = Some rt \<and> r_ip rt = ip \<and> \<not> r_stopped rt)"
      by (simp add: lk)
  qed
  moreover have "limits_ok ?f"
    using fw_invD(4) [OF assms(1)] own by (auto simp: limits_ok_def forget_route_def go_len_drop)
  moreover have "aggregate_occupancy ?f = fmsum queue_count (fw_routes ?f)"
    "aggregate_capacity ?f = fmsum live_capacity (fw_routes ?f)"
    using fw_invD(5,6) [OF assms(1)] assms(2,3)
    by (simp_all add: forget_route_def fmsum_upd queue_count_def live_capacity_def dead_def)
  ultimately show ?thesis by (simp add: fw_inv_def)
qed

definition add_route :: "'f session_route \<Rightarrow> 'f forwarder \<Rightarrow> 'f forwarder" where
  "add_route rt f =
     f\<lparr>routes_by_peer := fmupd (r_peer rt) (next_route f) (routes_by_peer f),
       routes_by_ip := (if r_ip rt \<noteq> [] then fmupd (r_ip rt) (next_route f) (routes_by_ip f) else routes_by_ip f),
       fw_routes := fmupd (next_route f) rt (fw_routes f), next_route := next_route f + 1,
       aggregate_capacity := aggregate_capacity f + int (r_capacity rt)\<rparr>"

lemma next_route_free: "fw_inv f \<Longrightarrow> fmlookup (fw_routes f) (next_route f) = None"
  using fw_invD(1) [of f "next_route f"] by (cases "fmlookup (fw_routes f) (next_route f)") (auto simp: route_ok_def)

lemma add_route_inv:
  assumes "fw_inv f" "fmlookup (routes_by_peer f) (r_peer rt) = None"
    "int (go_len (routes_by_peer f)) < max_active_routes f" "fmlookup (backend_queues f) (r_backend rt) \<noteq> None"
    "r_queue rt = []" "r_occupancy rt = 0" "\<not> r_stopped rt" "\<not> r_retired rt" "int (r_capacity rt) = buf_size f"
  shows "fw_inv (add_route rt f)"
proof -
  let ?f = "add_route rt f" and ?n = "next_route f"
  note ok = fw_invD(1) [OF assms(1)] and free = next_route_free [OF assms(1)]
  have lk: "fmlookup (fw_routes ?f) q = (if q = ?n then Some rt else fmlookup (fw_routes f) q)" for q
    by (simp add: add_route_def)
  have "route_ok ?f q rt'" if "fmlookup (fw_routes ?f) q = Some rt'" for q rt'
  proof (cases "q = ?n")
    case True
    then show ?thesis using that assms(4-9) by (auto simp: lk route_ok_def add_route_def)
  next
    case False
    then have o: "route_ok f q rt'" using that ok by (simp add: lk)
    have "r_stopped rt' \<or> r_peer rt' \<noteq> r_peer rt" using o assms(2) by (auto simp: route_ok_def)
    then show ?thesis using o by (auto simp: route_ok_def add_route_def)
  qed
  moreover have "peers_ok ?f" unfolding peers_ok_def
  proof (intro allI impI)
    fix peer q assume a: "fmlookup (routes_by_peer ?f) peer = Some q"
    show "\<exists>rt. fmlookup (fw_routes ?f) q = Some rt \<and> r_peer rt = peer \<and> \<not> r_stopped rt"
    proof (cases "peer = r_peer rt")
      case True
      then show ?thesis using a assms(7) by (simp add: add_route_def)
    next
      case False
      then have "fmlookup (routes_by_peer f) peer = Some q" using a by (auto simp: add_route_def)
      then obtain rt' where "fmlookup (fw_routes f) q = Some rt'" "r_peer rt' = peer" "\<not> r_stopped rt'"
        using fw_invD(2) [OF assms(1)] by (auto simp: peers_ok_def)
      then show ?thesis using free by (auto simp: lk)
    qed
  qed
  moreover have "ips_ok ?f" unfolding ips_ok_def
  proof (intro allI impI)
    fix ip q assume a: "fmlookup (routes_by_ip ?f) ip = Some q"
    show "ip \<noteq> [] \<and> (\<exists>rt. fmlookup (fw_routes ?f) q = Some rt \<and> r_ip rt = ip \<and> \<not> r_stopped rt)"
    proof (cases "ip = r_ip rt \<and> r_ip rt \<noteq> []")
      case True
      then show ?thesis using a assms(7) by (simp add: add_route_def)
    next
      case False
      then have "fmlookup (routes_by_ip f) ip = Some q" using a by (auto simp: add_route_def split: if_splits)
      then obtain rt' where "ip \<noteq> []" "fmlookup (fw_routes f) q = Some rt'" "r_ip rt' = ip" "\<not> r_stopped rt'"
        using fw_invD(3) [OF assms(1)] by (auto simp: ips_ok_def)
      then show ?thesis using free by (auto simp: lk)
    qed
  qed
  moreover have "limits_ok ?f"
    using fw_invD(4) [OF assms(1)] assms(2,3) by (auto simp: limits_ok_def add_route_def)
  moreover have "aggregate_occupancy ?f = fmsum queue_count (fw_routes ?f)"
    "aggregate_capacity ?f = fmsum live_capacity (fw_routes ?f)"
    using fw_invD(5,6) [OF assms(1)] free assms(5,7)
    by (simp_all add: add_route_def fmsum_notin queue_count_def live_capacity_def)
  ultimately show ?thesis by (simp add: fw_inv_def)
qed

section \<open>The table operations\<close>

lemma ensure_backend_traffic_fields [simp]:
  "routes_by_peer (ensure_backend_traffic F b f) = routes_by_peer f"
  "routes_by_ip (ensure_backend_traffic F b f) = routes_by_ip f"
  "fw_routes (ensure_backend_traffic F b f) = fw_routes f" "next_route (ensure_backend_traffic F b f) = next_route f"
  "backend_queues (ensure_backend_traffic F b f) = backend_queues f"
  "buf_size (ensure_backend_traffic F b f) = buf_size f"
  "backend_buf_size (ensure_backend_traffic F b f) = backend_buf_size f"
  "max_active_routes (ensure_backend_traffic F b f) = max_active_routes f"
  "aggregate_occupancy (ensure_backend_traffic F b f) = aggregate_occupancy f"
  "aggregate_capacity (ensure_backend_traffic F b f) = aggregate_capacity f"
  by (simp_all add: ensure_backend_traffic_def)

lemma ensure_backend_queue_fields [simp]:
  "routes_by_peer (ensure_backend_queue F b f) = routes_by_peer f"
  "routes_by_ip (ensure_backend_queue F b f) = routes_by_ip f"
  "fw_routes (ensure_backend_queue F b f) = fw_routes f" "next_route (ensure_backend_queue F b f) = next_route f"
  "buf_size (ensure_backend_queue F b f) = buf_size f"
  "backend_buf_size (ensure_backend_queue F b f) = backend_buf_size f"
  "max_active_routes (ensure_backend_queue F b f) = max_active_routes f"
  "aggregate_occupancy (ensure_backend_queue F b f) = aggregate_occupancy f"
  "aggregate_capacity (ensure_backend_queue F b f) = aggregate_capacity f"
  "fmlookup (backend_queues (ensure_backend_queue F b f)) c =
     (if c = b \<and> fmlookup (backend_queues f) b = None then Some [] else fmlookup (backend_queues f) c)"
  by (auto simp: ensure_backend_queue_def)

lemma ensure_backend_queue_inv: "fw_inv f \<Longrightarrow> fw_inv (ensure_backend_queue F b f)"
  by (auto simp: fw_inv_def route_ok_def peers_ok_def ips_ok_def limits_ok_def split: if_splits)

lemma alloc_bucket_fields [simp]:
  "routes_by_peer (fst (alloc_bucket tb f)) = routes_by_peer f" "routes_by_ip (fst (alloc_bucket tb f)) = routes_by_ip f"
  "fw_routes (fst (alloc_bucket tb f)) = fw_routes f" "next_route (fst (alloc_bucket tb f)) = next_route f"
  "backend_queues (fst (alloc_bucket tb f)) = backend_queues f" "buf_size (fst (alloc_bucket tb f)) = buf_size f"
  "backend_buf_size (fst (alloc_bucket tb f)) = backend_buf_size f"
  "max_active_routes (fst (alloc_bucket tb f)) = max_active_routes f"
  "aggregate_occupancy (fst (alloc_bucket tb f)) = aggregate_occupancy f"
  "aggregate_capacity (fst (alloc_bucket tb f)) = aggregate_capacity f"
  "pumps_running (fst (alloc_bucket tb f)) = pumps_running f"
  by (simp_all add: alloc_bucket_def split: option.split)

lemma alloc_bucket_inv: "fw_inv f \<Longrightarrow> fw_inv (fst (alloc_bucket tb f))"
  by (erule fw_inv_cong) simp_all

definition same_tables :: "'f forwarder \<Rightarrow> 'f forwarder \<Rightarrow> bool" where
  "same_tables f f' \<longleftrightarrow> routes_by_peer f' = routes_by_peer f \<and> routes_by_ip f' = routes_by_ip f \<and>
     fw_routes f' = fw_routes f \<and> next_route f' = next_route f \<and> backend_queues f' = backend_queues f \<and>
     buf_size f' = buf_size f \<and> backend_buf_size f' = backend_buf_size f \<and>
     max_active_routes f' = max_active_routes f \<and> aggregate_occupancy f' = aggregate_occupancy f \<and>
     aggregate_capacity f' = aggregate_capacity f"

lemma same_tables_inv: "fw_inv f \<Longrightarrow> same_tables f f' \<Longrightarrow> fw_inv f'"
  unfolding same_tables_def by (elim conjE) (rule fw_inv_cong)

lemma fmupd_fmdrop [simp]: "fmupd k v (fmdrop k m) = fmupd k v m"
  by (rule fmap_ext) auto

text \<open>The state a registration starts from: the backend's queue exists and the buckets are allocated.\<close>

definition register_base :: "'f f64 \<Rightarrow> time \<Rightarrow> route_args \<Rightarrow> 'f forwarder \<Rightarrow> 'f forwarder" where
  "register_base F now a f =
     fst (alloc_bucket (new_token_bucket F now (a_limit_up a) [])
       (fst (alloc_bucket (new_token_bucket F now (a_limit_down a) []) (ensure_backend_queue F (a_backend a) f))))"

lemma register_base_fields [simp]:
  "routes_by_peer (register_base F now a f) = routes_by_peer f" "routes_by_ip (register_base F now a f) = routes_by_ip f"
  "fw_routes (register_base F now a f) = fw_routes f" "next_route (register_base F now a f) = next_route f"
  "buf_size (register_base F now a f) = buf_size f" "max_active_routes (register_base F now a f) = max_active_routes f"
  "aggregate_occupancy (register_base F now a f) = aggregate_occupancy f"
  "aggregate_capacity (register_base F now a f) = aggregate_capacity f"
  "fmlookup (backend_queues (register_base F now a f)) (a_backend a) \<noteq> None"
  by (simp_all add: register_base_def)

lemma register_base_inv: "fw_inv f \<Longrightarrow> fw_inv (register_base F now a f)"
  unfolding register_base_def by (intro alloc_bucket_inv ensure_backend_queue_inv)

definition new_route :: "'f f64 \<Rightarrow> time \<Rightarrow> route_args \<Rightarrow> 'f forwarder \<Rightarrow> 'f session_route" where
  "new_route F now a f =
     (let f1 = ensure_backend_queue F (a_backend a) f;
          (f2, tbDown) = alloc_bucket (new_token_bucket F now (a_limit_down a) []) f1;
          (f3, tbUp) = alloc_bucket (new_token_bucket F now (a_limit_up a) []) f2
      in (fresh_route F now (buf_size f3) a tbDown tbUp)\<lparr>r_pump_started := pumps_running f3\<rparr>)"

lemma new_route_fields [simp]:
  "r_session (new_route F now a f) = a_session a" "r_connection (new_route F now a f) = a_connection a"
  "r_peer (new_route F now a f) = a_peer a" "r_ip (new_route F now a f) = a_ip a"
  "r_backend (new_route F now a f) = a_backend a" "r_path (new_route F now a f) = a_path a"
  "r_queue (new_route F now a f) = []" "r_occupancy (new_route F now a f) = 0"
  "\<not> r_stopped (new_route F now a f)" "\<not> r_retired (new_route F now a f)"
  "r_capacity (new_route F now a f) = nat (buf_size f)"
  by (simp_all add: new_route_def fresh_route_def Let_def case_prod_beta)

definition forget_peer :: "string \<Rightarrow> 'f forwarder \<Rightarrow> 'f forwarder" where
  "forget_peer peer f =
     (case fmlookup (routes_by_peer f) peer of
        None \<Rightarrow> f
      | Some r \<Rightarrow> (case fmlookup (fw_routes f) r of None \<Rightarrow> f | Some rt \<Rightarrow> forget_route r rt f))"

lemma peer_route:
  assumes "fw_inv f" "fmlookup (routes_by_peer f) peer = Some r"
  obtains rt where "fmlookup (fw_routes f) r = Some rt" "r_peer rt = peer" "\<not> r_stopped rt"
    "r_occupancy rt = int (length (r_queue rt))"
  using fw_invD(2) [OF assms(1)] fw_invD(1) [OF assms(1)] assms(2) by (fastforce simp: peers_ok_def route_ok_def)

lemma forget_peer_inv:
  assumes "fw_inv f"
  shows "fw_inv (forget_peer peer f)" and "fmlookup (routes_by_peer (forget_peer peer f)) peer = None"
    and "int (go_len (routes_by_peer (forget_peer peer f))) \<le> int (go_len (routes_by_peer f)) -
      (if fmlookup (routes_by_peer f) peer = None then 0 else 1)"
    and "backend_queues (forget_peer peer f) = backend_queues f" "buf_size (forget_peer peer f) = buf_size f"
    "max_active_routes (forget_peer peer f) = max_active_routes f" "next_route (forget_peer peer f) = next_route f"
proof -
  have 1: "fw_inv (forget_peer peer f) \<and> fmlookup (routes_by_peer (forget_peer peer f)) peer = None \<and>
    int (go_len (routes_by_peer (forget_peer peer f))) \<le> int (go_len (routes_by_peer f)) -
      (if fmlookup (routes_by_peer f) peer = None then 0 else 1)"
  proof (cases "fmlookup (routes_by_peer f) peer")
    case None
    then show ?thesis using assms by (simp add: forget_peer_def)
  next
    case (Some r)
    obtain rt where rt: "fmlookup (fw_routes f) r = Some rt" "r_peer rt = peer" "\<not> r_stopped rt"
      by (rule peer_route [OF assms Some])
    have f: "forget_peer peer f = forget_route r rt f" by (simp add: forget_peer_def Some rt)
    have "Suc (go_len (fmdrop peer (routes_by_peer f))) = go_len (routes_by_peer f)"
      using go_len_drop_Some [OF Some] .
    then show ?thesis
      unfolding f using forget_route_inv [OF assms rt(1,3)] Some rt(2) by (simp add: forget_route_def)
  qed
  then show "fw_inv (forget_peer peer f)" "fmlookup (routes_by_peer (forget_peer peer f)) peer = None"
    "int (go_len (routes_by_peer (forget_peer peer f))) \<le> int (go_len (routes_by_peer f)) -
      (if fmlookup (routes_by_peer f) peer = None then 0 else 1)" by blast+
  show "backend_queues (forget_peer peer f) = backend_queues f" "buf_size (forget_peer peer f) = buf_size f"
    "max_active_routes (forget_peer peer f) = max_active_routes f" "next_route (forget_peer peer f) = next_route f"
    by (simp_all add: forget_peer_def forget_route_def split: option.split)
qed

lemma fmdrop_none: "fmlookup m k = None \<Longrightarrow> fmdrop k m = m"
  by (rule fmap_ext) auto

lemma forget_peer_peers:
  assumes "fw_inv f"
  shows "routes_by_peer (forget_peer peer f) = fmdrop peer (routes_by_peer f)"
proof (cases "fmlookup (routes_by_peer f) peer")
  case None
  then show ?thesis by (simp add: forget_peer_def fmdrop_none)
next
  case (Some r)
  obtain rt where "fmlookup (fw_routes f) r = Some rt" "r_peer rt = peer" by (rule peer_route [OF assms Some])
  then show ?thesis by (simp add: forget_peer_def forget_route_def Some)
qed

lemma replace_old_route_spec:
  assumes "fw_inv f"
  shows "\<exists>d. fst (replace_old_route F now peer f) =
    (forget_peer peer f)\<lparr>routes_by_peer := routes_by_peer f, queue_dwell_of := d\<rparr> \<and>
    snd (replace_old_route F now peer f) = fmlookup (routes_by_peer f) peer"
proof (cases "fmlookup (routes_by_peer f) peer")
  case None
  then show ?thesis by (intro exI [of _ "queue_dwell_of f"]) (simp add: replace_old_route_def forget_peer_def)
next
  case (Some r)
  obtain rt where rt: "fmlookup (fw_routes f) r = Some rt" "r_peer rt = peer" "\<not> r_stopped rt"
    "r_occupancy rt = int (length (r_queue rt))" by (rule peer_route [OF assms Some])
  obtain d where "retire_queue F now r rt f =
    f\<lparr>fw_routes := fmupd r (dead rt) (fw_routes f), aggregate_occupancy := aggregate_occupancy f - int (length (r_queue rt)),
      aggregate_capacity := aggregate_capacity f - int (r_capacity rt), queue_dwell_of := d\<rparr>"
    using retire_queue_spec [OF rt(1,4,3), of F now] by blast
  moreover have "fmlookup (routes_by_ip f) [] = None"
    using fw_invD(3) [OF assms] by (cases "fmlookup (routes_by_ip f) []") (auto simp: ips_ok_def)
  ultimately show ?thesis
    using Some rt by (intro exI [of _ d])
      (auto simp: replace_old_route_def forget_peer_def forget_route_def drop_route_ip_def Let_def)
qed

lemma register_result:
  assumes "fw_inv f" "register_session_locked F now a f = (f', Inr old)"
  shows "same_tables (add_route (new_route F now a f) (forget_peer (a_peer a) (register_base F now a f))) f'"
    and "old = fmlookup (routes_by_peer f) (a_peer a)"
    and "fmlookup (routes_by_peer f) (a_peer a) \<noteq> None \<or> int (go_len (routes_by_peer f)) < route_limit f"
proof -
  let ?g = "register_base F now a f"
  obtain d where d: "fst (replace_old_route F now (a_peer a) ?g) =
      (forget_peer (a_peer a) ?g)\<lparr>routes_by_peer := routes_by_peer ?g, queue_dwell_of := d\<rparr>"
    "snd (replace_old_route F now (a_peer a) ?g) = fmlookup (routes_by_peer ?g) (a_peer a)"
    using replace_old_route_spec [OF register_base_inv [OF assms(1)], of F now "a_peer a" F now a] by blast
  have run: "register_session_locked F now a f =
    (let r = next_route ?g; (f4, old) = replace_old_route F now (a_peer a) ?g;
         regs = (case fmlookup (peer_regs f4) (a_peer a) of None \<Rightarrow> 0 | Some n \<Rightarrow> n);
         f5 = f4\<lparr>peer_regs := fmupd (a_peer a) (regs + 1) (peer_regs f4),
                 routes_by_peer := fmupd (a_peer a) r (routes_by_peer f4),
                 fw_routes := fmupd r (new_route F now a f) (fw_routes f4), next_route := r + 1\<rparr>;
         f6 = change_queue_capacity F now (int (r_capacity (new_route F now a f))) f5
     in (if a_ip a \<noteq> [] then f6\<lparr>routes_by_ip := fmupd (a_ip a) r (routes_by_ip f6)\<rparr> else f6, Inr old))"
    using assms(2) unfolding register_session_locked_def register_base_def new_route_def Let_def case_prod_beta
    by (auto split: if_splits)
  have "routes_by_peer (forget_peer (a_peer a) ?g) = fmdrop (a_peer a) (routes_by_peer f)"
    using forget_peer_peers [OF register_base_inv [OF assms(1)]] by simp
  then show "same_tables (add_route (new_route F now a f) (forget_peer (a_peer a) ?g)) f'"
    "old = fmlookup (routes_by_peer f) (a_peer a)"
    using assms(2) d forget_peer_inv(7) [OF register_base_inv [OF assms(1)], of "a_peer a" F now a] unfolding run
    by (auto simp: same_tables_def add_route_def change_queue_capacity_def Let_def case_prod_beta)
  show "fmlookup (routes_by_peer f) (a_peer a) \<noteq> None \<or> int (go_len (routes_by_peer f)) < route_limit f"
    using assms(2) by (auto simp: register_session_locked_def split: if_splits)
qed

lemma register_error: "register_session_locked F now a f = (f', Inl e) \<Longrightarrow> f' = f"
  by (auto simp: register_session_locked_def Let_def case_prod_beta split: if_splits option.splits)

lemma inv_dwell: "fw_inv (f\<lparr>queue_dwell_of := d\<rparr>) = fw_inv f"
  by (simp add: fw_inv_def route_ok_def peers_ok_def ips_ok_def limits_ok_def)

lemma route_limit_inv: "fw_inv f \<Longrightarrow> route_limit f = max_active_routes f"
  using fw_invD(4) [of f] by (simp add: limits_ok_def route_limit_def)

lemma register_inv:
  assumes "fw_inv f" "register_session_locked F now a f = (f', res)"
  shows "fw_inv f'"
proof (cases res)
  case (Inl e)
  then show ?thesis using assms register_error by blast
next
  case (Inr old)
  let ?b = "register_base F now a f" and ?n = "new_route F now a f"
  let ?g = "forget_peer (a_peer a) ?b"
  note res = register_result [OF assms(1), of F now a f' old, OF assms(2) [unfolded Inr]]
  note b = register_base_inv [OF assms(1), of F now a]
  note g = forget_peer_inv [OF b, of "a_peer a"]
  have lim: "int (go_len (routes_by_peer f)) \<le> max_active_routes f" "0 < buf_size f"
    using fw_invD(4) [OF assms(1)] by (simp_all add: limits_ok_def)
  have "int (go_len (routes_by_peer ?g)) < max_active_routes ?g"
    using g(3) g(6) res(3) lim(1) by (auto simp: route_limit_inv [OF assms(1)] split: if_splits)
  moreover have "fmlookup (backend_queues ?g) (r_backend ?n) \<noteq> None"
    using g(4) register_base_fields(9) by simp
  moreover have "int (r_capacity ?n) = buf_size ?g" using g(5) lim(2) by simp
  ultimately have "fw_inv (add_route ?n ?g)"
    using g(1,2) by (intro add_route_inv) simp_all
  then show ?thesis using same_tables_inv res(1) by blast
qed

lemma retire_spec:
  assumes "fmlookup (fw_routes f) r = Some rt" "r_occupancy rt = int (length (r_queue rt))" "\<not> r_stopped rt"
  shows "\<exists>d. retire_queue F now r rt ((drop_route_ip r (r_ip rt) f)
      \<lparr>routes_by_peer := fmdrop (r_peer rt) (routes_by_peer (drop_route_ip r (r_ip rt) f))\<rparr>) =
    (forget_route r rt f)\<lparr>queue_dwell_of := d\<rparr>"
proof -
  let ?f = "(drop_route_ip r (r_ip rt) f)\<lparr>routes_by_peer := fmdrop (r_peer rt) (routes_by_peer (drop_route_ip r (r_ip rt) f))\<rparr>"
  have "fmlookup (fw_routes ?f) r = Some rt" using assms(1) by (simp add: drop_route_ip_def)
  from retire_queue_spec [OF this assms(2,3), of F now] obtain d where "retire_queue F now r rt ?f =
    ?f\<lparr>fw_routes := fmupd r (dead rt) (fw_routes ?f), aggregate_occupancy := aggregate_occupancy ?f - int (length (r_queue rt)),
      aggregate_capacity := aggregate_capacity ?f - int (r_capacity rt), queue_dwell_of := d\<rparr>" by blast
  then show ?thesis by (intro exI [of _ d]) (simp add: forget_route_def drop_route_ip_def)
qed

lemma peer_route_iff:
  assumes "fw_inv f" "fmlookup (fw_routes f) r = Some rt" "\<not> r_stopped rt"
  shows "fmlookup (routes_by_peer f) (r_peer rt) = Some r" "r_occupancy rt = int (length (r_queue rt))"
  using fw_invD(1) [OF assms(1,2)] assms(3) by (auto simp: route_ok_def)

lemma begin_unregister_spec:
  assumes "fw_inv f"
  shows "\<exists>d. fst (begin_unregister_session F now peer sid f) =
    (if sid = [] \<or> route_session_id f peer = sid then (forget_peer peer f)\<lparr>queue_dwell_of := d\<rparr> else f)"
proof (cases "fmlookup (routes_by_peer f) peer")
  case None
  then show ?thesis by (intro exI [of _ "queue_dwell_of f"]) (simp add: begin_unregister_session_def forget_peer_def)
next
  case (Some r)
  obtain rt where rt: "fmlookup (fw_routes f) r = Some rt" "r_peer rt = peer" "\<not> r_stopped rt"
    "r_occupancy rt = int (length (r_queue rt))" by (rule peer_route [OF assms Some])
  show ?thesis
    using retire_spec [OF rt(1,4,3), of F now] rt(2)
    by (auto simp: begin_unregister_session_def Let_def Some rt(1) forget_peer_def route_session_id_def lookup_route_def)
qed

lemma begin_unregister_inv: "fw_inv f \<Longrightarrow> fw_inv (fst (begin_unregister_session F now peer sid f))"
  using begin_unregister_spec [of f F now peer sid] forget_peer_inv(1) [of f peer] by (auto simp: inv_dwell)

lemma retire_one_inv:
  assumes "fw_inv f" "fmlookup (fw_routes f) r = Some rt" "\<not> r_stopped rt"
  shows "\<exists>d. retire_one F now r f = (forget_route r rt f)\<lparr>queue_dwell_of := d\<rparr>"
  using retire_spec [OF assms(2) peer_route_iff(2) [OF assms] assms(3), of F now] assms(2)
  by (simp add: retire_one_def Let_def)

section \<open>Retiring many routes\<close>

lemma peer_name:
  assumes "fw_inv f" "fmlookup (routes_by_peer f) k = Some r" "fmlookup (fw_routes f) r = Some rt"
  shows "r_peer rt = k"
proof -
  obtain rt' where "fmlookup (fw_routes f) r = Some rt'" "r_peer rt' = k" by (rule peer_route [OF assms(1,2)])
  then show ?thesis using assms(3) by simp
qed

lemma peer_inj:
  assumes "fw_inv f" "fmlookup (routes_by_peer f) k = Some r" "fmlookup (routes_by_peer f) k' = Some r"
  shows "k = k'"
proof -
  obtain rt where "fmlookup (fw_routes f) r = Some rt" by (rule peer_route [OF assms(1,2)])
  then show ?thesis using peer_name [OF assms(1,2)] peer_name [OF assms(1,3)] by simp
qed

text \<open>What a route says about its session, apart from queues, limits and telemetry.\<close>

type_synonym table_row = "string \<times> string \<times> string \<times> int \<times> path_ref option"

definition row_of :: "'f session_route \<Rightarrow> table_row" where
  "row_of rt = (r_session rt, r_connection rt, r_ip rt, r_backend rt, r_path rt)"

definition live_route :: "'f forwarder \<Rightarrow> route_ref \<Rightarrow> bool" where
  "live_route f r \<longleftrightarrow> (\<exists>rt. fmlookup (fw_routes f) r = Some rt \<and> \<not> r_stopped rt)"

lemma forget_route_live: "q \<noteq> r \<Longrightarrow> live_route (forget_route r rt f) q = live_route f q"
  by (simp add: live_route_def forget_route_def)

lemma retire_fold_spec:
  assumes "fw_inv f" "distinct rs" "\<forall>r \<in> set rs. live_route f r"
  shows "fw_inv (fold (retire_one F now) rs f) \<and>
    (\<forall>k. fmlookup (routes_by_peer (fold (retire_one F now) rs f)) k =
       (case fmlookup (routes_by_peer f) k of None \<Rightarrow> None | Some r \<Rightarrow> if r \<in> set rs then None else Some r)) \<and>
    (\<forall>q. map_option row_of (fmlookup (fw_routes (fold (retire_one F now) rs f)) q) = map_option row_of (fmlookup (fw_routes f) q))"
  using assms
proof (induction rs arbitrary: f)
  case Nil
  then show ?case by (simp split: option.split)
next
  case (Cons r rs)
  obtain rt where rt: "fmlookup (fw_routes f) r = Some rt" "\<not> r_stopped rt"
    using Cons.prems(3) by (auto simp: live_route_def)
  note own = peer_route_iff(1) [OF Cons.prems(1) rt]
  obtain d where d: "retire_one F now r f = (forget_route r rt f)\<lparr>queue_dwell_of := d\<rparr>"
    using retire_one_inv [OF Cons.prems(1) rt] by blast
  let ?f = "retire_one F now r f"
  have "\<forall>q \<in> set rs. live_route ?f q"
  proof
    fix q assume "q \<in> set rs"
    then have "q \<noteq> r" "live_route f q" using Cons.prems(2,3) by auto
    then show "live_route ?f q" using forget_route_live [of q r rt f] by (simp add: d live_route_def)
  qed
  moreover have "fw_inv ?f" unfolding d inv_dwell by (rule forget_route_inv [OF Cons.prems(1) rt])
  ultimately have ih: "fw_inv (fold (retire_one F now) rs ?f) \<and>
    (\<forall>k. fmlookup (routes_by_peer (fold (retire_one F now) rs ?f)) k =
       (case fmlookup (routes_by_peer ?f) k of None \<Rightarrow> None | Some r \<Rightarrow> if r \<in> set rs then None else Some r)) \<and>
    (\<forall>q. map_option row_of (fmlookup (fw_routes (fold (retire_one F now) rs ?f)) q) = map_option row_of (fmlookup (fw_routes ?f) q))"
    using Cons.IH [of ?f] Cons.prems(2) by simp
  have "(fmlookup (routes_by_peer f) k = Some r) = (k = r_peer rt)" for k
  proof
    assume "fmlookup (routes_by_peer f) k = Some r"
    then show "k = r_peer rt" using peer_name [OF Cons.prems(1)] rt(1) by simp
  qed (simp add: own)
  then have look: "fmlookup (routes_by_peer ?f) k =
    (if fmlookup (routes_by_peer f) k = Some r then None else fmlookup (routes_by_peer f) k)" for k
    by (auto simp: d forget_route_def)
  show ?case
  proof (intro conjI allI)
    show "fw_inv (fold (retire_one F now) (r # rs) f)" using ih by simp
    fix k
    show "fmlookup (routes_by_peer (fold (retire_one F now) (r # rs) f)) k =
      (case fmlookup (routes_by_peer f) k of None \<Rightarrow> None | Some q \<Rightarrow> if q \<in> set (r # rs) then None else Some q)"
      using ih by (auto simp: look split: option.split)
  next
    fix q
    have "map_option row_of (fmlookup (fw_routes ?f) q) = map_option row_of (fmlookup (fw_routes f) q)"
      using rt(1) by (auto simp: d forget_route_def row_of_def dead_def)
    then show "map_option row_of (fmlookup (fw_routes (fold (retire_one F now) (r # rs) f)) q) =
      map_option row_of (fmlookup (fw_routes f) q)" using ih by simp
  qed
qed

lemma matching_routes_spec:
  assumes "fw_inv f" "range_order ord"
  shows "distinct (matching_routes ord P f)"
    and "set (matching_routes ord P f) = {r. \<exists>k rt. fmlookup (routes_by_peer f) k = Some r \<and> fmlookup (fw_routes f) r = Some rt \<and> P rt}"
proof -
  let ?g = "\<lambda>k. case fmlookup (routes_by_peer f) k of None \<Rightarrow> []
    | Some r \<Rightarrow> (case fmlookup (fw_routes f) r of None \<Rightarrow> [] | Some rt \<Rightarrow> if P rt then [r] else [])"
  have same: "k = k'" if "r \<in> set (?g k)" "r \<in> set (?g k')" for r k k'
  proof -
    have "fmlookup (routes_by_peer f) k = Some r" "fmlookup (routes_by_peer f) k' = Some r"
      using that by (auto split: option.splits if_splits)
    then show ?thesis using peer_inj [OF assms(1)] by blast
  qed
  have "distinct (concat (map ?g ks))" if "distinct ks" for ks
    using that
  proof (induction ks)
    case (Cons k ks)
    have "distinct (?g k)" by (simp split: option.split)
    moreover have "set (?g k) \<inter> set (concat (map ?g ks)) = {}" using same Cons.prems by fastforce
    ultimately show ?case using Cons by simp
  qed simp
  then show "distinct (matching_routes ord P f)"
    unfolding matching_routes_def using range_orderD(1) [OF assms(2)] by blast
  show "set (matching_routes ord P f) = {r. \<exists>k rt. fmlookup (routes_by_peer f) k = Some r \<and> fmlookup (fw_routes f) r = Some rt \<and> P rt}"
  proof -
    have g: "(r \<in> set (?g k)) = (\<exists>rt. fmlookup (routes_by_peer f) k = Some r \<and> fmlookup (fw_routes f) r = Some rt \<and> P rt)"
      for r k by (cases "fmlookup (routes_by_peer f) k"; cases "fmlookup (fw_routes f) (the (fmlookup (routes_by_peer f) k))") auto
    show ?thesis
      unfolding matching_routes_def set_concat set_map range_orderD(2) [OF assms(2)] image_image
      by (rule set_eqI) (simp only: UN_iff g mem_Collect_eq, blast intro: fmdomI)
  qed
qed

lemma retire_matching_spec:
  assumes "fw_inv f" "range_order ord" "retire_routes_matching ord F now P f = (f', rs)"
  shows "fw_inv f'"
    and "fmlookup (routes_by_peer f') k =
      (case lookup_route f k of None \<Rightarrow> None | Some (r, rt) \<Rightarrow> if P rt then None else Some r)"
    and "map_option row_of (fmlookup (fw_routes f') q) = map_option row_of (fmlookup (fw_routes f) q)"
proof -
  note rs = matching_routes_spec [OF assms(1,2), of P]
  have f': "f' = fold (retire_one F now) (matching_routes ord P f) f"
    using assms(3) by (auto simp: retire_routes_matching_def Let_def)
  have "\<forall>r \<in> set (matching_routes ord P f). live_route f r"
    using fw_invD(2) [OF assms(1)] by (fastforce simp: rs(2) peers_ok_def live_route_def)
  note sp = retire_fold_spec [OF assms(1) rs(1) this, of F now]
  show "fw_inv f'" "map_option row_of (fmlookup (fw_routes f') q) = map_option row_of (fmlookup (fw_routes f) q)"
    unfolding f' using sp by blast+
  show "fmlookup (routes_by_peer f') k =
      (case lookup_route f k of None \<Rightarrow> None | Some (r, rt) \<Rightarrow> if P rt then None else Some r)"
  proof (cases "fmlookup (routes_by_peer f) k")
    case None
    then show ?thesis using sp by (simp add: f' lookup_route_def)
  next
    case (Some r)
    obtain rt where "fmlookup (fw_routes f) r = Some rt" by (rule peer_route [OF assms(1) Some])
    then have "r \<in> set (matching_routes ord P f) \<longleftrightarrow> P rt" using Some by (auto simp: rs(2))
    then show ?thesis using sp \<open>fmlookup (fw_routes f) r = Some rt\<close> by (simp add: f' lookup_route_def Some)
  qed
qed

lemma all_stopped_idle:
  assumes "fw_inv f" "routes_by_peer f = fmempty"
  shows "aggregate_occupancy f = 0" "aggregate_capacity f = 0" "routes_by_ip f = fmempty"
proof -
  have dead: "queue_count rt = 0 \<and> live_capacity rt = 0 \<and> r_stopped rt" if "fmlookup (fw_routes f) r = Some rt" for r rt
    using fw_invD(1) [OF assms(1) that] assms(2) by (auto simp: route_ok_def queue_count_def live_capacity_def split: if_splits)
  have z: "fmsum h (fw_routes f) = 0" if "\<And>r rt. fmlookup (fw_routes f) r = Some rt \<Longrightarrow> h rt = 0" for h :: "'a session_route \<Rightarrow> int"
    unfolding fmsum_def using that by (intro sum.neutral) (auto split: option.split)
  show "aggregate_occupancy f = 0" unfolding fw_invD(5) [OF assms(1)] by (rule z) (use dead in blast)
  show "aggregate_capacity f = 0" unfolding fw_invD(6) [OF assms(1)] by (rule z) (use dead in blast)
  have "fmlookup (routes_by_ip f) ip = None" for ip
    using fw_invD(3) [OF assms(1)] dead by (cases "fmlookup (routes_by_ip f) ip") (auto simp: ips_ok_def)
  then show "routes_by_ip f = fmempty" by (intro fmap_ext) simp
qed

lemma retire_all_spec:
  assumes "fw_inv f" "range_order ord" "retire_all_routes ord F now f = (f', rs)"
  shows "fw_inv f' \<and> routes_by_peer f' = fmempty \<and> routes_by_ip f' = fmempty"
proof -
  obtain f1 where f1: "retire_routes_matching ord F now (\<lambda>_. True) f = (f1, rs)"
    "f' = f1\<lparr>routes_by_peer := fmempty, routes_by_ip := fmempty, aggregate_occupancy := 0, aggregate_capacity := 0,
              queue_dwell_of := dwell_observe F now 0 0 (queue_dwell_of f1)\<rparr>"
    using assms(3) by (auto simp: retire_all_routes_def split: prod.splits)
  note sp = retire_matching_spec [OF assms(1,2) f1(1)]
  have "routes_by_peer f1 = fmempty"
    by (rule fmap_ext) (simp add: sp(2) split: option.split)
  note idle = all_stopped_idle [OF sp(1) this] this
  have "f1\<lparr>routes_by_peer := fmempty, routes_by_ip := fmempty, aggregate_occupancy := 0, aggregate_capacity := 0\<rparr> = f1"
    using idle by (intro forwarder.equality) simp_all
  then have "f' = f1\<lparr>queue_dwell_of := dwell_observe F now 0 0 (queue_dwell_of f1)\<rparr>" by (simp add: f1(2))
  then show ?thesis using sp(1) idle by (simp add: inv_dwell)
qed

section \<open>Backend moves, rebindings and limits\<close>

lemma upd_backend_inv:
  assumes "fw_inv f" "fmlookup (backend_queues f) b \<noteq> None"
  shows "fw_inv (upd_route r (\<lambda>rt. rt\<lparr>r_backend := b\<rparr>) f)"
proof (cases "fmlookup (fw_routes f) r")
  case None
  then show ?thesis using assms(1) by (simp add: upd_route_def)
next
  case (Some rt)
  let ?g = "\<lambda>rt. rt\<lparr>r_backend := b\<rparr>"
  have m: "fw_routes (upd_route r ?g f) = fmupd r (?g rt) (fw_routes f)" by (simp add: upd_route_def Some)
  have sums: "fmsum queue_count (fw_routes (upd_route r ?g f)) = fmsum queue_count (fw_routes f)"
    "fmsum live_capacity (fw_routes (upd_route r ?g f)) = fmsum live_capacity (fw_routes f)"
    unfolding m using Some by (auto intro!: fmsum_same simp: queue_count_def live_capacity_def)
  have "route_ok (upd_route r ?g f) q rt'" if "fmlookup (fw_routes (upd_route r ?g f)) q = Some rt'" for q rt'
    using that fw_invD(1) [OF assms(1), of q] assms(2) Some by (auto simp: route_ok_def split: if_splits)
  moreover have "peers_ok (upd_route r ?g f)"
    using fw_invD(2) [OF assms(1)] by (fastforce simp: peers_ok_def)
  moreover have "ips_ok (upd_route r ?g f)"
    using fw_invD(3) [OF assms(1)] by (fastforce simp: ips_ok_def)
  moreover have "limits_ok (upd_route r ?g f)" using fw_invD(4) [OF assms(1)] by (simp add: limits_ok_def)
  ultimately show ?thesis using fw_invD(5,6) [OF assms(1)] sums by (simp add: fw_inv_def)
qed

lemma update_route_backend_inv: "fw_inv f \<Longrightarrow> fw_inv (fst (update_route_backend F peer b f))"
  by (auto simp: update_route_backend_def intro!: upd_backend_inv ensure_backend_queue_inv split: option.split)

lemma bind_inv: "fw_inv f \<Longrightarrow> fw_inv (fst (bind_session_return_path F now a f))"
  by (auto simp: bind_session_return_path_def same_core_def split: option.split sum.split prod.split
    intro!: fw_inv_upd_route dest: register_inv)

lemma set_peer_rate_limit_inv: "fw_inv f \<Longrightarrow> fw_inv (fst (set_peer_rate_limit F now peer down up f))"
  by (auto simp: set_peer_rate_limit_def Let_def case_prod_beta same_core_def
    intro!: fw_inv_upd_route alloc_bucket_inv split: option.split)

end
