(* ===== verification/Forwarder_Steps.thy ===== *)
theory Forwarder_Steps
  imports Forwarder_Inv
begin

text \<open>
  The packet forwarder as a transition system: every section of code under one lock is a step, other
  goroutines' sections come in between in any order, and the invariant of \<open>Forwarder_Inv\<close> holds in
  every reachable state.
\<close>

section \<open>Queue budgets\<close>

lemma queue_budget:
  assumes "0 < n" "n \<le> max_budgeted_active_routes"
  shows "0 < max_client_queue_packets_for_routes n"
    and "max_client_queue_packets_for_routes n * n \<le> max_budgeted_active_routes"
proof -
  let ?B = max_budgeted_active_routes
  have b: "max_client_queue_memory_bytes sdiv max_client_queue_packet_bytes = ?B"
    by (simp add: max_client_queue_memory_bytes_def max_client_queue_packet_bytes_def max_budgeted_active_routes_def
        signed_divide_int_def)
  have d: "?B sdiv n = ?B div n"
    using assms by (simp add: signed_divide_int_def)
  have "1 \<le> ?B div n" using assms by (simp add: pos_imp_zdiv_pos_iff zdiv_mono1 [of n ?B n] int_one_le_iff_zero_less)
  then have q: "max_client_queue_packets_for_routes n = ?B div n"
    using assms by (simp add: max_client_queue_packets_for_routes_def b d Let_def)
  show "0 < max_client_queue_packets_for_routes n" using q \<open>1 \<le> ?B div n\<close> by simp
  show "max_client_queue_packets_for_routes n * n \<le> ?B"
    unfolding q using minus_mod_eq_div_mult [of ?B n] pos_mod_sign [of n ?B] assms(1) by linarith
qed

text \<open>The queue size and route limit that construction and reconfiguration settle on fit the budget.\<close>

lemma clamped_budget:
  assumes "validate_client_route_limit maxActiveRoutes = None"
    "maxRoutes = (if maxActiveRoutes \<le> 0 then max_supported_active_routes else maxActiveRoutes)"
    "q0 = (if qsize \<le> 0 then default_client_queue_size else qsize)"
    "q = (if max_client_queue_packets_for_routes maxRoutes < q0 then max_client_queue_packets_for_routes maxRoutes else q0)"
  shows "0 < q" "0 < maxRoutes" "q * maxRoutes \<le> max_budgeted_active_routes"
proof -
  have sup: "max_supported_active_routes \<le> max_budgeted_active_routes" "0 < max_supported_active_routes"
    by (simp_all add: max_supported_active_routes_def max_budgeted_active_routes_def max_client_queue_memory_bytes_def
        max_client_queue_packet_bytes_def)
  then have m: "0 < maxRoutes" "maxRoutes \<le> max_budgeted_active_routes"
    using assms(1,2) by (auto simp: validate_client_route_limit_def split: if_splits)
  show "0 < maxRoutes" by (rule m(1))
  note b = queue_budget [OF m]
  have "0 < q0" using assms(3) by (simp add: default_client_queue_size_def)
  then show "0 < q" using b(1) assms(4) by simp
  have "q \<le> max_client_queue_packets_for_routes maxRoutes" using assms(4) by simp
  then have "q * maxRoutes \<le> max_client_queue_packets_for_routes maxRoutes * maxRoutes"
    using m(1) by (intro mult_right_mono) simp_all
  then show "q * maxRoutes \<le> max_budgeted_active_routes" using b(2) by linarith
qed

lemma new_forwarder_inv:
  assumes "new_forwarder_with_limits F acct qsize maxActiveRoutes = Inr f"
  shows "fw_inv f"
proof -
  have v: "validate_client_route_limit maxActiveRoutes = None"
    using assms by (auto simp: new_forwarder_with_limits_def split: option.splits)
  note b = clamped_budget [where qsize = qsize, OF v refl refl refl]
  show ?thesis
    using assms b v by (auto simp: new_forwarder_with_limits_def Let_def fw_inv_def peers_ok_def ips_ok_def limits_ok_def
        default_backend_queue_size_def)
qed

lemma resize_inv:
  assumes "fw_inv f" "0 < q" "0 < m" "q * m \<le> max_budgeted_active_routes"
    "0 < go_len (routes_by_peer f) \<Longrightarrow> q = buf_size f" "int (go_len (routes_by_peer f)) \<le> m"
  shows "fw_inv (f\<lparr>buf_size := q, max_active_routes := m\<rparr>)"
proof -
  let ?f = "f\<lparr>buf_size := q, max_active_routes := m\<rparr>"
  have "route_ok ?f r rt" if "fmlookup (fw_routes f) r = Some rt" for r rt
    using fw_invD(1) [OF assms(1) that] assms(5) go_len_pos [of "routes_by_peer f" "r_peer rt" r]
    by (auto simp: route_ok_def)
  moreover have "limits_ok ?f" using fw_invD(4) [OF assms(1)] assms(2-4,6) by (simp add: limits_ok_def)
  ultimately show ?thesis using assms(1) by (simp add: fw_inv_def peers_ok_def ips_ok_def)
qed

lemma reconfigure_run:
  assumes "validate_client_route_limit maxActiveRoutes = None"
  obtains q q0 m where "fst (reconfigure_client_queue_config qsize maxActiveRoutes f) =
    (if 0 < go_len (routes_by_peer f) \<and> q \<noteq> buf_size f then f
     else if m < int (go_len (routes_by_peer f)) then f else f\<lparr>buf_size := q, max_active_routes := m\<rparr>)"
    and "m = (if maxActiveRoutes \<le> 0 then max_supported_active_routes else maxActiveRoutes)"
    and "q0 = (if qsize \<le> 0 then default_client_queue_size else qsize)"
    and "q = (if max_client_queue_packets_for_routes m < q0 then max_client_queue_packets_for_routes m else q0)"
proof -
  define m where "m = (if maxActiveRoutes \<le> 0 then max_supported_active_routes else maxActiveRoutes)"
  define q0 where "q0 = (if qsize \<le> 0 then default_client_queue_size else qsize)"
  define q where "q = (if max_client_queue_packets_for_routes m < q0 then max_client_queue_packets_for_routes m else q0)"
  have "fst (reconfigure_client_queue_config qsize maxActiveRoutes f) =
    (if 0 < go_len (routes_by_peer f) \<and> q \<noteq> buf_size f then f
     else if m < int (go_len (routes_by_peer f)) then f else f\<lparr>buf_size := q, max_active_routes := m\<rparr>)"
    by (simp add: reconfigure_client_queue_config_def assms Let_def q_def q0_def m_def)
  then show ?thesis using m_def q0_def q_def by (rule that)
qed

lemma reconfigure_fields [simp]:
  "fw_counters (fst (reconfigure_client_queue_config qsize maxActiveRoutes f)) = fw_counters f"
  "backend_queues (fst (reconfigure_client_queue_config qsize maxActiveRoutes f)) = backend_queues f"
proof -
  let ?f = "fst (reconfigure_client_queue_config qsize maxActiveRoutes f)"
  have "fw_counters ?f = fw_counters f \<and> backend_queues ?f = backend_queues f"
  proof (cases "validate_client_route_limit maxActiveRoutes")
    case None
    show ?thesis by (rule reconfigure_run [OF None, of qsize f]) simp
  qed (simp add: reconfigure_client_queue_config_def)
  then show "fw_counters ?f = fw_counters f" "backend_queues ?f = backend_queues f" by blast+
qed

lemma reconfigure_inv:
  assumes "fw_inv f"
  shows "fw_inv (fst (reconfigure_client_queue_config qsize maxActiveRoutes f))"
proof (cases "validate_client_route_limit maxActiveRoutes")
  case (Some e)
  then show ?thesis using assms by (simp add: reconfigure_client_queue_config_def)
next
  case None
  obtain q q0 m where run: "fst (reconfigure_client_queue_config qsize maxActiveRoutes f) =
    (if 0 < go_len (routes_by_peer f) \<and> q \<noteq> buf_size f then f
     else if m < int (go_len (routes_by_peer f)) then f else f\<lparr>buf_size := q, max_active_routes := m\<rparr>)"
    and m_def: "m = (if maxActiveRoutes \<le> 0 then max_supported_active_routes else maxActiveRoutes)"
    and q0_def: "q0 = (if qsize \<le> 0 then default_client_queue_size else qsize)"
    and q_def: "q = (if max_client_queue_packets_for_routes m < q0 then max_client_queue_packets_for_routes m else q0)"
    by (rule reconfigure_run [OF None])
  note b = clamped_budget [OF None m_def q0_def q_def]
  show ?thesis unfolding run using assms resize_inv [OF assms b] by auto
qed

section \<open>The packet paths\<close>

lemma count_up_inv [simp]: "fw_inv (count_up g f) = fw_inv f"
  by (simp add: count_up_def fw_inv_def route_ok_def peers_ok_def ips_ok_def limits_ok_def)

lemma drop_invs [simp]:
  "fw_inv (drop_no_route f) = fw_inv f" "fw_inv (drop_too_large f) = fw_inv f" "fw_inv (drop_queue_full f) = fw_inv f"
  "fw_inv (drop_client_no_backend f) = fw_inv f" "fw_inv (drop_client_rate_limited f) = fw_inv f"
  "fw_inv (drop_client_queue_full f) = fw_inv f" "fw_inv (reset_drop_counters f) = fw_inv f"
  by (simp_all add: drop_no_route_def drop_too_large_def drop_queue_full_def drop_client_no_backend_def
      drop_client_rate_limited_def drop_client_queue_full_def reset_drop_counters_def)

lemma other_field_invs [simp]:
  "fw_inv (f\<lparr>fw_accountant := x1\<rparr>) = fw_inv f" "fw_inv (f\<lparr>fw_buckets := x2\<rparr>) = fw_inv f"
  "fw_inv (f\<lparr>fw_traffic := x3\<rparr>) = fw_inv f" "fw_inv (f\<lparr>aggregate_high_water := x4\<rparr>) = fw_inv f"
  "fw_inv (f\<lparr>fw_paths := x5\<rparr>) = fw_inv f" "fw_inv (f\<lparr>backend_traffic := x6\<rparr>) = fw_inv f"
  "fw_inv (f\<lparr>backend_devices := x7\<rparr>) = fw_inv f" "fw_inv (f\<lparr>backend_pump_stops := x8\<rparr>) = fw_inv f"
  "fw_inv (f\<lparr>next_traffic := x9\<rparr>) = fw_inv f" "fw_inv (f\<lparr>write_metrics := x10\<rparr>) = fw_inv f"
  "fw_inv (f\<lparr>writes_in_flight := x11\<rparr>) = fw_inv f" "fw_inv (f\<lparr>write_latencies := x12\<rparr>) = fw_inv f"
  "fw_inv (f\<lparr>write_histogram_of := x13\<rparr>) = fw_inv f" "fw_inv (f\<lparr>write_err_log_until := x14\<rparr>) = fw_inv f"
  "fw_inv (f\<lparr>pumps_running := x15\<rparr>) = fw_inv f" "fw_inv (f\<lparr>fw_running := x16\<rparr>) = fw_inv f"
  "fw_inv (f\<lparr>gen_epoch := x17\<rparr>) = fw_inv f" "fw_inv (f\<lparr>backend_traffic_generation := x18\<rparr>) = fw_inv f"
  "fw_inv (f\<lparr>queue_dwell_of := x19\<rparr>) = fw_inv f"
  by (simp_all add: fw_inv_def route_ok_def peers_ok_def ips_ok_def limits_ok_def)

lemma ensure_backend_traffic_inv [simp]: "fw_inv (ensure_backend_traffic F b f) = fw_inv f"
  by (simp add: ensure_backend_traffic_def)

lemma bucket_allow_inv [simp]: "fw_inv (fst (bucket_allow F now n tb f)) = fw_inv f"
  by (simp add: bucket_allow_def split: option.split prod.split)

lemma record_backend_traffic_inv [simp]: "fw_inv (record_backend_traffic n rx now t f) = fw_inv f"
  by (simp add: record_backend_traffic_def split: option.split)

lemma record_route_traffic_inv: "fw_inv f \<Longrightarrow> fw_inv (record_route_traffic n rx now r f)"
  unfolding record_route_traffic_def by (erule fw_inv_upd_route) (simp add: same_core_def)

lemma client_admit_inv: "fw_inv f \<Longrightarrow> fw_inv (fst (client_admit peer pkt p f))"
  by (simp add: client_admit_def Let_def split: option.split prod.split)

lemma backend_queue_inv:
  assumes "fw_inv f" "int (length q) \<le> backend_buf_size f"
  shows "fw_inv (f\<lparr>backend_queues := fmupd b q (backend_queues f)\<rparr>)"
proof -
  let ?f = "f\<lparr>backend_queues := fmupd b q (backend_queues f)\<rparr>"
  have "route_ok ?f r rt" if "fmlookup (fw_routes f) r = Some rt" for r rt
    using fw_invD(1) [OF assms(1) that] by (cases "r_stopped rt") (simp_all add: route_ok_def)
  then show ?thesis using assms by (auto simp: fw_inv_def peers_ok_def ips_ok_def limits_ok_def)
qed

lemma bucket_allow_fields [simp]:
  "backend_queues (fst (bucket_allow F now n tb f)) = backend_queues f"
  "backend_buf_size (fst (bucket_allow F now n tb f)) = backend_buf_size f"
  "routes_by_ip (fst (bucket_allow F now n tb f)) = routes_by_ip f"
  "routes_by_peer (fst (bucket_allow F now n tb f)) = routes_by_peer f"
  "fw_routes (fst (bucket_allow F now n tb f)) = fw_routes f"
  "fw_counters (fst (bucket_allow F now n tb f)) = fw_counters f"
  by (simp_all add: bucket_allow_def split: option.split prod.split)

lemma client_enqueue_inv:
  assumes "fw_inv f"
  shows "fw_inv (fst (client_enqueue F now pkt a f))"
proof -
  obtain f1 ok where b: "bucket_allow F now (int (length pkt)) (ca_bucket a) f = (f1, ok)" by fastforce
  then have f1: "fw_inv f1" using assms bucket_allow_inv by (metis fst_conv)
  show ?thesis
    using f1 by (auto simp: client_enqueue_def b Let_def intro!: record_route_traffic_inv backend_queue_inv split: bool.split)
qed

text \<open>A managed change of one queue keeps the aggregate counters exact.\<close>

lemma queue_change_inv:
  assumes "fw_inv f" "fmlookup (fw_routes f) r = Some rt" "g rt = rt\<lparr>r_queue := qs\<rparr>" "length qs \<le> r_capacity rt"
    "\<forall>p \<in> set qs. int (length p) \<le> max_client_queue_packet_bytes" "r_stopped rt \<Longrightarrow> qs = []"
  shows "fw_inv (reconcile_queue_occupancy F now r (upd_route r g f))"
proof -
  let ?rt = "rt\<lparr>r_queue := qs, r_occupancy := int (length qs)\<rparr>"
  let ?f1 = "upd_route r g f"
  have f1: "fmlookup (fw_routes ?f1) r = Some (rt\<lparr>r_queue := qs\<rparr>)" using assms(2,3) by simp
  obtain d where d: "reconcile_queue_occupancy F now r ?f1 =
      ?f1\<lparr>fw_routes := fmupd r ?rt (fw_routes ?f1),
        aggregate_occupancy := aggregate_occupancy ?f1 + (int (length qs) - r_occupancy rt), queue_dwell_of := d\<rparr>"
    using reconcile_after [OF f1, of F now] by auto
  let ?f = "f\<lparr>fw_routes := fmupd r ?rt (fw_routes f), aggregate_occupancy := aggregate_occupancy f + (int (length qs) - r_occupancy rt)\<rparr>"
  have eq: "reconcile_queue_occupancy F now r ?f1 = ?f\<lparr>queue_dwell_of := d\<rparr>"
    unfolding d using assms(2) by (simp add: upd_route_def)
  note ok = fw_invD(1) [OF assms(1)]
  have "route_ok ?f q rt'" if "fmlookup (fw_routes ?f) q = Some rt'" for q rt'
    using that ok [of q rt'] ok [OF assms(2)] assms(4-6) by (auto simp: route_ok_def split: if_splits)
  moreover have "peers_ok ?f" using fw_invD(2) [OF assms(1)] assms(2) by (fastforce simp: peers_ok_def)
  moreover have "ips_ok ?f" using fw_invD(3) [OF assms(1)] assms(2) by (fastforce simp: ips_ok_def)
  moreover have "limits_ok ?f" using fw_invD(4) [OF assms(1)] by (simp add: limits_ok_def)
  moreover have "aggregate_occupancy ?f = fmsum queue_count (fw_routes ?f)"
    "aggregate_capacity ?f = fmsum live_capacity (fw_routes ?f)"
    using fw_invD(5,6) [OF assms(1)] ok [OF assms(2)] assms(2)
    by (simp_all add: fmsum_upd queue_count_def live_capacity_def route_ok_def)
  ultimately have "fw_inv ?f" by (simp add: fw_inv_def)
  then show ?thesis unfolding eq by simp
qed

lemma return_admit_inv: "fw_inv f \<Longrightarrow> fw_inv (fst (return_admit b pkt ip f))"
  by (simp add: return_admit_def Let_def split: option.split prod.split)

lemma return_enqueue_inv:
  assumes "fw_inv f" "int (length pkt) \<le> max_client_queue_packet_bytes"
  shows "fw_inv (fst (return_enqueue F now pkt ip a f))"
proof (cases "fmlookup (routes_by_ip f) ip = Some (ra_route a)")
  case False
  then show ?thesis using assms(1) by (simp add: return_enqueue_def)
next
  case True
  then obtain rt where rt: "fmlookup (fw_routes f) (ra_route a) = Some rt" "\<not> r_stopped rt"
    using fw_invD(3) [OF assms(1)] by (auto simp: ips_ok_def)
  let ?g = "\<lambda>rt. rt\<lparr>r_queue := r_queue rt @ [pkt]\<rparr>"
  have "fw_inv (reconcile_queue_occupancy F now (ra_route a) (upd_route (ra_route a) ?g f))"
    if "length (r_queue rt) < r_capacity rt"
    using that fw_invD(1) [OF assms(1) rt(1)] assms(2) rt
    by (intro queue_change_inv [OF assms(1) rt(1), where g = ?g and qs = "r_queue rt @ [pkt]"]) (auto simp: route_ok_def)
  then show ?thesis
    using assms(1) rt(1) True
    by (auto simp: return_enqueue_def Let_def same_core_def intro!: record_route_traffic_inv fw_inv_upd_route)
qed

lemma pump_take_inv:
  assumes "fw_inv f"
  shows "fw_inv (fst (pump_take F now r f))"
proof (cases "fmlookup (fw_routes f) r")
  case None
  then show ?thesis using assms by (simp add: pump_take_def)
next
  case (Some rt)
  show ?thesis
  proof (cases "r_queue rt")
    case Nil
    then show ?thesis using assms Some by (auto simp: pump_take_def same_core_def intro!: fw_inv_upd_route)
  next
    case (Cons pkt qs)
    have "fw_inv (reconcile_queue_occupancy F now r (upd_route r (\<lambda>rt. rt\<lparr>r_queue := tl (r_queue rt)\<rparr>) f))"
      using fw_invD(1) [OF assms Some] Cons
      by (intro queue_change_inv [OF assms Some, where qs = qs]) (auto simp: route_ok_def split: if_splits)
    then show ?thesis using assms Some Cons by (simp add: pump_take_def)
  qed
qed

lemma write_begin_inv: "fw_inv f \<Longrightarrow> fw_inv (fst (write_begin started r f))"
  by (auto simp: write_begin_def Let_def same_core_def intro!: fw_inv_upd_route split: option.split)

lemma write_complete_inv: "fw_inv f \<Longrightarrow> fw_inv (write_complete F started ended err r f)"
  by (auto simp: write_complete_def Let_def same_core_def intro!: fw_inv_upd_route)

section \<open>Lifecycle\<close>

lemma fmsum_fmmap_keys: "(\<And>k v. h (g k v) = h v) \<Longrightarrow> fmsum h (fmmap_keys g m) = fmsum h m"
  unfolding fmsum_def by (intro sum.cong) (auto split: option.split)

lemma same_core_ok: "route_ok f r rt \<Longrightarrow> same_core rt rt' \<Longrightarrow> route_ok f r rt'"
  by (simp add: route_ok_def same_core_def)

lemma on_registered_inv:
  assumes "fw_inv f" "\<And>rt. same_core rt (g rt)"
  shows "fw_inv (on_registered g f)"
proof -
  let ?h = "\<lambda>r rt. if r |\<in>| fmran (routes_by_peer f) then g rt else rt" and ?f = "on_registered g f"
  have c: "same_core rt (?h r rt)" for r rt using assms(2) [of rt] by (auto simp: same_core_def)
  have m: "fw_routes ?f = fmmap_keys ?h (fw_routes f)" by (simp add: on_registered_def)
  have lk: "fmlookup (fw_routes ?f) r = map_option (?h r) (fmlookup (fw_routes f) r)" for r unfolding m by simp
  have core: "queue_count (?h r rt) = queue_count rt" "live_capacity (?h r rt) = live_capacity rt" for r rt
    using c [of rt r] by (simp_all add: same_core_def queue_count_def live_capacity_def)
  have sums: "fmsum queue_count (fw_routes ?f) = fmsum queue_count (fw_routes f)"
    "fmsum live_capacity (fw_routes ?f) = fmsum live_capacity (fw_routes f)"
    unfolding m by (rule fmsum_fmmap_keys, rule core)+
  have fields: "routes_by_peer ?f = routes_by_peer f" "routes_by_ip ?f = routes_by_ip f" "next_route ?f = next_route f"
    "backend_queues ?f = backend_queues f" "buf_size ?f = buf_size f" "backend_buf_size ?f = backend_buf_size f"
    "max_active_routes ?f = max_active_routes f" "aggregate_occupancy ?f = aggregate_occupancy f"
    "aggregate_capacity ?f = aggregate_capacity f"
    by (simp_all add: on_registered_def)
  have "route_ok ?f r rt'" if at: "fmlookup (fw_routes ?f) r = Some rt'" for r rt'
  proof -
    obtain rt where rt: "fmlookup (fw_routes f) r = Some rt" "rt' = ?h r rt" using at unfolding lk map_option_eq_Some by blast
    have "route_ok f r rt'" unfolding rt(2) by (rule same_core_ok [OF fw_invD(1) [OF assms(1) rt(1)] c])
    then show ?thesis by (simp add: route_ok_def fields)
  qed
  moreover have "peers_ok ?f" unfolding peers_ok_def
  proof (intro allI impI)
    fix peer r assume "fmlookup (routes_by_peer ?f) peer = Some r"
    then obtain rt where rt: "fmlookup (fw_routes f) r = Some rt" "r_peer rt = peer" "\<not> r_stopped rt"
      using fw_invD(2) [OF assms(1)] by (auto simp: fields peers_ok_def)
    then show "\<exists>rt. fmlookup (fw_routes ?f) r = Some rt \<and> r_peer rt = peer \<and> \<not> r_stopped rt"
      using c [of rt r] by (simp add: lk same_core_def)
  qed
  moreover have "ips_ok ?f" unfolding ips_ok_def
  proof (intro allI impI)
    fix ip r assume "fmlookup (routes_by_ip ?f) ip = Some r"
    then obtain rt where rt: "ip \<noteq> []" "fmlookup (fw_routes f) r = Some rt" "r_ip rt = ip" "\<not> r_stopped rt"
      using fw_invD(3) [OF assms(1)] by (auto simp: fields ips_ok_def)
    then show "ip \<noteq> [] \<and> (\<exists>rt. fmlookup (fw_routes ?f) r = Some rt \<and> r_ip rt = ip \<and> \<not> r_stopped rt)"
      using c [of rt r] by (simp add: lk same_core_def)
  qed
  moreover have "limits_ok ?f" using fw_invD(4) [OF assms(1)] by (simp add: limits_ok_def fields)
  ultimately show ?thesis using fw_invD(5,6) [OF assms(1)] sums by (simp add: fw_inv_def fields)
qed

lemma attach_inv:
  assumes "fw_inv f" "\<And>g. fw_inv g \<Longrightarrow> fw_inv (env g)"
  shows "fw_inv (attach_backend_device F env b hasDev f)"
proof -
  have "fw_inv (ensure_backend_queue F b (env (f\<lparr>backend_pump_stops := backend_pump_stops f |-| {|b|}\<rparr>)))"
    using assms by (intro ensure_backend_queue_inv assms(2)) simp
  then show ?thesis by (simp add: attach_backend_device_def Let_def)
qed

lemma start_inv:
  assumes "fw_inv f" "\<And>g. fw_inv g \<Longrightarrow> fw_inv (env g)"
  shows "fw_inv (start_forwarder F now env f)"
proof -
  have "fw_inv (env (reset_drop_counters (f\<lparr>fw_running := True, gen_epoch := gen_epoch f + 1,
      backend_traffic_generation := gen_epoch f + 1\<rparr>)))"
    using assms by simp
  then show ?thesis by (simp add: start_forwarder_def Let_def)
qed

section \<open>The transition system\<close>

text \<open>
  One constructor per locked section. The two sections of a packet path are separate steps: what the first
  read under the lock is an argument of the second, and anything may have happened since.
\<close>

inductive fw_step :: "'f f64 \<Rightarrow> 'f forwarder \<Rightarrow> 'f forwarder \<Rightarrow> bool" for F where
  register: "fw_step F f (fst (try_register_session_with_return_path F now a f))"
| bind: "fw_step F f (fst (bind_session_return_path F now a f))"
| unregister: "fw_step F f (fst (begin_unregister_session F now peer sid f))"
| move: "fw_step F f (fst (update_route_backend F peer b f))"
| retire_path: "range_order ord \<Longrightarrow> fw_step F f (fst (retire_routes_by_return_path ord F now p f))"
| retire_all: "range_order ord \<Longrightarrow> fw_step F f (fst (retire_all_routes ord F now f))"
| rate_limit: "fw_step F f (fst (set_peer_rate_limit F now peer down up f))"
| reconfigure: "fw_step F f (fst (reconfigure_client_queue_config qsize maxActiveRoutes f))"
| client_first: "fw_step F f (fst (client_admit peer pkt p f))"
| client_second: "fw_step F f (fst (client_enqueue F now pkt a f))"
| return_first: "fw_step F f (fst (return_admit b pkt ip f))"
| return_large: "fw_step F f (drop_too_large f)"
| return_limit: "fw_step F f (fst (bucket_allow F now n tb f))"
| return_second: "int (length pkt) \<le> max_client_queue_packet_bytes \<Longrightarrow>
    fw_step F f (fst (return_enqueue F now pkt ip ra f))"
| pump: "fw_step F f (fst (pump_take F now r f))"
| write_first: "fw_step F f (fst (write_begin started r f))"
| write_second: "fw_step F f (write_complete F started ended err r f)"
| attach: "fw_step F f (attach_backend_device F id b hasDev f)"
| detach: "fw_step F f (detach_backend_device b f)"
| pumps_on: "fw_step F f (start_pumps f)"
| pumps_off: "fw_step F f (stop_pumps f)"
| start: "fw_step F f (start_forwarder F now id f)"
| path_new: "fw_step F f (new_return_path p hasWrite f)"
| path_close: "fw_step F f (close_path p f)"

inductive fw_reachable :: "'f f64 \<Rightarrow> 'f forwarder \<Rightarrow> bool" for F where
  created: "new_forwarder_with_limits F acct qsize maxActiveRoutes = Inr f \<Longrightarrow> fw_reachable F f"
| stepped: "fw_reachable F f \<Longrightarrow> fw_step F f f' \<Longrightarrow> fw_reachable F f'"

inductive_cases fw_step_cases: "fw_step F f f'"

lemma fw_step_inv:
  assumes "fw_step F f f'" "fw_inv f"
  shows "fw_inv f'"
  using assms
proof cases
  case (register now a)
  then show ?thesis using assms(2) register_inv [OF assms(2), of F now a]
    by (cases "register_session_locked F now a f") (auto simp: try_register_session_with_return_path_def)
next
  case (retire_path ord now p)
  then show ?thesis using retire_matching_spec(1) [OF assms(2), of ord F now]
    by (auto simp: retire_routes_by_return_path_def) (metis prod.collapse)
next
  case (retire_all ord now)
  then show ?thesis using retire_all_spec [OF assms(2), of ord F now] by (metis prod.collapse)
next
  case (pumps_on)
  then show ?thesis using assms(2) by (auto simp: start_pumps_def Let_def same_core_def intro!: on_registered_inv)
next
  case (pumps_off)
  then show ?thesis using assms(2) by (auto simp: stop_pumps_def same_core_def intro!: on_registered_inv)
next
  case (return_second pkt now ip ra)
  then show ?thesis using return_enqueue_inv [OF assms(2)] by blast
qed (use assms(2) in \<open>simp_all add: bind_inv begin_unregister_inv update_route_backend_inv set_peer_rate_limit_inv
      reconfigure_inv client_admit_inv client_enqueue_inv return_admit_inv pump_take_inv write_begin_inv
      write_complete_inv attach_inv start_inv detach_backend_device_def new_return_path_def close_path_def split: option.split\<close>)

lemma fw_reachable_inv: "fw_reachable F f \<Longrightarrow> fw_inv f"
  by (induction rule: fw_reachable.induct) (auto intro: new_forwarder_inv fw_step_inv)

end
