(* ===== verification/Forwarder_Spec.thy ===== *)
theory Forwarder_Spec
  imports Forwarder_Steps
begin

text \<open>
  What the packet forwarder promises: the memory bound of its queues, the routing table as a partial map
  that every table operation refines, sessions isolated from each other in both directions, and exact drop
  accounting.
\<close>

section \<open>The memory budget\<close>

lemma live_routes_card:
  assumes "fw_inv f"
  shows "card {r \<in> fset (fmdom (fw_routes f)). live_route f r} \<le> go_len (routes_by_peer f)"
proof -
  have "{r \<in> fset (fmdom (fw_routes f)). live_route f r} \<subseteq>
    (\<lambda>k. the (fmlookup (routes_by_peer f) k)) ` fset (fmdom (routes_by_peer f))"
  proof
    fix r assume "r \<in> {r \<in> fset (fmdom (fw_routes f)). live_route f r}"
    then obtain rt where "fmlookup (fw_routes f) r = Some rt" "\<not> r_stopped rt" by (auto simp: live_route_def)
    then have "fmlookup (routes_by_peer f) (r_peer rt) = Some r" using peer_route_iff(1) [OF assms] by blast
    then show "r \<in> (\<lambda>k. the (fmlookup (routes_by_peer f) k)) ` fset (fmdom (routes_by_peer f))"
      by (intro image_eqI [of _ _ "r_peer rt"]) (auto intro: fmdomI)
  qed
  then show ?thesis
    unfolding go_len_card by (meson card_image_le card_mono finite_fset finite_imageI order_trans)
qed

lemma live_capacity_sum:
  assumes "fw_inv f"
  shows "fmsum live_capacity (fw_routes f) = int (card {r \<in> fset (fmdom (fw_routes f)). live_route f r}) * buf_size f"
proof -
  let ?A = "fset (fmdom (fw_routes f))"
  have "fmsum live_capacity (fw_routes f) = (\<Sum>r\<in>?A. if live_route f r then buf_size f else 0)"
    unfolding fmsum_def
  proof (rule sum.cong)
    fix r assume "r \<in> ?A"
    then obtain rt where rt: "fmlookup (fw_routes f) r = Some rt" by (auto elim: fmdomE)
    show "(case fmlookup (fw_routes f) r of None \<Rightarrow> 0 | Some v \<Rightarrow> live_capacity v) = (if live_route f r then buf_size f else 0)"
      using fw_invD(1) [OF assms rt] rt by (auto simp: live_capacity_def live_route_def route_ok_def)
  qed simp
  also have "\<dots> = int (card {r \<in> ?A. live_route f r}) * buf_size f"
    by (simp add: sum.If_cases Int_def conj_commute)
  finally show ?thesis .
qed

lemma fmsum_mono:
  assumes "\<And>k v. fmlookup m k = Some v \<Longrightarrow> g v \<le> h v"
  shows "fmsum g m \<le> fmsum h m"
  unfolding fmsum_def by (intro sum_mono) (auto split: option.split dest: assms)

lemma fmsum_scale: "fmsum (\<lambda>v. c * h v) m = c * fmsum h m"
  unfolding fmsum_def sum_distrib_left by (intro sum.cong) (auto split: option.split)

lemma queued_bytes_le:
  assumes "route_ok f r rt"
  shows "queued_bytes rt \<le> max_client_queue_packet_bytes * live_capacity rt"
proof -
  have "(\<Sum>p\<leftarrow>ps. int (length p)) \<le> max_client_queue_packet_bytes * int (length ps)"
    if "\<forall>p \<in> set ps. int (length p) \<le> max_client_queue_packet_bytes" for ps :: "packet list"
    using that by (induction ps) (auto simp: algebra_simps)
  then have "queued_bytes rt \<le> max_client_queue_packet_bytes * int (length (r_queue rt))"
    using assms by (simp add: queued_bytes_def route_ok_def)
  also have "\<dots> \<le> max_client_queue_packet_bytes * live_capacity rt"
    using assms by (auto simp: route_ok_def live_capacity_def max_client_queue_packet_bytes_def split: if_splits)
  finally show ?thesis .
qed

text \<open>
  C8: the packets queued for clients never take more than the memory budget. In every state that
  construction and any interleaving of registrations, rebindings, retirements, reconfigurations, packets in both
  directions and pump turns can reach, the payload bytes in all client queues together are at most the
  8 GiB of \<open>MaxClientQueueMemoryBytes\<close>.
\<close>

theorem queued_memory_bounded:
  assumes "fw_reachable F f"
  shows "fmsum queued_bytes (fw_routes f) \<le> max_client_queue_memory_bytes"
proof -
  note inv = fw_reachable_inv [OF assms]
  let ?P = max_client_queue_packet_bytes
  have lim: "0 < buf_size f" "buf_size f * max_active_routes f \<le> max_budgeted_active_routes"
    "int (go_len (routes_by_peer f)) \<le> max_active_routes f"
    using fw_invD(4) [OF inv] by (simp_all add: limits_ok_def)
  have "fmsum queued_bytes (fw_routes f) \<le> ?P * fmsum live_capacity (fw_routes f)"
    unfolding fmsum_scale [symmetric] by (rule fmsum_mono) (rule queued_bytes_le [OF fw_invD(1) [OF inv]])
  moreover have "fmsum live_capacity (fw_routes f) \<le> max_active_routes f * buf_size f"
    unfolding live_capacity_sum [OF inv]
    using live_routes_card [OF inv] lim(1,3) by (intro mult_right_mono) linarith+
  moreover have "?P * max_budgeted_active_routes \<le> max_client_queue_memory_bytes"
    by (simp add: max_budgeted_active_routes_def max_client_queue_memory_bytes_def max_client_queue_packet_bytes_def)
  ultimately show ?thesis
    using lim(2) by (simp add: max_client_queue_packet_bytes_def mult.commute)
qed

section \<open>The routing table as a partial map\<close>

definition table_of :: "'f forwarder \<Rightarrow> string \<Rightarrow> table_row option" where
  "table_of f peer = (case lookup_route f peer of None \<Rightarrow> None | Some (r, rt) \<Rightarrow> Some (row_of rt))"

datatype table_op =
    Register route_args
  | Unregister string string
  | Move string int
  | RetirePath "path_ref option"
  | RetireAll

fun run_op :: "(string fset \<Rightarrow> string list) \<Rightarrow> 'f f64 \<Rightarrow> time \<Rightarrow> table_op \<Rightarrow> 'f forwarder \<Rightarrow> 'f forwarder" where
  "run_op ord F now (Register a) f = fst (try_register_session_with_return_path F now a f)"
| "run_op ord F now (Unregister peer sid) f = fst (begin_unregister_session_checked F now peer sid f)"
| "run_op ord F now (Move peer b) f = fst (update_route_backend F peer b f)"
| "run_op ord F now (RetirePath p) f = fst (retire_routes_by_return_path ord F now p f)"
| "run_op ord F now RetireAll f = fst (retire_all_routes ord F now f)"

text \<open>The specification: what each operation does to a plain partial map.\<close>

fun table_step :: "(path_ref \<Rightarrow> bool) \<Rightarrow> int \<Rightarrow> table_op \<Rightarrow> (string \<Rightarrow> table_row option) \<Rightarrow> (string \<Rightarrow> table_row option)" where
  "table_step closed limit (Register a) T =
     (if (\<exists>p. a_path a = Some p \<and> closed p) \<or> T (a_peer a) = None \<and> limit \<le> int (card (dom T)) then T
      else T(a_peer a \<mapsto> (a_session a, a_connection a, a_ip a, a_backend a, a_path a)))"
| "table_step closed limit (Unregister peer sid) T =
     (if sid \<noteq> [] \<and> (\<exists>row. T peer = Some row \<and> fst row = sid) then T(peer := None) else T)"
| "table_step closed limit (Move peer b) T =
     (case T peer of None \<Rightarrow> T | Some (s, c, ip, _, p) \<Rightarrow> T(peer \<mapsto> (s, c, ip, b, p)))"
| "table_step closed limit (RetirePath p) T = (\<lambda>peer. case T peer of None \<Rightarrow> None
     | Some row \<Rightarrow> if snd (snd (snd (snd row))) = p then None else Some row)"
| "table_step closed limit RetireAll T = Map.empty"

lemma table_of_alt:
  assumes "fw_inv f"
  shows "table_of f peer = map_option (\<lambda>r. row_of (the (fmlookup (fw_routes f) r))) (fmlookup (routes_by_peer f) peer)"
proof (cases "fmlookup (routes_by_peer f) peer")
  case (Some r)
  obtain rt where "fmlookup (fw_routes f) r = Some rt" by (rule peer_route [OF assms Some])
  then show ?thesis by (simp add: table_of_def lookup_route_def Some)
qed (simp add: table_of_def lookup_route_def)

lemma card_table: "fw_inv f \<Longrightarrow> card (dom (table_of f)) = go_len (routes_by_peer f)"
proof -
  assume "fw_inv f"
  then have "dom (table_of f) = fset (fmdom (routes_by_peer f))"
    by (auto simp: table_of_alt dom_def fmlookup_dom_iff)
  then show ?thesis by (simp add: go_len_card)
qed

lemma table_of_cong:
  "routes_by_peer f' = routes_by_peer f \<Longrightarrow> fw_routes f' = fw_routes f \<Longrightarrow> table_of f' = table_of f"
  by (rule ext) (simp add: table_of_def lookup_route_def split: option.split)

lemma table_of_forget:
  assumes "fw_inv f"
  shows "table_of (forget_peer peer f) = (table_of f)(peer := None)"
proof
  fix k
  have row: "map_option row_of (fmlookup (fw_routes (forget_peer peer f)) r) = map_option row_of (fmlookup (fw_routes f) r)" for r
    by (auto simp: forget_peer_def forget_route_def row_of_def dead_def split: option.split)
  note alt = table_of_alt [OF assms] table_of_alt [OF forget_peer_inv(1) [OF assms]] forget_peer_peers [OF assms]
  show "table_of (forget_peer peer f) k = ((table_of f)(peer := None)) k"
  proof (cases "fmlookup (routes_by_peer f) k")
    case None
    then show ?thesis by (simp add: alt)
  next
    case (Some r)
    obtain rt where "fmlookup (fw_routes f) r = Some rt" by (rule peer_route [OF assms Some])
    then show ?thesis using row [of r] by (auto simp: alt Some)
  qed
qed

lemma table_of_add:
  assumes "fw_inv f"
  shows "table_of (add_route rt f) = (table_of f)(r_peer rt \<mapsto> row_of rt)"
proof
  fix k
  show "table_of (add_route rt f) k = ((table_of f)(r_peer rt \<mapsto> row_of rt)) k"
  proof (cases "fmlookup (routes_by_peer f) k")
    case None
    then show ?thesis by (simp add: table_of_def lookup_route_def add_route_def)
  next
    case (Some r)
    obtain rt' where "fmlookup (fw_routes f) r = Some rt'" by (rule peer_route [OF assms Some])
    then have "r \<noteq> next_route f" using next_route_free [OF assms] by auto
    then show ?thesis by (simp add: table_of_def lookup_route_def add_route_def Some)
  qed
qed

lemma table_of_register:
  assumes "fw_inv f" "register_session_locked F now a f = (f', Inr old)"
  shows "table_of f' = (table_of f)(a_peer a \<mapsto> (a_session a, a_connection a, a_ip a, a_backend a, a_path a))"
proof -
  let ?b = "register_base F now a f" and ?n = "new_route F now a f"
  note b = register_base_inv [OF assms(1), of F now a]
  have "table_of f' = table_of (add_route ?n (forget_peer (a_peer a) ?b))"
    using register_result(1) [OF assms] by (intro table_of_cong) (auto simp: same_tables_def)
  also have "\<dots> = (table_of ?b)(a_peer a \<mapsto> row_of ?n)"
    by (simp add: table_of_add [OF forget_peer_inv(1) [OF b]] table_of_forget [OF b])
  also have "table_of ?b = table_of f" by (rule table_of_cong) simp_all
  finally show ?thesis by (simp add: row_of_def fun_upd_def)
qed

lemma register_outcome:
  assumes "fw_inv f"
  shows "(\<exists>old. snd (register_session_locked F now a f) = Inr old) \<longleftrightarrow>
    \<not> (\<exists>p. a_path a = Some p \<and> path_closed f p) \<and>
    \<not> (fmlookup (routes_by_peer f) (a_peer a) = None \<and> max_active_routes f \<le> int (go_len (routes_by_peer f)))"
  by (auto simp: register_session_locked_def Let_def case_prod_beta route_limit_inv [OF assms] split: option.splits if_splits)

lemma try_register_eq: "try_register_session_with_return_path F now a f = register_session_locked F now a f"
  by (auto simp: try_register_session_with_return_path_def register_session_locked_def)

lemma peer_none_iff: "fw_inv f \<Longrightarrow> (table_of f peer = None) = (fmlookup (routes_by_peer f) peer = None)"
  by (simp add: table_of_alt)

lemma refines_register:
  assumes "fw_inv f"
  shows "table_of (fst (try_register_session_with_return_path F now a f)) =
    table_step (path_closed f) (max_active_routes f) (Register a) (table_of f)"
proof (cases "register_session_locked F now a f")
  case (Pair f' res)
  note out = register_outcome [OF assms, of F now a, unfolded Pair snd_conv]
  show ?thesis
  proof (cases res)
    case (Inl e)
    then have "f' = f" using Pair register_error by blast
    then show ?thesis using out Inl by (simp add: try_register_eq Pair card_table [OF assms] peer_none_iff [OF assms])
  next
    case (Inr old)
    then show ?thesis using out table_of_register [OF assms Pair [unfolded Inr]]
      by (auto simp add: try_register_eq Pair card_table [OF assms] peer_none_iff [OF assms] fun_upd_def)
  qed
qed

lemma table_of_session: "fw_inv f \<Longrightarrow> table_of f peer = Some row \<Longrightarrow> fst row = route_session_id f peer"
  by (auto simp: table_of_def row_of_def route_session_id_def split: option.splits)

lemma refines_unregister:
  assumes "fw_inv f"
  shows "table_of (fst (begin_unregister_session_checked F now peer sid f)) =
    table_step closed limit (Unregister peer sid) (table_of f)"
proof (cases "sid = []")
  case False
  obtain d where d: "fst (begin_unregister_session F now peer sid f) =
    (if route_session_id f peer = sid then (forget_peer peer f)\<lparr>queue_dwell_of := d\<rparr> else f)"
    using begin_unregister_spec [OF assms, of F now peer sid] False by auto
  have "table_of ((forget_peer peer f)\<lparr>queue_dwell_of := d\<rparr>) = (table_of f)(peer := None)"
    using table_of_cong [of "(forget_peer peer f)\<lparr>queue_dwell_of := d\<rparr>" "forget_peer peer f"] table_of_forget [OF assms]
    by simp
  moreover have "route_session_id f peer = []" if "table_of f peer = None"
    using that by (auto simp: table_of_def route_session_id_def split: option.splits)
  ultimately show ?thesis
    using False table_of_session [OF assms, of peer]
    by (cases "table_of f peer") (auto simp: begin_unregister_session_checked_def d)
qed (simp add: begin_unregister_session_checked_def)

lemma refines_move:
  assumes "fw_inv f"
  shows "table_of (fst (update_route_backend F peer b f)) = table_step closed limit (Move peer b) (table_of f)"
proof (cases "fmlookup (routes_by_peer f) peer")
  case None
  then show ?thesis by (simp add: update_route_backend_def table_of_def lookup_route_def)
next
  case (Some r)
  obtain rt where rt: "fmlookup (fw_routes f) r = Some rt" by (rule peer_route [OF assms Some])
  let ?f = "fst (update_route_backend F peer b f)"
  have peers: "routes_by_peer ?f = routes_by_peer f" by (simp add: update_route_backend_def Some)
  have routes: "fmlookup (fw_routes ?f) q = (if q = r then Some (rt\<lparr>r_backend := b\<rparr>) else fmlookup (fw_routes f) q)" for q
    by (simp add: update_route_backend_def Some rt)
  note alt = table_of_alt [OF assms] table_of_alt [OF update_route_backend_inv [OF assms]]
  show ?thesis
  proof
    fix k
    show "table_of ?f k = table_step closed limit (Move peer b) (table_of f) k"
    proof (cases "k = peer")
      case True
      then show ?thesis by (simp add: alt peers routes Some rt row_of_def)
    next
      case False
      then have "fmlookup (routes_by_peer f) k \<noteq> Some r" using peer_inj [OF assms Some] by blast
      then show ?thesis using False by (cases "fmlookup (routes_by_peer f) k") (auto simp: alt peers routes Some rt row_of_def)
    qed
  qed
qed

lemma table_of_retire:
  assumes "fw_inv f" "range_order ord" "retire_routes_matching ord F now P f = (f', rs)"
  shows "table_of f' k = (case lookup_route f k of None \<Rightarrow> None | Some (r, rt) \<Rightarrow> if P rt then None else Some (row_of rt))"
proof -
  note sp = retire_matching_spec [OF assms]
  show ?thesis
  proof (cases "fmlookup (routes_by_peer f) k")
    case None
    then show ?thesis by (simp add: table_of_alt [OF sp(1)] sp(2) lookup_route_def)
  next
    case (Some r)
    obtain rt where rt: "fmlookup (fw_routes f) r = Some rt" by (rule peer_route [OF assms(1) Some])
    then show ?thesis using sp(3) [of r] by (auto simp: table_of_alt [OF sp(1)] sp(2) lookup_route_def Some)
  qed
qed

lemma refines_retire:
  assumes "fw_inv f" "range_order ord"
  shows "table_of (fst (retire_routes_by_return_path ord F now p f)) = table_step closed limit (RetirePath p) (table_of f)"
proof -
  obtain f' rs where run: "retire_routes_matching ord F now (\<lambda>rt. r_path rt = p) f = (f', rs)" by fastforce
  show ?thesis
    by (rule ext) (simp add: retire_routes_by_return_path_def run table_of_retire [OF assms run] table_of_def [of f] row_of_def
        split: option.split)
qed


section \<open>A concrete forwarder\<close>

definition demo_args :: route_args where
  "demo_args = \<lparr>a_session = ''s1'', a_connection = ''c1'', a_peer = ''peer'', a_ip = ''10.0.0.2'', a_backend = 7,
     a_limit_down = 0, a_limit_up = 0, a_path = None\<rparr>"

definition demo_new :: "rat forwarder" where
  "demo_new = projr (new_forwarder_with_limits rat_f64 None 4 2)"

definition demo_fw :: "rat forwarder" where
  "demo_fw = fst (try_register_session_with_return_path rat_f64 1 demo_args demo_new)"

lemma demo_created: "new_forwarder_with_limits rat_f64 None 4 2 = Inr demo_new"
  by (simp add: demo_new_def new_forwarder_with_limits_def validate_client_route_limit_def Let_def
      max_budgeted_active_routes_def max_client_queue_memory_bytes_def max_client_queue_packet_bytes_def)

lemma demo_new_reachable: "fw_reachable rat_f64 demo_new"
  by (rule fw_reachable.created [OF demo_created])

lemma demo_reachable: "fw_reachable rat_f64 demo_fw"
  unfolding demo_fw_def by (rule fw_reachable.stepped [OF demo_new_reachable fw_step.register])

lemma demo_new_fields [simp]:
  "routes_by_peer demo_new = fmempty" "routes_by_ip demo_new = fmempty" "fw_routes demo_new = fmempty"
  "next_route demo_new = 0" "max_active_routes demo_new = 2" "buf_size demo_new = 4" "backend_queues demo_new = fmempty"
  "backend_buf_size demo_new = 2048" "backend_traffic demo_new = fmempty" "fw_buckets demo_new = fmempty"
  "fw_classifier demo_new = False" "fw_counters demo_new = no_counters"
  by (simp_all add: demo_new_def new_forwarder_with_limits_def validate_client_route_limit_def Let_def
      max_budgeted_active_routes_def max_client_queue_memory_bytes_def max_client_queue_packet_bytes_def
      max_client_queue_packets_for_routes_def signed_divide_int_def default_backend_queue_size_def)

lemma demo_registered:
  obtains old where "try_register_session_with_return_path rat_f64 1 demo_args demo_new = (demo_fw, Inr old)"
proof -
  have "a_path demo_args = None" by (simp add: demo_args_def)
  then have "\<exists>old. snd (register_session_locked rat_f64 1 demo_args demo_new) = Inr old"
    using register_outcome [OF fw_reachable_inv [OF demo_new_reachable], of rat_f64 1 demo_args] by simp
  then show ?thesis using that unfolding demo_fw_def try_register_eq by (metis prod.collapse)
qed

lemma queued_memory_bounded_witness:
  "fmsum queued_bytes (fw_routes demo_fw) \<le> max_client_queue_memory_bytes"
  by (rule queued_memory_bounded [OF demo_reachable])


section \<open>Teardown and replacement\<close>

lemma registered_route:
  assumes "fw_inv f" "register_session_locked F now a f = (f', Inr old)"
  shows "lookup_route f' (a_peer a) = Some (next_route f, new_route F now a f)"
    and "a_ip a \<noteq> [] \<Longrightarrow> fmlookup (routes_by_ip f') (a_ip a) = Some (next_route f)"
  using register_result(1) [OF assms] forget_peer_inv(7) [OF register_base_inv [OF assms(1), of F now a], of "a_peer a"]
  by (auto simp: same_tables_def lookup_route_def add_route_def)

text \<open>
  A late teardown cannot remove a replacement. Once a peer has been registered for a session, and for
  whatever session the route held before, a teardown that names any other session changes nothing and
  retires nothing, and the new route stays reachable in both directions.
\<close>

theorem late_teardown_keeps_replacement:
  assumes "fw_reachable F f" "try_register_session_with_return_path F now a f = (f1, Inr old)"
    "a_ip a \<noteq> []" "sid \<noteq> a_session a"
  shows "begin_unregister_session_checked F later (a_peer a) sid f1 = (f1, None) \<and>
    has_session_route f1 (a_peer a) (a_session a) (a_connection a) (a_ip a) (a_backend a)"
proof -
  note r = registered_route [OF fw_reachable_inv [OF assms(1)] assms(2) [unfolded try_register_eq]]
  have "lookup_route f1 (a_peer a) = Some (next_route f, new_route F now a f)" by (rule r(1))
  then have l: "fmlookup (routes_by_peer f1) (a_peer a) = Some (next_route f)"
    "fmlookup (fw_routes f1) (next_route f) = Some (new_route F now a f)"
    by (auto simp: lookup_route_def split: option.splits)
  show ?thesis
    using r assms(3,4) l by (simp add: begin_unregister_session_checked_def begin_unregister_session_def has_session_route_def
        route_matches_def)
qed

lemma late_teardown_keeps_replacement_witness:
  "begin_unregister_session_checked rat_f64 9 ''peer'' ''s0'' demo_fw = (demo_fw, None) \<and>
   has_session_route demo_fw ''peer'' ''s1'' ''c1'' ''10.0.0.2'' 7"
proof -
  obtain old where old: "try_register_session_with_return_path rat_f64 1 demo_args demo_new = (demo_fw, Inr old)"
    by (rule demo_registered)
  show ?thesis using late_teardown_keeps_replacement [OF demo_new_reachable old, of "''s0''" 9] by (simp add: demo_args_def)
qed

section \<open>The pump\<close>

fun pump_turns :: "'f f64 \<Rightarrow> time list \<Rightarrow> route_ref \<Rightarrow> 'f forwarder \<Rightarrow> 'f forwarder \<times> packet option list" where
  "pump_turns F [] r f = (f, [])"
| "pump_turns F (now # nows) r f =
     (case pump_take F now r f of (f1, out) \<Rightarrow> case pump_turns F nows r f1 of (f2, outs) \<Rightarrow> (f2, out # outs))"

lemma pump_take_cons:
  assumes "fw_inv f" "fmlookup (fw_routes f) r = Some rt" "r_queue rt = pkt # qs"
  shows "snd (pump_take F now r f) = Some pkt"
    and "\<exists>rt'. fmlookup (fw_routes (fst (pump_take F now r f))) r = Some rt' \<and> r_queue rt' = qs"
  using assms by (auto simp: pump_take_def reconcile_queue_occupancy_def Let_def)


section \<open>Delivery to the owner of an address\<close>

text \<open>What other goroutines do between two sections of a packet path is any number of steps.\<close>

definition interference :: "'f f64 \<Rightarrow> ('f forwarder \<Rightarrow> 'f forwarder) \<Rightarrow> bool" where
  "interference F env \<longleftrightarrow> (\<forall>g. rtranclp (fw_step F) g (env g))"

lemma interference_id: "interference F id"
  by (simp add: interference_def)

lemma reachable_rtranclp: "rtranclp (fw_step F) f g \<Longrightarrow> fw_reachable F f \<Longrightarrow> fw_reachable F g"
  by (induction rule: rtranclp_induct) (auto intro: fw_reachable.stepped)

lemma reachable_env: "interference F env \<Longrightarrow> fw_reachable F f \<Longrightarrow> fw_reachable F (env f)"
  unfolding interference_def by (blast intro: reachable_rtranclp)

lemma bookkeeping_routes [simp]:
  "fw_routes (count_up g f) = fw_routes f" "fw_routes (record_backend_traffic n rx now t f) = fw_routes f"
  "routes_by_ip (count_up g f) = routes_by_ip f" "backend_queues (count_up g f) = backend_queues f"
  "backend_queues (record_backend_traffic n rx now t f) = backend_queues f"
  "fw_counters (record_backend_traffic n rx now t f) = fw_counters f"
  "routes_by_ip (record_backend_traffic n rx now t f) = routes_by_ip f"
  by (simp_all add: count_up_def record_backend_traffic_def split: option.split)

lemma return_enqueue_success:
  assumes "fw_inv g" "return_enqueue F now pkt ip a g = (f', Inr (), cs)"
  shows "\<exists>rt rt'. fmlookup (routes_by_ip g) ip = Some (ra_route a) \<and> fmlookup (fw_routes g) (ra_route a) = Some rt \<and>
    r_ip rt = ip \<and> \<not> r_stopped rt \<and> length (r_queue rt) < r_capacity rt \<and>
    fmlookup (fw_routes f') (ra_route a) = Some rt' \<and> r_queue rt' = r_queue rt @ [pkt] \<and>
    (\<forall>q. q \<noteq> ra_route a \<longrightarrow> fmlookup (fw_routes f') q = fmlookup (fw_routes g) q)"
proof -
  have ip: "fmlookup (routes_by_ip g) ip = Some (ra_route a)"
    using assms(2) by (auto simp: return_enqueue_def split: if_splits)
  then obtain rt where rt: "fmlookup (fw_routes g) (ra_route a) = Some rt" "r_ip rt = ip" "\<not> r_stopped rt"
    using fw_invD(3) [OF assms(1)] by (auto simp: ips_ok_def)
  have cap: "length (r_queue rt) < r_capacity rt"
    using assms ip rt(1) by (auto simp: return_enqueue_def Let_def split: if_splits)
  then show ?thesis
    using assms ip rt
    by (auto simp: return_enqueue_def Let_def record_route_traffic_def reconcile_queue_occupancy_def)
qed

text \<open>
  C4: a reply reaches the owner of its address and nobody else. From any reachable state and with anything
  the other goroutines may do between the two sections, a packet that \<open>RouteBackendToClient\<close> accepts is
  appended to the queue of one live route, the one registered for the destination address both when the
  packet was checked and when it was queued; no other queue changes, the packet fits the size limit, and if
  that route belongs to an engine the packet came from the route's own backend and its header names
  exactly that address.
\<close>

theorem return_reaches_owner:
  assumes "fw_reachable F f" "interference F env"
    "route_backend_to_client F now env backend pkt ip f = (f', Inr (), cs)"
  shows "\<exists>r rt0 g rt rt'. fmlookup (routes_by_ip f) ip = Some r \<and> fmlookup (fw_routes f) r = Some rt0 \<and> r_ip rt0 = ip \<and>
    (r_path rt0 \<noteq> None \<longrightarrow> backend = r_backend rt0 \<and> valid_return_destination pkt ip) \<and>
    int (length pkt) \<le> max_client_queue_packet_bytes \<and>
    fw_reachable F g \<and> fmlookup (routes_by_ip g) ip = Some r \<and> fmlookup (fw_routes g) r = Some rt \<and> r_ip rt = ip \<and>
    \<not> r_stopped rt \<and> length (r_queue rt) < r_capacity rt \<and>
    fmlookup (fw_routes f') r = Some rt' \<and> r_queue rt' = r_queue rt @ [pkt] \<and>
    (\<forall>q. q \<noteq> r \<longrightarrow> fmlookup (fw_routes f') q = fmlookup (fw_routes g) q)"
proof -
  note inv = fw_reachable_inv [OF assms(1)]
  obtain f1 a c1 where ad: "return_admit backend pkt ip f = (f1, Inr a, c1)"
    using assms(3) by (auto simp: route_backend_to_client_def split: prod.splits sum.splits)
  obtain r rt0 where f: "f1 = f" "fmlookup (routes_by_ip f) ip = Some r" "fmlookup (fw_routes f) r = Some rt0" "ra_route a = r"
    "r_path rt0 \<noteq> None \<longrightarrow> backend = r_backend rt0 \<and> valid_return_destination pkt ip"
    using ad by (auto simp: return_admit_def split: option.splits if_splits)
  have size_ok: "int (length pkt) \<le> max_client_queue_packet_bytes"
    using assms(3) by (auto simp: route_backend_to_client_def ad split: if_splits)
  obtain f2 where b: "bucket_allow F now (int (length pkt)) (ra_bucket a) f = (f2, True)"
    and q: "return_enqueue F now pkt ip a (env f2) = (f', Inr (), cs)"
    using assms(3) size_ok by (auto simp: route_backend_to_client_def ad f(1) split: prod.splits bool.splits)
  have "fw_step F f f2" using fw_step.return_limit [of F f now "int (length pkt)" "ra_bucket a"] by (simp add: b)
  then have g: "fw_reachable F (env f2)"
    by (intro reachable_env [OF assms(2)] fw_reachable.stepped [OF assms(1)])
  have "r_ip rt0 = ip" using fw_invD(3) [OF inv] f(2,3) by (fastforce simp: ips_ok_def)
  then show ?thesis
    using return_enqueue_success [OF fw_reachable_inv [OF g] q] f g size_ok by blast
qed

lemma demo_route:
  "lookup_route demo_fw ''peer'' = Some (0, new_route rat_f64 1 demo_args demo_new)"
  "fmlookup (routes_by_ip demo_fw) ''10.0.0.2'' = Some 0"
proof -
  obtain old where old: "try_register_session_with_return_path rat_f64 1 demo_args demo_new = (demo_fw, Inr old)"
    by (rule demo_registered)
  note r = registered_route [OF fw_reachable_inv [OF demo_new_reachable] old [unfolded try_register_eq]]
  show "lookup_route demo_fw ''peer'' = Some (0, new_route rat_f64 1 demo_args demo_new)"
    "fmlookup (routes_by_ip demo_fw) ''10.0.0.2'' = Some 0"
    using r by (simp_all add: demo_args_def)
qed

lemma demo_route_at: "fmlookup (fw_routes demo_fw) 0 = Some (new_route rat_f64 1 demo_args demo_new)"
  using demo_route(1) by (auto simp: lookup_route_def split: option.splits)

lemma demo_buckets: "r_tb_down (new_route rat_f64 1 demo_args demo_new) = None" "r_tb_up (new_route rat_f64 1 demo_args demo_new) = None"
  by (simp_all add: new_route_def fresh_route_def Let_def case_prod_beta demo_args_def new_token_bucket_def alloc_bucket_def)

definition demo_queued :: "rat forwarder" where
  "demo_queued = fst (route_backend_to_client rat_f64 2 id 7 [1, 2, 3] ''10.0.0.2'' demo_fw)"

lemma demo_delivers: "route_backend_to_client rat_f64 2 id 7 [1, 2, 3] ''10.0.0.2'' demo_fw = (demo_queued, Inr (), [])"
proof -
  have "snd (route_backend_to_client rat_f64 2 id 7 [1, 2, 3] ''10.0.0.2'' demo_fw) = (Inr (), [])"
    using demo_route(2) demo_route_at demo_buckets
    by (simp add: route_backend_to_client_def return_admit_def max_client_queue_packet_bytes_def bucket_allow_def
        return_enqueue_def Let_def reconcile_before_idle demo_args_def)
  then show ?thesis unfolding demo_queued_def by (metis prod.collapse)
qed

lemma return_reaches_owner_witness:
  "\<exists>r rt'. fmlookup (routes_by_ip demo_fw) ''10.0.0.2'' = Some r \<and> fmlookup (fw_routes demo_queued) r = Some rt' \<and>
     last (r_queue rt') = [1, 2, 3]"
  using return_reaches_owner [OF demo_reachable interference_id demo_delivers] by fastforce

lemma return_path_reachable:
  assumes "fw_reachable F f" "interference F env"
  shows "fw_reachable F (fst (route_backend_to_client F now env backend pkt ip f))"
proof (cases "return_admit backend pkt ip f")
  case (fields f1 res cs)
  have 1: "fw_reachable F f1"
    using fw_reachable.stepped [OF assms(1) fw_step.return_first [of F f backend pkt ip]] by (simp add: fields)
  show ?thesis
  proof (cases res)
    case (Inl e)
    then show ?thesis using 1 by (simp add: route_backend_to_client_def fields)
  next
    case (Inr a)
    obtain f2 ok where b: "bucket_allow F now (int (length pkt)) (ra_bucket a) f1 = (f2, ok)" by fastforce
    have 2: "fw_reachable F f2"
      using fw_reachable.stepped [OF 1 fw_step.return_limit [of F f1 now "int (length pkt)" "ra_bucket a"]] by (simp add: b)
    have "fw_reachable F (fst (return_enqueue F now pkt ip a (env f2)))" if "int (length pkt) \<le> max_client_queue_packet_bytes"
      by (rule fw_reachable.stepped [OF reachable_env [OF assms(2) 2] fw_step.return_second [OF that]])
    then show ?thesis
      using fw_reachable.stepped [OF 1 fw_step.return_large] 2 by (simp add: route_backend_to_client_def fields Inr b not_less split: bool.split)
  qed
qed

lemma demo_queued_reachable: "fw_reachable rat_f64 demo_queued"
  unfolding demo_queued_def by (rule return_path_reachable [OF demo_reachable interference_id])


section \<open>Packets from clients\<close>

definition has_queue :: "int \<Rightarrow> 'f forwarder \<Rightarrow> bool" where
  "has_queue b f \<longleftrightarrow> fmlookup (backend_queues f) b \<noteq> None"

lemma has_queue_register:
  assumes "fw_inv f" "has_queue b f"
  shows "has_queue b (fst (register_session_locked F now a f))"
proof (cases "register_session_locked F now a f")
  case (Pair f' res)
  show ?thesis
  proof (cases res)
    case (Inl e)
    then show ?thesis using assms(2) Pair register_error by fastforce
  next
    case (Inr old)
    have "backend_queues f' = backend_queues (register_base F now a f)"
      using register_result(1) [OF assms(1) Pair [unfolded Inr]]
        forget_peer_inv(4) [OF register_base_inv [OF assms(1), of F now a], of "a_peer a"]
      by (simp add: same_tables_def add_route_def)
    then show ?thesis using assms(2) by (auto simp: Pair has_queue_def register_base_def)
  qed
qed

lemma has_queue_same: "backend_queues f' = backend_queues f \<Longrightarrow> has_queue b f' = has_queue b f"
  by (simp add: has_queue_def)

lemma reconcile_queues [simp]:
  "backend_queues (reconcile_before_queue_mutation F now r f) = backend_queues f"
  "backend_queues (reconcile_queue_occupancy F now r f) = backend_queues f"
  "backend_queues (change_queue_capacity F now d f) = backend_queues f"
  "backend_queues (stop_route_pump r f) = backend_queues f"
  "backend_queues (drop_route_ip r ip f) = backend_queues f"
  "backend_queues (record_route_traffic n rx now r f) = backend_queues f"
  by (simp_all add: reconcile_before_queue_mutation_def reconcile_queue_occupancy_def change_queue_capacity_def Let_def
      stop_route_pump_def drop_route_ip_def record_route_traffic_def split: option.split)

lemma drain_queues [simp]: "backend_queues (drain_loop F now r n f) = backend_queues f"
  by (induction n arbitrary: f) simp_all

lemma retire_queues [simp]:
  "backend_queues (retire_queue F now r rt f) = backend_queues f" "backend_queues (retire_one F now r f) = backend_queues f"
  by (simp_all add: retire_queue_def drain_route_queue_def retire_one_def Let_def split: option.split)

lemma retire_fold_queues [simp]: "backend_queues (fold (retire_one F now) rs f) = backend_queues f"
  by (induction rs arbitrary: f) simp_all

lemma retire_matching_queues [simp]: "backend_queues (fst (retire_routes_matching ord F now P f)) = backend_queues f"
  by (simp add: retire_routes_matching_def Let_def)

lemma drop_queues [simp]:
  "backend_queues (drop_no_route f) = backend_queues f" "backend_queues (drop_too_large f) = backend_queues f"
  "backend_queues (drop_queue_full f) = backend_queues f" "backend_queues (drop_client_no_backend f) = backend_queues f"
  "backend_queues (reset_drop_counters f) = backend_queues f"
  by (simp_all add: drop_no_route_def drop_too_large_def drop_queue_full_def drop_client_no_backend_def reset_drop_counters_def)

lemma table_queues [simp]:
  "backend_queues (fst (begin_unregister_session F now peer sid f)) = backend_queues f"
  "backend_queues (fst (retire_routes_by_return_path ord F now p f)) = backend_queues f"
  "backend_queues (fst (set_peer_rate_limit F now peer down up f)) = backend_queues f"
  by (simp_all add: begin_unregister_session_def retire_routes_by_return_path_def set_peer_rate_limit_def Let_def case_prod_beta split: option.split)

lemma packet_queues [simp]:
  "backend_queues (fst (client_admit peer pkt p f)) = backend_queues f"
  "backend_queues (fst (return_admit b pkt ip f)) = backend_queues f"
  "backend_queues (fst (return_enqueue F now pkt ip a f)) = backend_queues f"
  "backend_queues (fst (pump_take F now r f)) = backend_queues f"
  "backend_queues (fst (write_begin started r f)) = backend_queues f"
  "backend_queues (write_complete F started ended err r f) = backend_queues f"
  by (simp_all add: client_admit_def return_admit_def return_enqueue_def pump_take_def write_begin_def write_complete_def
      Let_def case_prod_beta split: option.split list.split)

lemma lifecycle_queues [simp]:
  "backend_queues (detach_backend_device b f) = backend_queues f" "backend_queues (start_pumps f) = backend_queues f"
  "backend_queues (stop_pumps f) = backend_queues f" "backend_queues (start_forwarder F now id f) = backend_queues f"
  "backend_queues (new_return_path p hasWrite f) = backend_queues f" "backend_queues (close_path p f) = backend_queues f"
  by (simp_all add: detach_backend_device_def start_pumps_def stop_pumps_def start_forwarder_def on_registered_def
      new_return_path_def close_path_def Let_def split: option.split)

lemma fw_step_queue:
  assumes "fw_step F f f'" "fw_inv f" "has_queue b f"
  shows "has_queue b f'"
  using assms
proof cases
  case (register now a)
  then show ?thesis using has_queue_register [OF assms(2,3)] by (simp add: try_register_eq)
next
  case (bind now a)
  show ?thesis unfolding bind bind_session_return_path_def
    using has_queue_register [OF assms(2,3)] assms(3)
    by (auto simp: has_queue_def split: option.split sum.split prod.split) (metis fst_conv not_None_eq)+
next
  case (retire_all ord now)
  obtain f1 rs where run: "retire_routes_matching ord F now (\<lambda>_. True) f = (f1, rs)" by fastforce
  then have "backend_queues f1 = backend_queues f" by (metis fst_conv retire_matching_queues)
  then show ?thesis using assms(3) retire_all(1) by (simp add: retire_all_routes_def run has_queue_def)
next
  case (client_second now pkt a)
  then show ?thesis using assms(3) bucket_allow_fields(1) [of F now "int (length pkt)" "ca_bucket a" f]
    by (auto simp: client_enqueue_def has_queue_def Let_def drop_client_rate_limited_def drop_client_queue_full_def
        split: prod.split bool.split simp del: bucket_allow_fields)
next
  case (attach b' hasDev)
  then show ?thesis using assms(3) by (auto simp: attach_backend_device_def has_queue_def Let_def ensure_backend_traffic_def)
next
  case (move peer b')
  then show ?thesis using assms(3) by (auto simp: update_route_backend_def has_queue_def split: option.split)
qed (use assms(3) in \<open>simp_all add: has_queue_def\<close>)

lemma fw_steps_queue: "rtranclp (fw_step F) f g \<Longrightarrow> fw_reachable F f \<Longrightarrow> has_queue b f \<Longrightarrow> has_queue b g"
  by (induction rule: rtranclp_induct) (auto intro: fw_step_queue fw_reachable_inv reachable_rtranclp)

lemma client_enqueue_result:
  assumes "client_enqueue F now pkt a f = (f', res)" "fmlookup (backend_queues f) (ca_backend a) = Some q"
  shows "res \<noteq> Inl ErrBackendNotFound \<and> (res = Inr () \<longrightarrow> int (length q) < backend_buf_size f \<and>
    backend_queues f' = fmupd (ca_backend a) (q @ [pkt]) (backend_queues f))"
proof -
  obtain f1 ok where b: "bucket_allow F now (int (length pkt)) (ca_bucket a) f = (f1, ok)" by fastforce
  then have "backend_queues f1 = backend_queues f" "backend_buf_size f1 = backend_buf_size f"
    by (metis bucket_allow_fields(1) fst_conv, metis bucket_allow_fields(2) fst_conv)
  then show ?thesis using assms by (auto simp: client_enqueue_def b Let_def split: bool.splits if_splits)
qed

text \<open>
  C7: a client can only speak for itself. From any reachable state and with any interference between the two
  sections, a packet that is accepted from a peer is appended to the queue of the backend its route
  names, provided that the packet carries no IPv4 source, the unspecified source, or exactly the address the
  route was registered with, and that the route belongs to the engine that submits the packet; every
  rejection leaves all backend queues as they were before the last section, and the branch for a missing
  backend queue is never taken.
\<close>

theorem client_speaks_for_itself:
  assumes "fw_reachable F f" "interference F env" "route_client_to_backend_on F now env peer pkt p f = (f', res)"
  shows "res \<noteq> Inl ErrBackendNotFound \<and>
    (res = Inr () \<longrightarrow> (\<exists>r rt g q. lookup_route f peer = Some (r, rt) \<and> (p \<noteq> None \<longrightarrow> r_path rt = p) \<and>
       source_ip pkt \<in> {[], ''0.0.0.0'', r_ip rt} \<and> fw_reachable F g \<and>
       fmlookup (backend_queues g) (r_backend rt) = Some q \<and> int (length q) < backend_buf_size g \<and>
       backend_queues f' = fmupd (r_backend rt) (q @ [pkt]) (backend_queues g)))"
proof -
  note inv = fw_reachable_inv [OF assms(1)]
  obtain f1 adm where ad: "client_admit peer pkt p f = (f1, adm)" by fastforce
  have 1: "fw_reachable F f1"
    using fw_reachable.stepped [OF assms(1) fw_step.client_first [of F f peer pkt p]] by (simp add: ad)
  have q: "has_queue (r_backend rt) f" if "lookup_route f peer = Some (r, rt)" for r rt
  proof -
    have "fmlookup (routes_by_peer f) peer = Some r" "fmlookup (fw_routes f) r = Some rt"
      using that by (auto simp: lookup_route_def split: option.splits)
    then show ?thesis using fw_invD(1,2) [OF inv] by (fastforce simp: has_queue_def route_ok_def peers_ok_def)
  qed
  show ?thesis
  proof (cases adm)
    case (Inl e)
    have "e \<noteq> ErrBackendNotFound"
      using ad Inl q by (auto simp: client_admit_def Let_def has_queue_def split: option.splits if_splits)
    then show ?thesis using assms(3) by (auto simp: route_client_to_backend_on_def ad Inl)
  next
    case (Inr a)
    obtain r rt where rt: "lookup_route f peer = Some (r, rt)" "p \<noteq> None \<longrightarrow> r_path rt = p"
      "source_ip pkt \<in> {[], ''0.0.0.0'', r_ip rt}" "ca_backend a = r_backend rt" "f1 = f"
      using ad Inr by (auto simp: client_admit_def Let_def split: option.splits if_splits)
    have g: "fw_reachable F (env f1)" "has_queue (ca_backend a) (env f1)"
      using reachable_env [OF assms(2) 1] fw_steps_queue [OF _ 1, of "env f1"] assms(2) q [OF rt(1)] rt(4,5)
      by (auto simp: interference_def)
    then obtain q where q: "fmlookup (backend_queues (env f1)) (ca_backend a) = Some q" by (auto simp: has_queue_def)
    have "client_enqueue F now pkt a (env f1) = (f', res)" using assms(3) by (simp add: route_client_to_backend_on_def ad Inr)
    from client_enqueue_result [OF this q] show ?thesis using rt g(1) q by (metis (no_types, lifting))
  qed
qed

definition demo_sent :: "rat forwarder" where
  "demo_sent = fst (route_client_to_backend_on rat_f64 2 id ''peer'' [1, 2, 3] None demo_fw)"

lemma demo_has_queue: "fmlookup (backend_queues demo_fw) 7 \<noteq> None"
proof -
  have "demo_fw = fst (register_session_locked rat_f64 1 demo_args demo_new)" by (simp add: demo_fw_def try_register_eq)
  obtain old where old: "register_session_locked rat_f64 1 demo_args demo_new = (demo_fw, Inr old)"
    using demo_registered unfolding try_register_eq by blast
  have "backend_queues demo_fw = backend_queues (register_base rat_f64 1 demo_args demo_new)"
    using register_result(1) [OF fw_reachable_inv [OF demo_new_reachable] old]
      forget_peer_inv(4) [OF register_base_inv [OF fw_reachable_inv [OF demo_new_reachable], of rat_f64 1 demo_args], of "a_peer demo_args"]
    by (simp add: same_tables_def add_route_def)
  then show ?thesis by (simp add: register_base_def demo_args_def)
qed

lemma client_speaks_for_itself_witness:
  "snd (route_client_to_backend_on rat_f64 2 id ''peer'' [1, 2, 3] None demo_fw) \<noteq> Inl ErrBackendNotFound"
  using client_speaks_for_itself [OF demo_reachable interference_id, of 2 "''peer''" "[1, 2, 3]" None demo_sent]
  unfolding demo_sent_def by (metis prod.collapse)

end
