(* ===== verification/Forwarder_Drops.thy ===== *)
theory Forwarder_Drops
  imports Forwarder_Spec
begin

text \<open>
  The loss accounting of the packet forwarder: the reason counters always add up to the totals, and every
  packet offered to a packet path moves exactly one counter, with the one exception of a rate-limited reply.
\<close>

section \<open>Operations that count nothing\<close>

lemma queue_ops_counters [simp]:
  "fw_counters (reconcile_before_queue_mutation F now r f) = fw_counters f"
  "fw_counters (reconcile_queue_occupancy F now r f) = fw_counters f"
  "fw_counters (change_queue_capacity F now d f) = fw_counters f"
  "fw_counters (stop_route_pump r f) = fw_counters f" "fw_counters (drop_route_ip r ip f) = fw_counters f"
  "fw_counters (record_route_traffic n rx now r f) = fw_counters f"
  "fw_counters (ensure_backend_queue F b f) = fw_counters f" "fw_counters (ensure_backend_traffic F b f) = fw_counters f"
  "fw_counters (fst (alloc_bucket tb f)) = fw_counters f"
  by (simp_all add: reconcile_before_queue_mutation_def reconcile_queue_occupancy_def change_queue_capacity_def Let_def
      stop_route_pump_def drop_route_ip_def record_route_traffic_def ensure_backend_queue_def ensure_backend_traffic_def
      alloc_bucket_def split: option.split)

lemma drain_counters [simp]: "fw_counters (drain_loop F now r n f) = fw_counters f"
  by (induction n arbitrary: f) simp_all

lemma retire_counters [simp]:
  "fw_counters (retire_queue F now r rt f) = fw_counters f" "fw_counters (retire_one F now r f) = fw_counters f"
  by (simp_all add: retire_queue_def drain_route_queue_def retire_one_def Let_def split: option.split)

lemma retire_fold_counters [simp]: "fw_counters (fold (retire_one F now) rs f) = fw_counters f"
  by (induction rs arbitrary: f) simp_all

lemma replace_counters [simp]: "fw_counters (fst (replace_old_route F now peer f)) = fw_counters f"
  by (simp add: replace_old_route_def Let_def split: option.split)

lemma register_counters [simp]: "fw_counters (fst (register_session_locked F now a f)) = fw_counters f"
  by (simp add: register_session_locked_def Let_def case_prod_beta)

lemma bind_counters [simp]: "fw_counters (fst (bind_session_return_path F now a f)) = fw_counters f"
proof -
  have "fw_counters g = fw_counters f" if "register_session_locked F now b f = (g, res)" for b g res
    using register_counters [of F now b f] that by simp
  then show ?thesis by (auto simp: bind_session_return_path_def split: option.split sum.split prod.split)
qed

lemma retire_matching_counters [simp]: "fw_counters (fst (retire_routes_matching ord F now P f)) = fw_counters f"
  by (simp add: retire_routes_matching_def Let_def)

lemma retire_all_counters [simp]: "fw_counters (fst (retire_all_routes ord F now f)) = fw_counters f"
  using retire_matching_counters [of ord F now "\<lambda>_. True" f]
  by (simp add: retire_all_routes_def case_prod_beta del: retire_matching_counters)

lemma try_register_counters [simp]: "fw_counters (fst (try_register_session_with_return_path F now a f)) = fw_counters f"
  by (simp only: try_register_eq register_counters)

lemma unregister_counters [simp]: "fw_counters (fst (begin_unregister_session F now peer sid f)) = fw_counters f"
  by (simp add: begin_unregister_session_def Let_def split: option.split)

lemma move_counters [simp]: "fw_counters (fst (update_route_backend F peer b f)) = fw_counters f"
  by (simp add: update_route_backend_def split: option.split)

lemma retire_path_counters [simp]: "fw_counters (fst (retire_routes_by_return_path ord F now p f)) = fw_counters f"
  by (simp add: retire_routes_by_return_path_def)

lemma rate_limit_counters [simp]: "fw_counters (fst (set_peer_rate_limit F now peer down up f)) = fw_counters f"
proof (cases "fmlookup (routes_by_peer f) peer")
  case (Some r)
  obtain f1 t1 where 1: "alloc_bucket (new_token_bucket F now down []) f = (f1, t1)" by fastforce
  obtain f2 t2 where 2: "alloc_bucket (new_token_bucket F now up []) f1 = (f2, t2)" by fastforce
  have "fw_counters f1 = fw_counters f" "fw_counters f2 = fw_counters f1"
    using queue_ops_counters(9) 1 2 by (metis fst_conv)+
  then show ?thesis by (simp add: set_peer_rate_limit_def Some 1 2)
qed (simp add: set_peer_rate_limit_def)

lemma lifecycle_counters [simp]:
  "fw_counters (fst (pump_take F now r f)) = fw_counters f" "fw_counters (fst (write_begin started r f)) = fw_counters f"
  "fw_counters (write_complete F started ended err r f) = fw_counters f"
  "fw_counters (attach_backend_device F id b hasDev f) = fw_counters f"
  "fw_counters (detach_backend_device b f) = fw_counters f" "fw_counters (start_pumps f) = fw_counters f"
  "fw_counters (stop_pumps f) = fw_counters f" "fw_counters (new_return_path p hasWrite f) = fw_counters f"
  "fw_counters (close_path p f) = fw_counters f"
  by (simp_all add: pump_take_def write_begin_def write_complete_def attach_backend_device_def detach_backend_device_def
      start_pumps_def stop_pumps_def on_registered_def new_return_path_def close_path_def Let_def
      split: option.split list.split)

section \<open>The totals\<close>

definition drops_ok :: "fwd_counters \<Rightarrow> bool" where
  "drops_ok c \<longleftrightarrow>
     client_drops_total c = client_drops_queue_full c + client_drops_rate_limited c + client_drops_no_backend c \<and>
     drops_total c = drops_queue_full c + drops_no_route c + drops_too_large c"

lemma drops_ok_count [simp]:
  "drops_ok (fw_counters (drop_no_route f)) = drops_ok (fw_counters f)"
  "drops_ok (fw_counters (drop_too_large f)) = drops_ok (fw_counters f)"
  "drops_ok (fw_counters (drop_queue_full f)) = drops_ok (fw_counters f)"
  "drops_ok (fw_counters (drop_client_no_backend f)) = drops_ok (fw_counters f)"
  "drops_ok (fw_counters (drop_client_rate_limited f)) = drops_ok (fw_counters f)"
  "drops_ok (fw_counters (drop_client_queue_full f)) = drops_ok (fw_counters f)"
  "drops_ok (fw_counters (reset_drop_counters f))"
  by (simp_all add: drops_ok_def drop_no_route_def drop_too_large_def drop_queue_full_def drop_client_no_backend_def
      drop_client_rate_limited_def drop_client_queue_full_def reset_drop_counters_def count_up_def algebra_simps)

lemma drops_ok_quiet [simp]:
  "drops_ok (fw_counters (count_up (\<lambda>c. c\<lparr>spoofed_rebinds := g1 c\<rparr>) f)) = drops_ok (fw_counters f)"
  "drops_ok (fw_counters (count_up (\<lambda>c. c\<lparr>total_tx_bytes := g2 c, total_tx_packets := g3 c\<rparr>) f)) = drops_ok (fw_counters f)"
  "drops_ok (fw_counters (count_up (\<lambda>c. c\<lparr>total_rx_bytes := g4 c, total_rx_packets := g5 c\<rparr>) f)) = drops_ok (fw_counters f)"
  by (simp_all add: drops_ok_def count_up_def)

lemma packet_drops_ok [simp]:
  "drops_ok (fw_counters f) \<Longrightarrow> drops_ok (fw_counters (fst (client_admit peer pkt p f)))"
  "drops_ok (fw_counters f) \<Longrightarrow> drops_ok (fw_counters (fst (return_admit b pkt ip f)))"
  "drops_ok (fw_counters f) \<Longrightarrow> drops_ok (fw_counters (fst (return_enqueue F now pkt ip a f)))"
  by (auto simp: client_admit_def return_admit_def return_enqueue_def Let_def split: option.split)

lemma enqueue_drops_ok [simp]:
  assumes "drops_ok (fw_counters f)"
  shows "drops_ok (fw_counters (fst (client_enqueue F now pkt a f)))"
proof -
  obtain f1 ok where b: "bucket_allow F now (int (length pkt)) (ca_bucket a) f = (f1, ok)" by fastforce
  then have "fw_counters f1 = fw_counters f" by (metis bucket_allow_fields(6) fst_conv)
  then show ?thesis using assms by (auto simp: client_enqueue_def b Let_def split: bool.split)
qed



section \<open>Every packet moves one counter\<close>

lemma bucket_counters:
  assumes "bucket_allow F now n tb f = (f1, ok)"
  shows "fw_counters f1 = fw_counters f"
  using bucket_allow_fields(6) [of F now n tb f] assms by simp

lemma return_enqueue_counts:
  assumes "fw_inv f" "return_enqueue F now pkt ip a f = (f', res, cs)" "fmlookup (routes_by_ip f) ip = Some (ra_route a)"
  shows "total_tx_packets (fw_counters f') + drops_total (fw_counters f') =
      total_tx_packets (fw_counters f) + drops_total (fw_counters f) + 1 \<and> res \<noteq> Inl ErrRateLimitExceeded"
proof -
  obtain rt where "fmlookup (fw_routes f) (ra_route a) = Some rt"
    using fw_invD(3) [OF assms(1)] assms(3) by (auto simp: ips_ok_def)
  then show ?thesis
    using assms by (auto simp: return_enqueue_def Let_def count_up_def drop_queue_full_def split: if_splits)
qed



end
