(* ===== verification/Ingress_Resolver.thy ===== *)
theory Ingress_Resolver
  imports Net_Addr
begin

text \<open>
  The ownership side of the ingress router (\<^verbatim>\<open>internal/vpn/ingress\<close>): the strict packet parser
  (\<^verbatim>\<open>packet.go\<close>), the resolver from assigned addresses to peers (\<^verbatim>\<open>resolver.go\<close>) and the throttled liveness
  refresh (\<^verbatim>\<open>liveness.go\<close>). Lookups and updates each run under the resolver's lock, so every operation is
  one definition. The durable rows and the outcome of their query are arguments.
\<close>

section \<open>Packets\<close>

datatype drop_reason = ReasonMalformed | ReasonUnmappedSource | ReasonOwnershipMismatch

definition ipv4_header_len :: nat where "ipv4_header_len = 20"

definition parse_ipv4_source :: "byte list \<Rightarrow> ipv4 option" where
  "parse_ipv4_source pkt =
     (if length pkt < ipv4_header_len then None
      else if drop_bit 4 (pkt ! 0) \<noteq> 4 then None
      else
        let ihl = unat (pkt ! 0 AND 15) in
        if ihl < 5 then None
        else
          let headerLen = ihl * 4 in
          if length pkt < headerLen then None
          else
            let totalLen = unat (pkt ! 2) * 256 + unat (pkt ! 3) in
            if totalLen < headerLen \<or> length pkt < totalLen then None
            else Some (ipv4_of_bytes [pkt ! 12, pkt ! 13, pkt ! 14, pkt ! 15]))"

section \<open>The resolver\<close>

record peer_ownership =
  po_peer :: string
  po_connection :: string
  po_user :: string
  po_ip :: addr

record resolver =
  by_ip :: "(addr, peer_ownership) fmap"
  by_peer :: "(string, addr) fmap"

definition new_resolver :: resolver where
  "new_resolver = \<lparr>by_ip = fmempty, by_peer = fmempty\<rparr>"

datatype resolver_error =
    NilDatabase
  | LoadFailed
  | AddressConflict addr string string
  | PeerConflict string addr addr
  | BadAssignment addr
  | NoPeerKey addr
  | InvalidDesired

definition redact_key :: "string \<Rightarrow> string" where
  "redact_key key =
     (if length key \<le> 8 then replicate (length key) CHR ''*''
      else take 8 key @ [CHR 0xE2, CHR 0x80, CHR 0xA6])"

definition insert_owner :: "peer_ownership \<Rightarrow> resolver \<Rightarrow> resolver_error + resolver" where
  "insert_owner o' r =
     (case fmlookup (by_ip r) (po_ip o') of
        Some old \<Rightarrow> Inl (AddressConflict (po_ip o') (redact_key (po_peer old)) (redact_key (po_peer o')))
      | None \<Rightarrow>
          (case fmlookup (by_peer r) (po_peer o') of
             Some old \<Rightarrow> Inl (PeerConflict (redact_key (po_peer o')) old (po_ip o'))
           | None \<Rightarrow> Inr \<lparr>by_ip = fmupd (po_ip o') o' (by_ip r), by_peer = fmupd (po_peer o') (po_ip o') (by_peer r)\<rparr>))"

definition lookup_owner :: "addr \<Rightarrow> resolver \<Rightarrow> peer_ownership option" where
  "lookup_owner ip r = (if \<not> is_valid ip \<or> \<not> is4 ip then None else fmlookup (by_ip r) ip)"

definition lookup_by_peer :: "string \<Rightarrow> resolver \<Rightarrow> addr option" where
  "lookup_by_peer peer r = fmlookup (by_peer r) peer"

definition resolver_len :: "resolver \<Rightarrow> nat" where
  "resolver_len r = go_len (by_ip r)"

definition update_owner :: "peer_ownership \<Rightarrow> resolver \<Rightarrow> resolver_error + resolver" where
  "update_owner o' r =
     (if \<not> is_valid (po_ip o') \<or> \<not> is4 (po_ip o') \<or> unmap (po_ip o') \<noteq> po_ip o' \<or> po_ip o' = NoAddr
      then Inl (BadAssignment (po_ip o'))
      else if po_peer o' = [] then Inl (NoPeerKey (po_ip o'))
      else
        let install = (\<lambda>m. \<lparr>by_ip = fmupd (po_ip o') o' m, by_peer = fmupd (po_peer o') (po_ip o') (by_peer r)\<rparr>);
            swap = (case fmlookup (by_peer r) (po_peer o') of
                      None \<Rightarrow> by_ip r
                    | Some oldIP \<Rightarrow>
                        if oldIP \<noteq> po_ip o' \<and>
                           (case fmlookup (by_ip r) oldIP of None \<Rightarrow> False | Some cur \<Rightarrow> po_peer cur = po_peer o')
                        then fmdrop oldIP (by_ip r) else by_ip r)
        in case fmlookup (by_ip r) (po_ip o') of
             Some old \<Rightarrow>
               if po_peer old \<noteq> po_peer o'
               then Inl (AddressConflict (po_ip o') (redact_key (po_peer old)) (redact_key (po_peer o')))
               else Inr (install swap)
           | None \<Rightarrow> Inr (install swap))"

definition remove_owner :: "string \<Rightarrow> resolver \<Rightarrow> resolver \<times> addr option" where
  "remove_owner peer r =
     (case fmlookup (by_peer r) peer of
        None \<Rightarrow> (r, None)
      | Some ip \<Rightarrow>
          (\<lparr>by_ip = (case fmlookup (by_ip r) ip of
                      None \<Rightarrow> by_ip r
                    | Some o' \<Rightarrow> if po_peer o' = peer then fmdrop ip (by_ip r) else by_ip r),
            by_peer = fmdrop peer (by_peer r)\<rparr>, Some ip))"

text \<open>\<open>Addr.Less\<close> on the addresses a resolver holds: IPv4 addresses compare as numbers.\<close>

definition resolver_snapshot :: "resolver \<Rightarrow> peer_ownership list" where
  "resolver_snapshot r =
     concat (map (\<lambda>w. case fmlookup (by_ip r) (Addr4 w) of None \<Rightarrow> [] | Some o' \<Rightarrow> [o'])
                 (sorted_list_of_set (as4 ` fset (fmdom (by_ip r)))))"

definition filter_ips :: "addr list \<Rightarrow> resolver \<Rightarrow> peer_ownership list" where
  "filter_ips ips r = concat (map (\<lambda>ip. case fmlookup (by_ip r) ip of None \<Rightarrow> [] | Some o' \<Rightarrow> [o']) ips)"

section \<open>Loading from durable state\<close>

record ip_assignment =
  ia_connection :: string
  ia_user :: string
  ia_peer :: string
  ia_ip :: string
  ia_needs_migration :: bool

record load_stats =
  ls_loaded :: int
  ls_needs_migration :: int
  ls_without_ip :: int
  ls_unparseable :: int

text \<open>
  \<open>netip.ParseAddr\<close> yields an IPv4 address exactly on dotted decimal notation, so the three tests on its
  result are \<open>parse_ipv4\<close>.
\<close>

fun load_rows :: "ip_assignment list \<Rightarrow> string set \<Rightarrow> resolver \<Rightarrow> load_stats \<Rightarrow> resolver_error + resolver \<times> load_stats" where
  "load_rows [] seen r st = Inr (r, st)"
| "load_rows (a # as) seen r st =
     (if ia_needs_migration a then load_rows as seen r (st\<lparr>ls_needs_migration := ls_needs_migration st + 1\<rparr>)
      else if ia_ip a = [] then load_rows as seen r (st\<lparr>ls_without_ip := ls_without_ip st + 1\<rparr>)
      else
        let key = ia_connection a @ ''|'' @ ia_ip a in
        if key \<in> seen then load_rows as seen r st
        else case parse_ipv4 (ia_ip a) of
               None \<Rightarrow> load_rows as (insert key seen) r (st\<lparr>ls_unparseable := ls_unparseable st + 1\<rparr>)
             | Some w \<Rightarrow>
                 (case insert_owner \<lparr>po_peer = ia_peer a, po_connection = ia_connection a, po_user = ia_user a,
                                     po_ip = Addr4 w\<rparr> r of
                    Inl e \<Rightarrow> Inl e
                  | Inr r' \<Rightarrow> load_rows as (insert key seen) r' (st\<lparr>ls_loaded := ls_loaded st + 1\<rparr>)))"

definition load_resolver :: "(unit + ip_assignment list) option \<Rightarrow> resolver_error + resolver \<times> load_stats" where
  "load_resolver db =
     (case db of
        None \<Rightarrow> Inl NilDatabase
      | Some (Inl _) \<Rightarrow> Inl LoadFailed
      | Some (Inr rows) \<Rightarrow>
          load_rows rows {} new_resolver
            \<lparr>ls_loaded = 0, ls_needs_migration = 0, ls_without_ip = 0, ls_unparseable = 0\<rparr>)"

definition reload_resolver :: "(unit + ip_assignment list) option \<Rightarrow> resolver \<Rightarrow> resolver \<times> resolver_error option" where
  "reload_resolver db r = (case load_resolver db of Inl e \<Rightarrow> (r, Some e) | Inr (fresh, st) \<Rightarrow> (fresh, None))"

fun insert_owners :: "peer_ownership list \<Rightarrow> resolver \<Rightarrow> resolver_error + resolver" where
  "insert_owners [] r = Inr r"
| "insert_owners (o' # os) r =
     (if \<not> is_valid (po_ip o') \<or> \<not> is4 (po_ip o') \<or> po_peer o' = [] then Inl InvalidDesired
      else case insert_owner o' r of Inl e \<Rightarrow> Inl e | Inr r' \<Rightarrow> insert_owners os r')"

definition replace_owners :: "peer_ownership list \<Rightarrow> resolver \<Rightarrow> resolver \<times> resolver_error option" where
  "replace_owners owners r = (case insert_owners owners new_resolver of Inl e \<Rightarrow> (r, Some e) | Inr fresh \<Rightarrow> (fresh, None))"

section \<open>Liveness\<close>

definition touch_session_throttle_seconds :: int where "touch_session_throttle_seconds = 2"

text \<open>The calls that reached the session manager are logged, latest first.\<close>

record session_liveness =
  sl_last :: "(string, int) fmap"
  sl_touched :: "string list"

definition new_session_liveness :: session_liveness where
  "new_session_liveness = \<lparr>sl_last = fmempty, sl_touched = []\<rparr>"

definition touch_peer :: "string \<Rightarrow> session_liveness \<Rightarrow> session_liveness" where
  "touch_peer peer l = l\<lparr>sl_touched := peer # sl_touched l\<rparr>"

text \<open>\<open>nowNs\<close> is the clock in nanoseconds of the Unix epoch; the compare-and-swap winner touches.\<close>

definition touch_throttled :: "int \<Rightarrow> string \<Rightarrow> session_liveness \<Rightarrow> session_liveness" where
  "touch_throttled nowNs peer l =
     (let window = touch_session_throttle_seconds * second;
          l1 = (if fmlookup (sl_last l) peer = None then l\<lparr>sl_last := fmupd peer 0 (sl_last l)\<rparr> else l);
          prev = (case fmlookup (sl_last l1) peer of None \<Rightarrow> 0 | Some t \<Rightarrow> t)
      in if window \<le> nowNs - prev \<or> nowNs < prev
         then touch_peer peer (l1\<lparr>sl_last := fmupd peer nowNs (sl_last l1)\<rparr>) else l1)"

definition forget_peer_liveness :: "string \<Rightarrow> session_liveness \<Rightarrow> session_liveness" where
  "forget_peer_liveness peer l = l\<lparr>sl_last := fmdrop peer (sl_last l)\<rparr>"

section \<open>One address, one peer\<close>

definition res_inv :: "resolver \<Rightarrow> bool" where
  "res_inv r \<longleftrightarrow>
     (\<forall>ip o'. fmlookup (by_ip r) ip = Some o' \<longrightarrow> po_ip o' = ip \<and> is4 ip \<and> fmlookup (by_peer r) (po_peer o') = Some ip) \<and>
     (\<forall>peer ip. fmlookup (by_peer r) peer = Some ip \<longrightarrow> (\<exists>o'. fmlookup (by_ip r) ip = Some o' \<and> po_peer o' = peer))"

lemma res_inv_new: "res_inv new_resolver"
  by (simp add: res_inv_def new_resolver_def)

lemma res_inv_insert:
  assumes "res_inv r" "insert_owner o' r = Inr r'" "is4 (po_ip o')"
  shows "res_inv r'"
  using assms unfolding res_inv_def insert_owner_def by (auto split: option.splits if_splits) (metis option.distinct(1))+

lemma res_invD:
  assumes "res_inv r"
  shows "fmlookup (by_ip r) ip = Some o' \<Longrightarrow> po_ip o' = ip" "fmlookup (by_ip r) ip = Some o' \<Longrightarrow> is4 ip"
    "fmlookup (by_ip r) ip = Some o' \<Longrightarrow> fmlookup (by_peer r) (po_peer o') = Some ip"
    "fmlookup (by_peer r) peer = Some ip \<Longrightarrow> \<exists>o'. fmlookup (by_ip r) ip = Some o' \<and> po_peer o' = peer"
  using assms by (auto simp: res_inv_def)

text \<open>An accepted update writes one row and removes the row of the address the peer had.\<close>

lemma update_owner_lookup:
  assumes "res_inv r" "update_owner o' r = Inr r'"
  shows "is4 (po_ip o')"
    and "fmlookup (by_peer r') peer = (if peer = po_peer o' then Some (po_ip o') else fmlookup (by_peer r) peer)"
    and "fmlookup (by_ip r') ip = (if ip = po_ip o' then Some o'
      else if fmlookup (by_peer r) (po_peer o') = Some ip then None else fmlookup (by_ip r) ip)"
    and "\<And>old. fmlookup (by_ip r) (po_ip o') = Some old \<Longrightarrow> po_peer old = po_peer o'"
proof -
  show "is4 (po_ip o')" using assms(2) by (auto simp: update_owner_def split: if_splits)
  show "fmlookup (by_peer r') peer = (if peer = po_peer o' then Some (po_ip o') else fmlookup (by_peer r) peer)"
    using assms(2) by (auto simp: update_owner_def Let_def split: if_splits option.splits)
  show "po_peer old = po_peer o'" if "fmlookup (by_ip r) (po_ip o') = Some old" for old
    using assms(2) that by (auto simp: update_owner_def Let_def split: if_splits)
  show "fmlookup (by_ip r') ip = (if ip = po_ip o' then Some o'
      else if fmlookup (by_peer r) (po_peer o') = Some ip then None else fmlookup (by_ip r) ip)"
    using assms(2) res_invD(4) [OF assms(1), of "po_peer o'"]
    by (fastforce simp: update_owner_def Let_def split: if_splits option.splits)
qed

lemma res_inv_update:
  assumes "res_inv r" "update_owner o' r = Inr r'"
  shows "res_inv r'"
proof -
  note u = update_owner_lookup [OF assms]
  note d = res_invD [OF assms(1)]
  show ?thesis unfolding res_inv_def
  proof (intro conjI allI impI)
    fix ip x assume x: "fmlookup (by_ip r') ip = Some x"
    show "po_ip x = ip" "is4 ip" "fmlookup (by_peer r') (po_peer x) = Some ip"
      using x d(1-3) [of ip x] u(1) by (auto simp: u(2,3) split: if_splits)
  next
    fix peer ip assume p: "fmlookup (by_peer r') peer = Some ip"
    show "\<exists>x. fmlookup (by_ip r') ip = Some x \<and> po_peer x = peer"
    proof (cases "peer = po_peer o'")
      case True
      then show ?thesis using p by (simp add: u(2,3))
    next
      case False
      then have p': "fmlookup (by_peer r) peer = Some ip" using p by (simp add: u(2))
      then obtain x where x: "fmlookup (by_ip r) ip = Some x" "po_peer x = peer" using d(4) by blast
      then have "ip \<noteq> po_ip o'" using u(4) False by auto
      moreover have "fmlookup (by_peer r) (po_peer o') \<noteq> Some ip" using d(4) [of "po_peer o'" ip] x False by auto
      ultimately show ?thesis using x by (simp add: u(3))
    qed
  qed
qed

lemma remove_owner_lookup:
  assumes "res_inv r"
  shows "fmlookup (by_peer (fst (remove_owner peer r))) q = (if q = peer then None else fmlookup (by_peer r) q)"
    and "fmlookup (by_ip (fst (remove_owner peer r))) ip =
      (if fmlookup (by_peer r) peer = Some ip then None else fmlookup (by_ip r) ip)"
  using res_invD(4) [OF assms, of peer] by (fastforce simp: remove_owner_def split: option.split)+

lemma res_inv_remove:
  assumes "res_inv r"
  shows "res_inv (fst (remove_owner peer r))"
proof -
  note l = remove_owner_lookup [OF assms, of peer]
  note d = res_invD [OF assms]
  show ?thesis unfolding res_inv_def
  proof (intro conjI allI impI)
    fix ip x assume x: "fmlookup (by_ip (fst (remove_owner peer r))) ip = Some x"
    then have a: "fmlookup (by_ip r) ip = Some x" "fmlookup (by_peer r) peer \<noteq> Some ip" by (auto simp: l split: if_splits)
    show "po_ip x = ip" "is4 ip" "fmlookup (by_peer (fst (remove_owner peer r))) (po_peer x) = Some ip"
      using d(1-3) [OF a(1)] a(2) by (auto simp: l)
  next
    fix q ip assume "fmlookup (by_peer (fst (remove_owner peer r))) q = Some ip"
    then have q: "fmlookup (by_peer r) q = Some ip" "q \<noteq> peer" by (auto simp: l split: if_splits)
    then obtain x where x: "fmlookup (by_ip r) ip = Some x" "po_peer x = q" using d(4) by blast
    then have "fmlookup (by_peer r) peer \<noteq> Some ip" using d(4) [of peer ip] q(2) by auto
    then show "\<exists>x. fmlookup (by_ip (fst (remove_owner peer r))) ip = Some x \<and> po_peer x = q" using x by (simp add: l)
  qed
qed

lemma res_inv_insert4: "insert_owner \<lparr>po_peer = p, po_connection = c, po_user = u, po_ip = Addr4 w\<rparr> r = Inr r' \<Longrightarrow> res_inv r \<Longrightarrow> res_inv r'"
  using res_inv_insert [of r "\<lparr>po_peer = p, po_connection = c, po_user = u, po_ip = Addr4 w\<rparr>" r'] by simp

lemma res_inv_rows: "load_rows rows seen r st = Inr (r', st') \<Longrightarrow> res_inv r \<Longrightarrow> res_inv r'"
proof (induction rows arbitrary: seen r st)
  case (Cons a as)
  from Cons.prems show ?case
    by (auto simp: Let_def split: if_splits option.splits sum.splits dest: Cons.IH res_inv_insert4)
qed simp

lemma res_inv_owners: "insert_owners os r = Inr r' \<Longrightarrow> res_inv r \<Longrightarrow> res_inv r'"
proof (induction os r rule: insert_owners.induct)
  case (2 o' os r)
  then show ?case by (auto split: if_splits sum.splits intro: res_inv_insert)
qed simp

text \<open>The ways a resolver comes about and changes.\<close>

inductive resolver_reachable :: "resolver \<Rightarrow> bool" where
  empty: "resolver_reachable new_resolver"
| loaded: "load_resolver db = Inr (r, st) \<Longrightarrow> resolver_reachable r"
| updated: "resolver_reachable r \<Longrightarrow> update_owner o' r = Inr r' \<Longrightarrow> resolver_reachable r'"
| removed: "resolver_reachable r \<Longrightarrow> resolver_reachable (fst (remove_owner peer r))"
| reloaded: "resolver_reachable r \<Longrightarrow> resolver_reachable (fst (reload_resolver db r))"
| replaced: "resolver_reachable r \<Longrightarrow> resolver_reachable (fst (replace_owners owners r))"

lemma resolver_reachable_inv: "resolver_reachable r \<Longrightarrow> res_inv r"
proof (induction rule: resolver_reachable.induct)
  case (loaded db r st)
  then show ?case by (auto simp: load_resolver_def split: option.splits sum.splits intro: res_inv_rows res_inv_new)
next
  case (reloaded r db)
  then show ?case
    by (auto simp: reload_resolver_def load_resolver_def split: option.split sum.split intro: res_inv_rows res_inv_new)
next
  case (replaced r owners)
  then show ?case by (auto simp: replace_owners_def split: sum.split intro: res_inv_owners res_inv_new)
qed (auto intro: res_inv_new res_inv_update res_inv_remove)

text \<open>
  An address has one owner and an owner one address. In every resolver that loading, updates, removals,
  reloads and replacements can produce, the owner found for an address is recorded under exactly that
  address, is the peer the address is recorded for, and no other address leads to the same peer; the two
  indexes have the same size.
\<close>

theorem ownership_bijective:
  assumes "resolver_reachable r" "lookup_owner ip r = Some o'"
  shows "po_ip o' = ip \<and> lookup_by_peer (po_peer o') r = Some ip \<and>
    (\<forall>ip2 o2. lookup_owner ip2 r = Some o2 \<and> po_peer o2 = po_peer o' \<longrightarrow> ip2 = ip \<and> o2 = o')"
proof -
  note d = res_invD [OF resolver_reachable_inv [OF assms(1)]]
  have l: "fmlookup (by_ip r) ip = Some o'" using assms(2) by (auto simp: lookup_owner_def split: if_splits)
  show ?thesis
  proof (intro conjI allI impI)
    show "po_ip o' = ip" "lookup_by_peer (po_peer o') r = Some ip" using d(1,3) [OF l] by (simp_all add: lookup_by_peer_def)
    fix ip2 o2 assume a: "lookup_owner ip2 r = Some o2 \<and> po_peer o2 = po_peer o'"
    then have l2: "fmlookup (by_ip r) ip2 = Some o2" by (auto simp: lookup_owner_def split: if_splits)
    show "ip2 = ip" using d(3) [OF l] d(3) [OF l2] a by simp
    then show "o2 = o'" using l l2 by simp
  qed
qed

definition demo_owner :: peer_ownership where
  "demo_owner = \<lparr>po_peer = ''peer'', po_connection = ''c1'', po_user = ''u1'', po_ip = Addr4 0x0A000002\<rparr>"

definition demo_resolver :: resolver where
  "demo_resolver = fst (replace_owners [demo_owner] new_resolver)"

lemma demo_resolver_reachable: "resolver_reachable demo_resolver"
  unfolding demo_resolver_def by (intro resolver_reachable.replaced resolver_reachable.empty)

lemma demo_resolver_lookup: "lookup_owner (Addr4 0x0A000002) demo_resolver = Some demo_owner"
  by (simp add: demo_resolver_def replace_owners_def insert_owner_def demo_owner_def new_resolver_def lookup_owner_def is_valid_def)

lemma ownership_bijective_witness: "lookup_by_peer ''peer'' demo_resolver = Some (Addr4 0x0A000002)"
  using ownership_bijective [OF demo_resolver_reachable demo_resolver_lookup] by (simp add: demo_owner_def)

section \<open>Only durable leases authorise\<close>

definition row_owner :: "ip_assignment \<Rightarrow> ipv4 \<Rightarrow> peer_ownership" where
  "row_owner a w = \<lparr>po_peer = ia_peer a, po_connection = ia_connection a, po_user = ia_user a, po_ip = Addr4 w\<rparr>"

lemma load_rows_sound:
  assumes "load_rows rows seen r st = Inr (r', st')" "fmlookup (by_ip r') ip = Some o'"
  shows "fmlookup (by_ip r) ip = Some o' \<or>
    (\<exists>a \<in> set rows. \<not> ia_needs_migration a \<and> (\<exists>w. parse_ipv4 (ia_ip a) = Some w \<and> ip = Addr4 w \<and> o' = row_owner a w))"
  using assms
proof (induction rows arbitrary: seen r st)
  case (Cons a as)
  show ?case
  proof (cases "ia_needs_migration a \<or> ia_ip a = [] \<or> ia_connection a @ ''|'' @ ia_ip a \<in> seen \<or> parse_ipv4 (ia_ip a) = None")
    case True
    then show ?thesis using Cons.prems Cons.IH by (auto simp: Let_def split: if_splits option.splits)
  next
    case False
    then obtain w where w: "parse_ipv4 (ia_ip a) = Some w" by auto
    obtain r1 seen1 st1 where r1: "insert_owner (row_owner a w) r = Inr r1" "load_rows as seen1 r1 st1 = Inr (r', st')"
      using Cons.prems(1) False w by (auto simp: Let_def row_owner_def split: sum.splits)
    have "by_ip r1 = fmupd (Addr4 w) (row_owner a w) (by_ip r)"
      using r1(1) by (auto simp: insert_owner_def row_owner_def split: option.splits)
    then show ?thesis using Cons.IH [OF r1(2) Cons.prems(2)] w False by (auto split: if_splits)
  qed
qed simp

lemma load_rows_count:
  "load_rows rows seen r st = Inr (r', st') \<Longrightarrow> ls_loaded st = int (go_len (by_ip r)) \<Longrightarrow> ls_loaded st' = int (go_len (by_ip r'))"
proof (induction rows arbitrary: seen r st)
  case (Cons a as)
  have grow: "int (go_len (by_ip r1)) = int (go_len (by_ip r)) + 1" if "insert_owner x r = Inr r1" for x r1
    using that by (auto simp: insert_owner_def split: option.splits)
  from Cons.prems show ?case
    by (auto simp: Let_def grow split: if_splits option.splits sum.splits intro: Cons.IH)
qed simp

text \<open>
  Only durable leases authorise a source address. After a successful load every owner in the resolver
  comes from a row that is not a session-only legacy lease, under the address that row's text denotes and with
  that row's peer, connection and user, and the reported number of loaded rows is the number of owners.
\<close>

theorem load_durable_only:
  assumes "load_resolver (Some (Inr rows)) = Inr (r, st)"
  shows "ls_loaded st = int (resolver_len r) \<and>
    (\<forall>ip o'. lookup_owner ip r = Some o' \<longrightarrow>
       (\<exists>a \<in> set rows. \<not> ia_needs_migration a \<and>
          (\<exists>w. parse_ipv4 (ia_ip a) = Some w \<and> ip = Addr4 w \<and> o' = row_owner a w)))"
proof (intro conjI allI impI)
  let ?st = "\<lparr>ls_loaded = 0, ls_needs_migration = 0, ls_without_ip = 0, ls_unparseable = 0\<rparr>"
  have run: "load_rows rows {} new_resolver ?st = Inr (r, st)" using assms by (simp add: load_resolver_def)
  show "ls_loaded st = int (resolver_len r)"
    unfolding resolver_len_def by (rule load_rows_count [OF run]) (simp add: new_resolver_def)
  fix ip o' assume "lookup_owner ip r = Some o'"
  then have "fmlookup (by_ip r) ip = Some o'" by (auto simp: lookup_owner_def split: if_splits)
  from load_rows_sound [OF run this] show "\<exists>a \<in> set rows. \<not> ia_needs_migration a \<and>
    (\<exists>w. parse_ipv4 (ia_ip a) = Some w \<and> ip = Addr4 w \<and> o' = row_owner a w)" by (simp add: new_resolver_def)
qed

definition demo_rows :: "ip_assignment list" where
  "demo_rows =
     [\<lparr>ia_connection = ''c1'', ia_user = ''u1'', ia_peer = ''peer'', ia_ip = ''10.0.0.2'', ia_needs_migration = False\<rparr>,
      \<lparr>ia_connection = ''c2'', ia_user = ''u2'', ia_peer = ''old'', ia_ip = ''10.0.0.3'', ia_needs_migration = True\<rparr>]"

lemma parse_ipv4_ip_string: "parse_ipv4 (ip_string a) = Some a"
  by simp

lemma demo_rows_load: "\<exists>r st. load_resolver (Some (Inr demo_rows)) = Inr (r, st) \<and> ls_loaded st = 1"
  by (simp add: load_resolver_def demo_rows_def Let_def parse_eval insert_owner_def new_resolver_def undec_def digit_val_def
      is_digit_def)

lemma load_durable_only_witness:
  "\<exists>r st. load_resolver (Some (Inr demo_rows)) = Inr (r, st) \<and> resolver_len r = 1 \<and> ls_loaded st = 1"
proof -
  obtain r st where "load_resolver (Some (Inr demo_rows)) = Inr (r, st)" "ls_loaded st = 1" using demo_rows_load by blast
  then show ?thesis using load_durable_only [of demo_rows r st] by auto
qed

section \<open>The throttle\<close>

definition touch_run :: "(int \<times> string) list \<Rightarrow> session_liveness \<Rightarrow> session_liveness" where
  "touch_run evs l = fold (\<lambda>(t, p). touch_throttled t p) evs l"

definition last_touch :: "session_liveness \<Rightarrow> string \<Rightarrow> int" where
  "last_touch l p = (case fmlookup (sl_last l) p of None \<Rightarrow> 0 | Some t \<Rightarrow> t)"

lemma touch_step:
  assumes "last_touch l p \<le> t"
  shows "last_touch (touch_throttled t q l) p = (if q = p \<and> 2000000000 \<le> t - last_touch l p then t else last_touch l p)"
    and "count_list (sl_touched (touch_throttled t q l)) p =
      count_list (sl_touched l) p + (if q = p \<and> 2000000000 \<le> t - last_touch l p then 1 else 0)"
  using assms by (auto simp: touch_throttled_def last_touch_def touch_peer_def Let_def second_def
      touch_session_throttle_seconds_def split: option.splits)

lemma touch_run_bound:
  assumes "sorted (map fst evs)" "\<forall>e \<in> set evs. last_touch l p \<le> fst e \<and> t0 \<le> fst e \<and> fst e \<le> t1"
    "last_touch l p \<le> t1" "t0 \<le> t1"
  shows "int (count_list (sl_touched (touch_run evs l)) p) * 2000000000 \<le>
    int (count_list (sl_touched l) p) * 2000000000 + (t1 - max (last_touch l p) (t0 - 2000000000))"
  using assms
proof (induction evs arbitrary: l)
  case Nil
  then show ?case by (simp add: touch_run_def)
next
  case (Cons e evs)
  obtain t q where e: "e = (t, q)" by fastforce
  let ?l = "touch_throttled t q l"
  have t: "last_touch l p \<le> t" "t0 \<le> t" "t \<le> t1" using Cons.prems by (auto simp: e)
  note st = touch_step [OF t(1), of q]
  have "\<forall>e \<in> set evs. last_touch ?l p \<le> fst e \<and> t0 \<le> fst e \<and> fst e \<le> t1" using Cons.prems t by (auto simp: e st(1))
  moreover have "last_touch ?l p \<le> t1" using t by (simp add: st(1))
  ultimately have "int (count_list (sl_touched (touch_run evs ?l)) p) * 2000000000 \<le>
    int (count_list (sl_touched ?l) p) * 2000000000 + (t1 - max (last_touch ?l p) (t0 - 2000000000))"
    using Cons.prems by (intro Cons.IH) auto
  then show ?case using t by (auto simp: touch_run_def e st max_def split: if_splits)
qed

text \<open>
  Liveness refreshes are throttled. However many packets any peers send, interleaved in any way on a
  clock that does not go back, the session manager is called for one peer at most once per two-second window:
  for packets between the instants \<open>t0\<close> and \<open>t1\<close> the number of calls is at most the number of whole windows between its
  last refresh (or the start of a window before \<open>t0\<close>, for a peer not seen recently) and \<open>t1\<close>.
\<close>

theorem touches_throttled:
  assumes "sorted (map fst evs)" "\<forall>e \<in> set evs. last_touch l p \<le> fst e \<and> t0 \<le> fst e \<and> fst e \<le> t1"
    "last_touch l p \<le> t1" "t0 \<le> t1"
  shows "int (count_list (sl_touched (touch_run evs l)) p) - int (count_list (sl_touched l) p) \<le>
    (t1 - max (last_touch l p) (t0 - touch_session_throttle_seconds * second)) div (touch_session_throttle_seconds * second)"
proof -
  let ?k = "int (count_list (sl_touched (touch_run evs l)) p) - int (count_list (sl_touched l) p)"
  have "?k * 2000000000 \<le> t1 - max (last_touch l p) (t0 - 2000000000)"
    using touch_run_bound [OF assms] by (simp add: algebra_simps)
  from zdiv_mono1 [OF this, of 2000000000] show ?thesis by (simp add: touch_session_throttle_seconds_def second_def)
qed

lemma touches_throttled_witness:
  "count_list (sl_touched (touch_run [(3000000000, ''a''), (3500000000, ''a''), (4000000000, ''b'')] new_session_liveness)) ''a'' \<le> 1"
  using touches_throttled [of "[(3000000000, ''a''), (3500000000, ''a''), (4000000000, ''b'')]" new_session_liveness "''a''" 3000000000 4000000000]
  by (simp add: last_touch_def new_session_liveness_def touch_session_throttle_seconds_def second_def)

end
