(* ===== verification/Ingress_Router.thy ===== *)
theory Ingress_Router
  imports Ingress_Resolver Forwarder_Drops
begin

text \<open>
  The ingress router (\<^verbatim>\<open>internal/vpn/ingress/router.go\<close>, \<^verbatim>\<open>return_path.go\<close>): from a plaintext packet of the client engine
  to a submission to the packet forwarder, with lazy admission of its owner.

  The router reaches the forwarder through an interface of three operations. \<open>registrar\<close> is that interface
  as a record, with the two implementations of the code; the locale \<open>route_registrar\<close> states what the router relies on,
  and both implementations are shown to keep it. The admission callback is an argument. The router gives up its
  lock between looking at the memo, admitting and submitting; \<open>env\<close> is what happens in between.
\<close>

section \<open>The forwarder interface\<close>

record 's registrar =
  reg_try :: "string \<Rightarrow> string \<Rightarrow> string \<Rightarrow> string \<Rightarrow> int \<Rightarrow> 's \<Rightarrow> 's \<times> (fwd_error + route_ref option)"
  reg_route :: "string \<Rightarrow> packet \<Rightarrow> 's \<Rightarrow> 's \<times> (fwd_error + unit)"
  reg_has :: "string \<Rightarrow> string \<Rightarrow> string \<Rightarrow> string \<Rightarrow> int \<Rightarrow> 's \<Rightarrow> bool"

text \<open>
  The forwarder itself: \<open>reg_try\<close> takes session, connection, peer, address and backend and registers without
  rate limits; \<open>reg_has\<close> takes peer, session, connection, address and backend.
\<close>

definition forwarder_routes :: "'f f64 \<Rightarrow> time \<Rightarrow> 'f forwarder registrar" where
  "forwarder_routes F now =
     \<lparr>reg_try = (\<lambda>sid cid peer ip b. try_register_session_with_limit F now
        \<lparr>a_session = sid, a_connection = cid, a_peer = peer, a_ip = ip, a_backend = b, a_limit_down = 0,
         a_limit_up = 0, a_path = None\<rparr>),
      reg_route = route_client_to_backend F now id,
      reg_has = (\<lambda>peer sid cid ip b f. has_session_route f peer sid cid ip b)\<rparr>"

text \<open>The routes of one engine: registration is never repaired here, only verified.\<close>

definition owned_routes :: "'f f64 \<Rightarrow> time \<Rightarrow> path_ref \<Rightarrow> 'f forwarder registrar" where
  "owned_routes F now p =
     \<lparr>reg_try = (\<lambda>sid cid peer ip b f.
        if \<not> has_session_route_with_return_path f peer sid cid ip b (Some p) then (f, Inl ErrReturnRouteMismatch)
        else (f, Inr None)),
      reg_route = (\<lambda>peer pkt. route_client_to_backend_with_return_path F now id peer pkt (Some p)),
      reg_has = (\<lambda>peer sid cid ip b f. has_session_route_with_return_path f peer sid cid ip b (Some p))\<rparr>"

section \<open>The router\<close>

record admitted_route =
  ar_session :: string
  ar_connection :: string
  ar_user :: string
  ar_ip :: string
  ar_backend :: int

record router_stats =
  admitted_sessions :: "64 word"
  malformed_drops :: "64 word"
  unmapped_drops :: "64 word"
  mismatch_drops :: "64 word"
  rejected_drops :: "64 word"
  no_backend_drops :: "64 word"
  route_reg_errors :: "64 word"

datatype liveness = NoLiveness | Throttled session_liveness | Unthrottled session_liveness

record 's router =
  ir_resolver :: resolver
  ir_fwd :: 's
  ir_liveness :: liveness
  ir_stats :: router_stats
  ir_sessions :: "(string, admitted_route) fmap"

datatype admission_error = NoActiveBackends | AdmissionFailed

type_synonym session_handle = "string \<times> string"
type_synonym 's admission_callback = "peer_ownership \<Rightarrow> 's \<Rightarrow> 's \<times> (admission_error + session_handle option \<times> int option)"

datatype ingress_error =
    DropMalformed
  | DropUnmapped
  | DropMismatch
  | AdmissionRejected admission_error
  | AdmissionContract
  | RegistrationFailed fwd_error
  | ForwardFailed fwd_error

definition new_router :: "resolver \<Rightarrow> 's \<Rightarrow> liveness \<Rightarrow> 's router" where
  "new_router res fwd live =
     \<lparr>ir_resolver = res, ir_fwd = fwd, ir_liveness = live,
      ir_stats = \<lparr>admitted_sessions = 0, malformed_drops = 0, unmapped_drops = 0, mismatch_drops = 0,
                  rejected_drops = 0, no_backend_drops = 0, route_reg_errors = 0\<rparr>,
      ir_sessions = fmempty\<rparr>"

definition bump :: "(router_stats \<Rightarrow> router_stats) \<Rightarrow> 's router \<Rightarrow> 's router" where
  "bump h g = g\<lparr>ir_stats := h (ir_stats g)\<rparr>"

text \<open>\<open>o.IP.String()\<close>; a resolver holds IPv4 addresses only.\<close>

definition owner_address :: "peer_ownership \<Rightarrow> string" where
  "owner_address o' = ip_string (as4 (po_ip o'))"

definition route_live :: "'s registrar \<Rightarrow> peer_ownership \<Rightarrow> 's router \<Rightarrow> bool" where
  "route_live R o' g =
     (case fmlookup (ir_sessions g) (po_peer o') of
        None \<Rightarrow> False
      | Some rt \<Rightarrow>
          if ar_ip rt \<noteq> owner_address o' \<or> ar_connection rt \<noteq> po_connection o' \<or> ar_user rt \<noteq> po_user o' then False
          else reg_has R (po_peer o') (ar_session rt) (ar_connection rt) (ar_ip rt) (ar_backend rt) (ir_fwd g))"

definition register_locked :: "'s registrar \<Rightarrow> peer_ownership \<Rightarrow> admitted_route \<Rightarrow> 's router \<Rightarrow> 's router \<times> (ingress_error + unit)" where
  "register_locked R o' rt g =
     (if reg_has R (po_peer o') (ar_session rt) (ar_connection rt) (ar_ip rt) (ar_backend rt) (ir_fwd g) then (g, Inr ())
      else case reg_try R (ar_session rt) (ar_connection rt) (po_peer o') (ar_ip rt) (ar_backend rt) (ir_fwd g) of
             (s, Inl e) \<Rightarrow> (bump (\<lambda>c. c\<lparr>route_reg_errors := route_reg_errors c + 1\<rparr>) (g\<lparr>ir_fwd := s\<rparr>), Inl (RegistrationFailed e))
           | (s, Inr _) \<Rightarrow> (g\<lparr>ir_fwd := s\<rparr>, Inr ()))"

definition touch_liveness :: "int \<Rightarrow> string \<Rightarrow> 's router \<Rightarrow> 's router" where
  "touch_liveness nowNs peer g =
     (case ir_liveness g of
        NoLiveness \<Rightarrow> g
      | Throttled l \<Rightarrow> g\<lparr>ir_liveness := Throttled (touch_throttled nowNs peer l)\<rparr>
      | Unthrottled l \<Rightarrow> g\<lparr>ir_liveness := Unthrottled (touch_peer peer l)\<rparr>)"

definition submit_packet :: "'s registrar \<Rightarrow> int \<Rightarrow> peer_ownership \<Rightarrow> packet \<Rightarrow> 's router \<Rightarrow> 's router \<times> (ingress_error + unit)" where
  "submit_packet R nowNs o' pkt g =
     (case reg_route R (po_peer o') pkt (ir_fwd g) of
        (s, Inl e) \<Rightarrow> (g\<lparr>ir_fwd := s\<rparr>, Inl (ForwardFailed e))
      | (s, Inr _) \<Rightarrow> (touch_liveness nowNs (po_peer o') (g\<lparr>ir_fwd := s\<rparr>), Inr ()))"

text \<open>The section under the state lock, from the second look at the memo to the new memo entry.\<close>

definition admit_owner :: "'s registrar \<Rightarrow> 's admission_callback \<Rightarrow> peer_ownership \<Rightarrow> 's router \<Rightarrow> 's router \<times> (ingress_error + unit)" where
  "admit_owner R adm o' g =
     (if route_live R o' g then (g, Inr ())
      else case adm o' (ir_fwd g) of
        (s, Inl NoActiveBackends) \<Rightarrow>
          (bump (\<lambda>c. c\<lparr>no_backend_drops := no_backend_drops c + 1\<rparr>) (g\<lparr>ir_fwd := s\<rparr>), Inl (AdmissionRejected NoActiveBackends))
      | (s, Inl e) \<Rightarrow> (bump (\<lambda>c. c\<lparr>rejected_drops := rejected_drops c + 1\<rparr>) (g\<lparr>ir_fwd := s\<rparr>), Inl (AdmissionRejected e))
      | (s, Inr (Some (sid, assigned), Some b)) \<Rightarrow>
          let g1 = g\<lparr>ir_fwd := s\<rparr> in
          if assigned \<noteq> owner_address o'
          then (bump (\<lambda>c. c\<lparr>mismatch_drops := mismatch_drops c + 1\<rparr>) g1, Inl DropMismatch)
          else
            let rt = \<lparr>ar_session = sid, ar_connection = po_connection o', ar_user = po_user o', ar_ip = assigned, ar_backend = b\<rparr>
            in case register_locked R o' rt g1 of
                 (g2, Inl e) \<Rightarrow> (g2, Inl e)
               | (g2, Inr _) \<Rightarrow>
                   (bump (\<lambda>c. c\<lparr>admitted_sessions := admitted_sessions c + 1\<rparr>)
                      (g2\<lparr>ir_sessions := fmupd (po_peer o') rt (ir_sessions g2)\<rparr>), Inr ())
      | (s, Inr _) \<Rightarrow> (bump (\<lambda>c. c\<lparr>rejected_drops := rejected_drops c + 1\<rparr>) (g\<lparr>ir_fwd := s\<rparr>), Inl AdmissionContract))"

definition handle_packet ::
    "'s registrar \<Rightarrow> 's admission_callback \<Rightarrow> int \<Rightarrow> ('s router \<Rightarrow> 's router) \<Rightarrow> packet \<Rightarrow> 's router \<Rightarrow> 's router \<times> (ingress_error + unit)" where
  "handle_packet R adm nowNs env pkt g =
     (case parse_ipv4_source pkt of
        None \<Rightarrow> (bump (\<lambda>c. c\<lparr>malformed_drops := malformed_drops c + 1\<rparr>) g, Inl DropMalformed)
      | Some src \<Rightarrow>
          (case lookup_owner (Addr4 src) (ir_resolver g) of
             None \<Rightarrow> (bump (\<lambda>c. c\<lparr>unmapped_drops := unmapped_drops c + 1\<rparr>) g, Inl DropUnmapped)
           | Some o' \<Rightarrow>
               if route_live R o' g then submit_packet R nowNs o' pkt (env g)
               else (case admit_owner R adm o' (env g) of
                       (g1, Inl e) \<Rightarrow> (g1, Inl e)
                     | (g1, Inr _) \<Rightarrow> submit_packet R nowNs o' pkt (env g1))))"

text \<open>Packets one after the other, with nobody else at work.\<close>

primrec handle_burst :: "'s registrar \<Rightarrow> 's admission_callback \<Rightarrow> int \<Rightarrow> packet list \<Rightarrow> 's router \<Rightarrow> 's router" where
  "handle_burst R adm nowNs [] g = g"
| "handle_burst R adm nowNs (pkt # pkts) g = handle_burst R adm nowNs pkts (fst (handle_packet R adm nowNs id pkt g))"

text \<open>The exported view: the rejections include those for want of a backend.\<close>

definition stats_snapshot :: "'s router \<Rightarrow> router_stats" where
  "stats_snapshot g =
     (let c = ir_stats g; noBackend = no_backend_drops c in c\<lparr>rejected_drops := rejected_drops c + noBackend\<rparr>)"

section \<open>The successful runs\<close>

lemma register_locked_ok:
  assumes "register_locked R o' rt g = (g', Inr ())"
  shows "reg_has R (po_peer o') (ar_session rt) (ar_connection rt) (ar_ip rt) (ar_backend rt) (ir_fwd g) \<and> g' = g \<or>
    (\<exists>s x. reg_try R (ar_session rt) (ar_connection rt) (po_peer o') (ar_ip rt) (ar_backend rt) (ir_fwd g) = (s, Inr x) \<and>
       g' = g\<lparr>ir_fwd := s\<rparr>)"
proof (cases "reg_has R (po_peer o') (ar_session rt) (ar_connection rt) (ar_ip rt) (ar_backend rt) (ir_fwd g)")
  case True
  then show ?thesis using assms by (simp add: register_locked_def)
next
  case False
  obtain s r where t: "reg_try R (ar_session rt) (ar_connection rt) (po_peer o') (ar_ip rt) (ar_backend rt) (ir_fwd g) = (s, r)"
    by fastforce
  show ?thesis using assms False t by (cases r) (simp_all add: register_locked_def)
qed

definition admitted_as :: "peer_ownership \<Rightarrow> string \<Rightarrow> int \<Rightarrow> admitted_route" where
  "admitted_as o' sid b = \<lparr>ar_session = sid, ar_connection = po_connection o', ar_user = po_user o',
     ar_ip = owner_address o', ar_backend = b\<rparr>"

lemma admit_owner_ok:
  assumes "admit_owner R adm o' g = (g', Inr ())" "\<not> route_live R o' g"
  shows "\<exists>s sid b g2. adm o' (ir_fwd g) = (s, Inr (Some (sid, owner_address o'), Some b)) \<and>
    register_locked R o' (admitted_as o' sid b) (g\<lparr>ir_fwd := s\<rparr>) = (g2, Inr ()) \<and>
    g' = bump (\<lambda>c. c\<lparr>admitted_sessions := admitted_sessions c + 1\<rparr>)
      (g2\<lparr>ir_sessions := fmupd (po_peer o') (admitted_as o' sid b) (ir_sessions g2)\<rparr>)"
proof -
  obtain s r where ad: "adm o' (ir_fwd g) = (s, r)" by fastforce
  show ?thesis
  proof (cases r)
    case (Inl e)
    then show ?thesis using assms by (cases e) (simp_all add: admit_owner_def ad)
  next
    case (Inr hb)
    obtain h b where hb: "hb = (h, b)" by fastforce
    show ?thesis
    proof (cases h)
      case None
      then show ?thesis using assms Inr hb by (simp add: admit_owner_def ad)
    next
      case (Some sa)
      obtain sid assigned where sa: "sa = (sid, assigned)" by fastforce
      show ?thesis
      proof (cases b)
        case None
        then show ?thesis using assms Inr hb Some sa by (simp add: admit_owner_def ad)
      next
        case (Some b')
        note eqs = ad Inr hb sa \<open>h = Some sa\<close> Some
        have "assigned = owner_address o'"
          using assms by (simp add: admit_owner_def eqs Let_def split: if_splits)
        moreover obtain g2 res where g2: "register_locked R o' (admitted_as o' sid b') (g\<lparr>ir_fwd := s\<rparr>) = (g2, res)" by fastforce
        ultimately show ?thesis
          using assms by (cases res) (simp_all add: admit_owner_def eqs Let_def admitted_as_def)
      qed
    qed
  qed
qed

lemma submit_packet_run:
  assumes "reg_route R (po_peer o') pkt (ir_fwd g) = (s, r)"
  shows "ir_fwd (fst (submit_packet R nowNs o' pkt g)) = s" "ir_sessions (fst (submit_packet R nowNs o' pkt g)) = ir_sessions g"
    "ir_resolver (fst (submit_packet R nowNs o' pkt g)) = ir_resolver g" "ir_stats (fst (submit_packet R nowNs o' pkt g)) = ir_stats g"
    "(snd (submit_packet R nowNs o' pkt g) = Inr ()) = (r = Inr ())"
  using assms by (cases r; cases "ir_liveness g"; simp add: submit_packet_def touch_liveness_def)+

lemma handle_packet_ok:
  assumes "handle_packet R adm nowNs env pkt g = (g', Inr ())"
  shows "\<exists>src o' g1. parse_ipv4_source pkt = Some src \<and> lookup_owner (Addr4 src) (ir_resolver g) = Some o' \<and>
    (route_live R o' g \<and> g1 = g \<or> \<not> route_live R o' g \<and> admit_owner R adm o' (env g) = (g1, Inr ())) \<and>
    submit_packet R nowNs o' pkt (env g1) = (g', Inr ())"
proof -
  obtain src where src: "parse_ipv4_source pkt = Some src"
    using assms by (cases "parse_ipv4_source pkt") (simp_all add: handle_packet_def)
  obtain o' where o': "lookup_owner (Addr4 src) (ir_resolver g) = Some o'"
    using assms by (cases "lookup_owner (Addr4 src) (ir_resolver g)") (simp_all add: handle_packet_def src)
  show ?thesis
  proof (cases "route_live R o' g")
    case True
    then show ?thesis using assms by (simp add: handle_packet_def src o')
  next
    case False
    obtain g1 r where a: "admit_owner R adm o' (env g) = (g1, r)" by fastforce
    then show ?thesis using assms False by (cases r) (simp_all add: handle_packet_def src o')
  qed
qed

section \<open>What the router relies on\<close>

locale route_registrar =
  fixes R :: "'s registrar" and inv :: "'s \<Rightarrow> bool"
  assumes try_keeps: "inv s \<Longrightarrow> inv (fst (reg_try R sid cid peer ip b s))"
    and route_keeps: "inv s \<Longrightarrow> inv (fst (reg_route R peer pkt s))"
    and try_has: "inv s \<Longrightarrow> ip \<noteq> [] \<Longrightarrow> reg_try R sid cid peer ip b s = (s', Inr x) \<Longrightarrow> reg_has R peer sid cid ip b s'"
    and route_has: "inv s \<Longrightarrow> reg_has R peer sid cid ip b (fst (reg_route R q pkt s)) = reg_has R peer sid cid ip b s"
    and own_source: "inv s \<Longrightarrow> reg_has R peer sid cid ip b s \<Longrightarrow> reg_route R peer pkt s = (s', Inr ()) \<Longrightarrow>
      source_ip pkt \<in> {[], ''0.0.0.0'', ip}"
begin

lemma register_live:
  assumes "inv (ir_fwd g)" "register_locked R o' rt g = (g', Inr ())" "ar_ip rt \<noteq> []"
  shows "reg_has R (po_peer o') (ar_session rt) (ar_connection rt) (ar_ip rt) (ar_backend rt) (ir_fwd g') \<and>
    inv (ir_fwd g') \<and> ir_sessions g' = ir_sessions g \<and> ir_resolver g' = ir_resolver g"
  using register_locked_ok [OF assms(2)]
proof (elim disjE exE conjE)
  fix s x
  assume t: "reg_try R (ar_session rt) (ar_connection rt) (po_peer o') (ar_ip rt) (ar_backend rt) (ir_fwd g) = (s, Inr x)"
    and g': "g' = g\<lparr>ir_fwd := s\<rparr>"
  have "inv s" using try_keeps [OF assms(1), of "ar_session rt" "ar_connection rt" "po_peer o'" "ar_ip rt" "ar_backend rt"] t by simp
  then show ?thesis using try_has [OF assms(1,3) t] by (simp add: g')
qed (use assms(1) in simp)

lemma admitted_live:
  assumes "inv (ir_fwd g)" "\<And>o' s. inv s \<Longrightarrow> inv (fst (adm o' s))" "admit_owner R adm o' g = (g', Inr ())"
  shows "route_live R o' g' \<and> inv (ir_fwd g') \<and> ir_resolver g' = ir_resolver g"
proof (cases "route_live R o' g")
  case True
  then show ?thesis using assms(1,3) by (simp add: admit_owner_def)
next
  case False
  obtain s sid b g2 where ad: "adm o' (ir_fwd g) = (s, Inr (Some (sid, owner_address o'), Some b))"
    and g2: "register_locked R o' (admitted_as o' sid b) (g\<lparr>ir_fwd := s\<rparr>) = (g2, Inr ())"
    and g': "g' = bump (\<lambda>c. c\<lparr>admitted_sessions := admitted_sessions c + 1\<rparr>)
      (g2\<lparr>ir_sessions := fmupd (po_peer o') (admitted_as o' sid b) (ir_sessions g2)\<rparr>)"
    using admit_owner_ok [OF assms(3) False] by blast
  have "inv s" using assms(2) [OF assms(1), of o'] by (simp add: ad)
  moreover have "ar_ip (admitted_as o' sid b) \<noteq> []" by (simp add: admitted_as_def owner_address_def)
  ultimately show ?thesis
    using register_live [OF _ g2] by (simp add: route_live_def g' bump_def admitted_as_def)
qed

lemma submit_keeps:
  assumes "inv (ir_fwd g)" "submit_packet R nowNs o' pkt g = (g', res)"
  shows "route_live R o2 g' = route_live R o2 g \<and> inv (ir_fwd g') \<and> ir_resolver g' = ir_resolver g"
proof -
  obtain s r where rt: "reg_route R (po_peer o') pkt (ir_fwd g) = (s, r)" by fastforce
  note run = submit_packet_run [OF rt, of nowNs, unfolded assms(2) fst_conv]
  have "reg_has R q1 q2 q3 q4 q5 s = reg_has R q1 q2 q3 q4 q5 (ir_fwd g)" for q1 q2 q3 q4 q5
    using route_has [OF assms(1), of q1 q2 q3 q4 q5 "po_peer o'" pkt] by (simp add: rt)
  moreover have "inv s" using route_keeps [OF assms(1), of "po_peer o'" pkt] by (simp add: rt)
  ultimately show ?thesis by (simp add: route_live_def run split: option.split)
qed

text \<open>One packet of an owner: a live route stays live and admits nobody; otherwise an admission makes the route live.\<close>

lemma live_packet:
  assumes "inv (ir_fwd g)" "parse_ipv4_source pkt = Some src" "lookup_owner (Addr4 src) (ir_resolver g) = Some o'"
    "route_live R o' g" "handle_packet R adm nowNs id pkt g = (g', res)"
  shows "route_live R o' g' \<and> inv (ir_fwd g') \<and> ir_resolver g' = ir_resolver g \<and> ir_stats g' = ir_stats g"
proof -
  have run: "submit_packet R nowNs o' pkt g = (g', res)" using assms(2-5) by (simp add: handle_packet_def)
  obtain s r where rt: "reg_route R (po_peer o') pkt (ir_fwd g) = (s, r)" by fastforce
  show ?thesis using submit_keeps [OF assms(1) run, of o'] submit_packet_run(4) [OF rt, of nowNs] assms(4) by (simp add: run)
qed

lemma refused_admission:
  assumes "inv (ir_fwd g)" "\<And>s. inv s \<Longrightarrow> inv (fst (adm o' s))" "\<not> route_live R o' g" "admit_owner R adm o' g = (g', Inl e)"
  shows "inv (ir_fwd g') \<and> ir_resolver g' = ir_resolver g \<and> admitted_sessions (ir_stats g') = admitted_sessions (ir_stats g)"
proof -
  obtain s r where ad: "adm o' (ir_fwd g) = (s, r)" by fastforce
  have s: "inv s" using assms(2) [OF assms(1)] by (simp add: ad)
  have reg: "inv (ir_fwd g2) \<and> ir_resolver g2 = ir_resolver g \<and> admitted_sessions (ir_stats g2) = admitted_sessions (ir_stats g)"
    if run: "register_locked R o' rt (g\<lparr>ir_fwd := s\<rparr>) = (g2, res)" for rt g2 res
  proof -
    obtain t x where "reg_try R (ar_session rt) (ar_connection rt) (po_peer o') (ar_ip rt) (ar_backend rt) s = (t, x)" by fastforce
    then show ?thesis using run s try_keeps [OF s, of "ar_session rt" "ar_connection rt" "po_peer o'" "ar_ip rt" "ar_backend rt"]
      by (cases x) (auto simp: register_locked_def bump_def split: if_splits)
  qed
  show ?thesis
    using assms(3,4) s reg
    by (auto simp: admit_owner_def ad bump_def Let_def split: sum.splits admission_error.splits prod.splits option.splits if_splits)
qed

lemma owner_packet:
  assumes "inv (ir_fwd g)" "\<And>o' s. inv s \<Longrightarrow> inv (fst (adm o' s))" "parse_ipv4_source pkt = Some src"
    "lookup_owner (Addr4 src) (ir_resolver g) = Some o'" "\<not> route_live R o' g" "handle_packet R adm nowNs id pkt g = (g', res)"
  shows "inv (ir_fwd g') \<and> ir_resolver g' = ir_resolver g \<and>
    (route_live R o' g' \<and> admitted_sessions (ir_stats g') = admitted_sessions (ir_stats g) + 1 \<or>
     admitted_sessions (ir_stats g') = admitted_sessions (ir_stats g))"
proof -
  obtain g1 r where a: "admit_owner R adm o' g = (g1, r)" by fastforce
  show ?thesis
  proof (cases r)
    case (Inl e)
    then show ?thesis using refused_admission [OF assms(1) _ assms(5), of adm g1 e] assms(2-6) a
      by (simp add: handle_packet_def)
  next
    case (Inr u)
    then have a': "admit_owner R adm o' g = (g1, Inr ())" using a by simp
    have run: "submit_packet R nowNs o' pkt g1 = (g', res)" using assms(3-6) a' by (simp add: handle_packet_def)
    have l: "route_live R o' g1 \<and> inv (ir_fwd g1) \<and> ir_resolver g1 = ir_resolver g"
      using admitted_live [OF assms(1), of adm o' g1] assms(2) a' by simp
    have n: "admitted_sessions (ir_stats g1) = admitted_sessions (ir_stats g) + 1"
      using admit_owner_ok [OF a' assms(5)] register_locked_ok by (fastforce simp: bump_def)
    obtain s r' where rt: "reg_route R (po_peer o') pkt (ir_fwd g1) = (s, r')" by fastforce
    show ?thesis using submit_keeps [OF _ run, of o'] submit_packet_run(4) [OF rt, of nowNs] l n by (simp add: run)
  qed
qed

lemma live_burst:
  assumes "inv (ir_fwd g)" "\<forall>pkt \<in> set pkts. parse_ipv4_source pkt = Some src"
    "lookup_owner (Addr4 src) (ir_resolver g) = Some o'" "route_live R o' g"
  shows "ir_stats (handle_burst R adm nowNs pkts g) = ir_stats g"
  using assms
proof (induction pkts arbitrary: g)
  case (Cons pkt pkts)
  obtain g' res where run: "handle_packet R adm nowNs id pkt g = (g', res)" by fastforce
  have "route_live R o' g' \<and> inv (ir_fwd g') \<and> ir_resolver g' = ir_resolver g \<and> ir_stats g' = ir_stats g"
    using live_packet [OF Cons.prems(1) _ Cons.prems(3,4) run] Cons.prems(2) by simp
  then show ?case using Cons.IH [of g'] Cons.prems run by simp
qed simp

lemma burst_admits:
  assumes "inv (ir_fwd g)" "\<And>o' s. inv s \<Longrightarrow> inv (fst (adm o' s))" "\<forall>pkt \<in> set pkts. parse_ipv4_source pkt = Some src"
    "lookup_owner (Addr4 src) (ir_resolver g) = Some o'"
  shows "admitted_sessions (ir_stats (handle_burst R adm nowNs pkts g)) \<in>
    {admitted_sessions (ir_stats g), admitted_sessions (ir_stats g) + 1}"
  using assms(1,3,4)
proof (induction pkts arbitrary: g)
  case (Cons pkt pkts)
  show ?case
  proof (cases "route_live R o' g")
    case True
    then show ?thesis using live_burst [OF Cons.prems, of adm nowNs] by simp
  next
    case False
    obtain g' res where run: "handle_packet R adm nowNs id pkt g = (g', res)" by fastforce
    have p: "inv (ir_fwd g') \<and> ir_resolver g' = ir_resolver g \<and>
      (route_live R o' g' \<and> admitted_sessions (ir_stats g') = admitted_sessions (ir_stats g) + 1 \<or>
       admitted_sessions (ir_stats g') = admitted_sessions (ir_stats g))"
      using owner_packet [OF Cons.prems(1), of adm pkt src o' nowNs g' res] assms(2) Cons.prems(2,3) False run by simp
    have "\<forall>q \<in> set pkts. parse_ipv4_source q = Some src" using Cons.prems(2) by simp
    then show ?thesis using p Cons.IH [of g'] live_burst [of g' pkts src o' adm nowNs] Cons.prems(3) run by auto
  qed
qed simp

text \<open>A packet that was accepted leaves its owner's route live, so the next one needs no admission.\<close>

lemma accepted_live:
  assumes "inv (ir_fwd g)" "\<And>o' s. inv s \<Longrightarrow> inv (fst (adm o' s))"
    "handle_packet R adm nowNs id pkt g = (g', Inr ())"
  shows "\<exists>src o'. parse_ipv4_source pkt = Some src \<and> lookup_owner (Addr4 src) (ir_resolver g) = Some o' \<and>
    route_live R o' g' \<and> ir_resolver g' = ir_resolver g"
proof -
  obtain src o' g1 where so: "parse_ipv4_source pkt = Some src" "lookup_owner (Addr4 src) (ir_resolver g) = Some o'"
    and g1: "route_live R o' g \<and> g1 = g \<or> \<not> route_live R o' g \<and> admit_owner R adm o' (id g) = (g1, Inr ())"
    and sub: "submit_packet R nowNs o' pkt (id g1) = (g', Inr ())"
    using handle_packet_ok [OF assms(3)] by blast
  have live: "route_live R o' g1 \<and> inv (ir_fwd g1) \<and> ir_resolver g1 = ir_resolver g"
    using g1 assms(1) admitted_live [OF assms(1), of adm o' g1] assms(2) by auto
  then show ?thesis using submit_keeps [OF _ sub [unfolded id_apply], of o'] so by auto
qed

end


section \<open>Both interfaces keep the contract\<close>

definition route_identity :: "'f session_route \<Rightarrow> string \<times> string \<times> string \<times> int \<times> path_ref option \<times> bool \<times> bool" where
  "route_identity rt = (r_session rt, r_connection rt, r_ip rt, r_backend rt, r_path rt, r_retired rt, r_stopped rt)"

text \<open>What the verification of a route looks at; a submission changes none of it.\<close>

definition routing_view :: "'f forwarder \<Rightarrow> (string, route_ref) fmap \<times> (string, route_ref) fmap \<times> (path_ref \<Rightarrow> bool) \<times>
    (route_ref \<Rightarrow> (string \<times> string \<times> string \<times> int \<times> path_ref option \<times> bool \<times> bool) option)" where
  "routing_view f = (routes_by_peer f, routes_by_ip f, path_closed f, \<lambda>r. map_option route_identity (fmlookup (fw_routes f) r))"

lemma routing_view_has:
  assumes "routing_view f' = routing_view f"
  shows "has_session_route f' peer sid cid ip b = has_session_route f peer sid cid ip b"
    and "has_session_route_with_return_path f' peer sid cid ip b p = has_session_route_with_return_path f peer sid cid ip b p"
proof -
  have tables: "routes_by_peer f' = routes_by_peer f" "routes_by_ip f' = routes_by_ip f" "path_closed f' = path_closed f"
    and ids: "map_option route_identity (fmlookup (fw_routes f') r) = map_option route_identity (fmlookup (fw_routes f) r)" for r
    using assms by (simp_all add: routing_view_def fun_eq_iff)
  consider (none) "lookup_route f peer = None" "lookup_route f' peer = None"
    | (some) r rt rt' where "lookup_route f peer = Some (r, rt)" "lookup_route f' peer = Some (r, rt')"
        "route_identity rt' = route_identity rt"
  proof (cases "fmlookup (routes_by_peer f) peer")
    case None
    then show ?thesis using that(1) by (simp add: lookup_route_def tables)
  next
    case (Some r)
    then show ?thesis using that ids [of r]
      by (cases "fmlookup (fw_routes f) r"; cases "fmlookup (fw_routes f') r") (simp_all add: lookup_route_def tables)
  qed
  note cases = this
  show "has_session_route f' peer sid cid ip b = has_session_route f peer sid cid ip b"
    by (rule cases) (auto simp: has_session_route_def route_matches_def route_identity_def tables)
  show "has_session_route_with_return_path f' peer sid cid ip b p = has_session_route_with_return_path f peer sid cid ip b p"
    by (rule cases; cases p) (auto simp: has_session_route_with_return_path_def route_matches_def route_identity_def tables)
qed

lemma routing_view_fields [simp]:
  "routing_view (f\<lparr>backend_queues := q\<rparr>) = routing_view f" "routing_view (f\<lparr>fw_counters := c\<rparr>) = routing_view f"
  "routing_view (f\<lparr>fw_traffic := t\<rparr>) = routing_view f" "routing_view (f\<lparr>fw_buckets := bs\<rparr>) = routing_view f"
  "routing_view (f\<lparr>fw_accountant := x\<rparr>) = routing_view f"
  by (simp_all add: routing_view_def path_closed_def fun_eq_iff)

lemma record_route_traffic_view [simp]: "routing_view (record_route_traffic n rx now r f) = routing_view f"
  by (auto simp: routing_view_def record_route_traffic_def route_identity_def path_closed_def fun_eq_iff upd_route_def split: option.split)

lemma count_up_view [simp]: "routing_view (count_up g f) = routing_view f"
  by (simp add: count_up_def)

lemma record_backend_traffic_view [simp]: "routing_view (record_backend_traffic n rx now t f) = routing_view f"
  by (simp add: record_backend_traffic_def split: option.split)

lemma bucket_allow_view [simp]: "routing_view (fst (bucket_allow F now n tb f)) = routing_view f"
  by (simp add: bucket_allow_def split: option.split prod.split)

lemma client_enqueue_view: "routing_view (fst (client_enqueue F now pkt a f)) = routing_view f"
proof -
  obtain f1 ok where b: "bucket_allow F now (int (length pkt)) (ca_bucket a) f = (f1, ok)" by fastforce
  have "routing_view f1 = routing_view f" using bucket_allow_view [of F now "int (length pkt)" "ca_bucket a" f] by (simp add: b)
  then show ?thesis
    by (cases ok) (simp_all add: client_enqueue_def b Let_def drop_client_rate_limited_def drop_client_queue_full_def)
qed

lemma client_admit_view: "routing_view (fst (client_admit peer pkt p f)) = routing_view f"
  by (simp add: client_admit_def Let_def drop_client_no_backend_def split: option.split)

lemma route_client_view: "routing_view (fst (route_client_to_backend_on F now id peer pkt p f)) = routing_view f"
  using client_admit_view [of peer pkt p f] client_enqueue_view [of F now pkt]
  by (cases "client_admit peer pkt p f") (auto simp: route_client_to_backend_on_def split: sum.split)

lemma route_client_inv: "fw_inv f \<Longrightarrow> fw_inv (fst (route_client_to_backend_on F now id peer pkt p f))"
  using client_admit_inv [of f peer pkt p] client_enqueue_inv [of _ F now pkt]
  by (cases "client_admit peer pkt p f") (auto simp: route_client_to_backend_on_def split: sum.split)

lemma route_client_source:
  assumes "route_client_to_backend_on F now id peer pkt p f = (f', Inr ())" "lookup_route f peer = Some (r, rt)"
  shows "source_ip pkt \<in> {[], ''0.0.0.0'', r_ip rt}"
  using assms by (auto simp: route_client_to_backend_on_def client_admit_def Let_def split: if_splits option.splits)

interpretation fr: route_registrar "forwarder_routes F now" fw_inv for F :: "'f f64" and now
proof (unfold_locales, goal_cases)
  case (1 s sid cid peer ip b)
  then show ?case
    using register_inv [OF 1, of F now] by (cases "register_session_locked F now
      \<lparr>a_session = sid, a_connection = cid, a_peer = peer, a_ip = ip, a_backend = b, a_limit_down = 0, a_limit_up = 0, a_path = None\<rparr> s")
      (simp add: forwarder_routes_def try_register_session_with_limit_def try_register_session_with_return_path_def)
next
  case (2 s peer pkt)
  then show ?case by (simp add: forwarder_routes_def route_client_to_backend_def route_client_inv)
next
  case (3 s ip sid cid peer b s' x)
  then have reg: "register_session_locked F now
      \<lparr>a_session = sid, a_connection = cid, a_peer = peer, a_ip = ip, a_backend = b, a_limit_down = 0, a_limit_up = 0, a_path = None\<rparr> s =
    (s', Inr x)"
    by (simp add: forwarder_routes_def try_register_session_with_limit_def try_register_session_with_return_path_def)
  show ?case using registered_route [OF 3(1) reg] 3(2)
    by (simp add: forwarder_routes_def has_session_route_def route_matches_def)
next
  case (4 s peer sid cid ip b q pkt)
  then show ?case using routing_view_has(1) [OF route_client_view]
    by (simp add: forwarder_routes_def route_client_to_backend_def)
next
  case (5 s peer sid cid ip b pkt s')
  then obtain r rt where "lookup_route s peer = Some (r, rt)" "r_ip rt = ip"
    by (auto simp: forwarder_routes_def has_session_route_def route_matches_def split: option.splits)
  then show ?case using 5(3) route_client_source by (fastforce simp: forwarder_routes_def route_client_to_backend_def)
qed

interpretation er: route_registrar "owned_routes F now p" fw_inv for F :: "'f f64" and now and p
proof (unfold_locales, goal_cases)
  case (2 s peer pkt)
  then show ?case by (simp add: owned_routes_def route_client_to_backend_with_return_path_def route_client_inv)
next
  case (4 s peer sid cid ip b q pkt)
  then show ?case
    by (simp add: owned_routes_def route_client_to_backend_with_return_path_def routing_view_has(2) [OF route_client_view])
next
  case (5 s peer sid cid ip b pkt s')
  then obtain r rt where "lookup_route s peer = Some (r, rt)" "r_ip rt = ip"
    by (auto simp: owned_routes_def has_session_route_with_return_path_def route_matches_def split: option.splits)
  then show ?case using 5(3) route_client_source
    by (fastforce simp: owned_routes_def route_client_to_backend_with_return_path_def split: if_splits)
qed (auto simp: owned_routes_def split: if_splits)

section \<open>What a client can do\<close>

lemma parsed_source: "parse_ipv4_source pkt = Some src \<Longrightarrow> source_ip pkt = ip_string src"
  by (auto simp: parse_ipv4_source_def ipv4_header_len_def source_ip_def packet_addr_def Let_def split: if_splits)

lemma accepted_submission:
  assumes "fw_inv f" "has_session_route f peer sid cid ip b" "route_client_to_backend_on F now id peer pkt p f = (f', Inr ())"
  shows "\<exists>q. backend_queues f' = fmupd b (q @ [pkt]) (backend_queues f) \<and> fmlookup (backend_queues f) b = Some q"
proof -
  obtain r rt where rt: "lookup_route f peer = Some (r, rt)" "r_backend rt = b"
    using assms(2) by (auto simp: has_session_route_def route_matches_def split: option.splits)
  then have l: "fmlookup (routes_by_peer f) peer = Some r" "fmlookup (fw_routes f) r = Some rt"
    by (auto simp: lookup_route_def split: option.splits)
  obtain a where a: "client_admit peer pkt p f = (f, Inr a)" "ca_backend a = b"
    using assms(3) rt by (auto simp: route_client_to_backend_on_def client_admit_def Let_def split: if_splits option.splits)
  obtain q where "fmlookup (backend_queues f) b = Some q"
    using fw_invD(1,2) [OF assms(1)] l rt(2) by (fastforce simp: route_ok_def peers_ok_def)
  then show ?thesis using client_enqueue_result [of F now pkt a f f' "Inr ()" q] assms(3) a
    by (simp add: route_client_to_backend_on_def)
qed

text \<open>
  C40: only the durable owner of a source address reaches a backend. When the router accepts a packet, whatever the
  admission callback answers (as long as it leaves the forwarder well formed), the packet's source address
  has an owner in the resolver, the forwarder holds a route of that peer for the owner's connection and exactly that
  address, and the packet was appended to the queue of that route's backend and to no other queue of the
  state the admission left.
\<close>

theorem ingress_accepts_only_owner:
  assumes "fw_inv (ir_fwd g)" "res_inv (ir_resolver g)" "\<And>o' s. fw_inv s \<Longrightarrow> fw_inv (fst (adm o' s))"
    "handle_packet (forwarder_routes F now) adm nowNs id pkt g = (g', Inr ())"
  shows "\<exists>src o' g1 sid b q. parse_ipv4_source pkt = Some src \<and> lookup_owner (Addr4 src) (ir_resolver g) = Some o' \<and>
    po_ip o' = Addr4 src \<and> has_session_route (ir_fwd g') (po_peer o') sid (po_connection o') (ip_string src) b \<and>
    (g1 = g \<or> admit_owner (forwarder_routes F now) adm o' g = (g1, Inr ())) \<and>
    fmlookup (backend_queues (ir_fwd g1)) b = Some q \<and>
    backend_queues (ir_fwd g') = fmupd b (q @ [pkt]) (backend_queues (ir_fwd g1))"
proof -
  obtain src o' g1 where so: "parse_ipv4_source pkt = Some src" "lookup_owner (Addr4 src) (ir_resolver g) = Some o'"
    and g1: "route_live (forwarder_routes F now) o' g \<and> g1 = g \<or>
      \<not> route_live (forwarder_routes F now) o' g \<and> admit_owner (forwarder_routes F now) adm o' (id g) = (g1, Inr ())"
    and sub: "submit_packet (forwarder_routes F now) nowNs o' pkt (id g1) = (g', Inr ())"
    using handle_packet_ok [OF assms(4)] by blast
  have live: "route_live (forwarder_routes F now) o' g1" "fw_inv (ir_fwd g1)"
    using g1 assms(1,3) fr.admitted_live [OF assms(1), of adm F now o' g1] by auto
  have ip: "po_ip o' = Addr4 src" using so(2) res_invD(1) [OF assms(2)] by (auto simp: lookup_owner_def split: if_splits)
  then obtain rt :: admitted_route where rt: "has_session_route (ir_fwd g1) (po_peer o') (ar_session rt) (po_connection o') (ip_string src) (ar_backend rt)"
    using live(1) by (auto simp: route_live_def forwarder_routes_def owner_address_def split: option.splits if_splits)
  obtain f' where f': "route_client_to_backend_on F now id (po_peer o') pkt None (ir_fwd g1) = (f', Inr ())" "ir_fwd g' = f'"
    using sub by (cases "route_client_to_backend_on F now id (po_peer o') pkt None (ir_fwd g1)")
      (auto simp: submit_packet_def touch_liveness_def forwarder_routes_def route_client_to_backend_def split: sum.splits liveness.splits)
  have "has_session_route f' (po_peer o') (ar_session rt) (po_connection o') (ip_string src) (ar_backend rt)"
    using rt routing_view_has(1) [OF route_client_view] f'(1) by (metis fst_conv)
  moreover obtain q where "backend_queues f' = fmupd (ar_backend rt) (q @ [pkt]) (backend_queues (ir_fwd g1))"
    "fmlookup (backend_queues (ir_fwd g1)) (ar_backend rt) = Some q"
    using accepted_submission [OF live(2) rt f'(1)] by blast
  moreover have "g1 = g \<or> admit_owner (forwarder_routes F now) adm o' g = (g1, Inr ())" using g1 by auto
  ultimately show ?thesis using so ip f'(2) by blast
qed

definition demo_router :: "rat forwarder router" where
  "demo_router = new_router demo_resolver demo_fw NoLiveness"

text \<open>An admission that answers with the session already registered for the peer.\<close>

definition demo_admission :: "rat forwarder admission_callback" where
  "demo_admission o' s = (s, Inr (Some (''s1'', ''10.0.0.2''), Some 7))"

definition demo_packet :: packet where
  "demo_packet = [69, 0, 0, 20, 0, 0, 0, 0, 64, 17, 0, 0, 10, 0, 0, 2, 8, 8, 8, 8]"

lemma demo_source: "parse_ipv4_source demo_packet = Some 0x0A000002"
  by (simp add: demo_packet_def parse_ipv4_source_def ipv4_header_len_def Let_def ipv4_of_def)

lemma demo_lookup: "lookup_owner (Addr4 0x0A000002) (ir_resolver demo_router) = Some demo_owner"
  using demo_resolver_lookup by (simp add: demo_router_def new_router_def)

lemma demo_router_inv: "fw_inv (ir_fwd demo_router)" "res_inv (ir_resolver demo_router)"
  using fw_reachable_inv [OF demo_reachable] resolver_reachable_inv [OF demo_resolver_reachable]
  by (simp_all add: demo_router_def new_router_def)

lemma demo_admission_inv: "fw_inv s \<Longrightarrow> fw_inv (fst (demo_admission o' s))"
  by (simp add: demo_admission_def)

lemma demo_ip_string: "ip_string 0x0A000002 = ''10.0.0.2''"
proof -
  have "dec 10 = ''10''" "dec 0 = ''0''" "dec 2 = ''2''" by code_simp+
  then show ?thesis by (simp add: ip_string_def octet_def)
qed

lemma demo_backend_queue: "fmlookup (backend_queues demo_fw) 7 = Some []" "backend_buf_size demo_fw = 2048"
proof -
  have "demo_fw = fst (register_session_locked rat_f64 1 demo_args demo_new)" by (simp add: demo_fw_def try_register_eq)
  obtain old where old: "register_session_locked rat_f64 1 demo_args demo_new = (demo_fw, Inr old)"
    using demo_registered unfolding try_register_eq by blast
  note g = forget_peer_inv(4,6) [OF register_base_inv [OF fw_reachable_inv [OF demo_new_reachable], of rat_f64 1 demo_args], of "a_peer demo_args"]
  have size: "backend_buf_size (forget_peer p f) = backend_buf_size f" for p and f :: "rat forwarder"
    by (simp add: forget_peer_def forget_route_def drop_route_ip_def split: option.split)
  have "backend_queues demo_fw = backend_queues (register_base rat_f64 1 demo_args demo_new)"
    "backend_buf_size demo_fw = backend_buf_size (register_base rat_f64 1 demo_args demo_new)"
    using register_result(1) [OF fw_reachable_inv [OF demo_new_reachable] old] g
    by (simp_all add: same_tables_def add_route_def size del: new_route_fields register_base_fields)
  then show "fmlookup (backend_queues demo_fw) 7 = Some []" "backend_buf_size demo_fw = 2048"
    by (simp_all add: register_base_def demo_args_def ensure_backend_queue_def ensure_backend_traffic_def)
qed

lemma demo_handled: "snd (handle_packet (forwarder_routes rat_f64 2) demo_admission 0 id demo_packet demo_router) = Inr ()"
proof -
  have live: "\<not> route_live (forwarder_routes rat_f64 2) demo_owner demo_router"
    by (simp add: route_live_def demo_router_def new_router_def)
  have has: "has_session_route demo_fw ''peer'' ''s1'' ''c1'' ''10.0.0.2'' 7"
    using demo_route by (simp add: has_session_route_def route_matches_def demo_args_def)
  have addr: "owner_address demo_owner = ''10.0.0.2''" by (simp add: owner_address_def demo_owner_def demo_ip_string)
  have g: "ir_fwd demo_router = demo_fw" "ir_sessions demo_router = fmempty" "demo_router\<lparr>ir_fwd := demo_fw\<rparr> = demo_router"
    "ir_liveness demo_router = NoLiveness"
    by (simp_all add: demo_router_def new_router_def)
  have owner: "po_peer demo_owner = ''peer''" "po_connection demo_owner = ''c1''" by (simp_all add: demo_owner_def)
  have src: "source_ip demo_packet = ''10.0.0.2''" by (simp add: parsed_source [OF demo_source] demo_ip_string)
  have adm: "admit_owner (forwarder_routes rat_f64 2) demo_admission demo_owner demo_router =
      (bump (\<lambda>c. c\<lparr>admitted_sessions := admitted_sessions c + 1\<rparr>)
        (demo_router\<lparr>ir_sessions := fmupd ''peer'' (admitted_as demo_owner ''s1'' 7) fmempty\<rparr>), Inr ())"
    using has live by (simp add: admit_owner_def demo_admission_def addr register_locked_def forwarder_routes_def owner
        g admitted_as_def Let_def)
  have route: "snd (route_client_to_backend rat_f64 2 id ''peer'' demo_packet demo_fw) = Inr ()"
    using demo_buckets
    by (simp add: route_client_to_backend_def route_client_to_backend_on_def client_admit_def demo_route src demo_args_def
        demo_backend_queue client_enqueue_def bucket_allow_def Let_def)
  show ?thesis
    using route by (cases "route_client_to_backend rat_f64 2 id ''peer'' demo_packet demo_fw")
      (simp add: handle_packet_def demo_source demo_lookup live adm, simp add: submit_packet_def forwarder_routes_def owner bump_def g)
qed

lemma ingress_accepts_only_owner_witness:
  "\<exists>sid b. has_session_route (ir_fwd (fst (handle_packet (forwarder_routes rat_f64 2) demo_admission 0 id demo_packet demo_router)))
    ''peer'' sid ''c1'' ''10.0.0.2'' b"
proof -
  obtain g' where run: "handle_packet (forwarder_routes rat_f64 2) demo_admission 0 id demo_packet demo_router = (g', Inr ())"
    using demo_handled by (metis prod.collapse)
  show ?thesis
    using ingress_accepts_only_owner [OF demo_router_inv demo_admission_inv run] demo_lookup demo_source
    by (auto simp: run demo_ip_string demo_owner_def)
qed

text \<open>
  A burst admits its owner once. However many packets of one source arrive one after the other, whatever
  the answers of the admission callback and of the forwarder, at most one admission is counted: once it has
  succeeded the memo certifies the route, which no submission changes.
\<close>

theorem burst_admits_once:
  assumes "fw_inv (ir_fwd g)" "\<And>o' s. fw_inv s \<Longrightarrow> fw_inv (fst (adm o' s))"
    "\<forall>pkt \<in> set pkts. parse_ipv4_source pkt = Some src" "lookup_owner (Addr4 src) (ir_resolver g) = Some o'"
  shows "admitted_sessions (ir_stats (handle_burst (forwarder_routes F now) adm nowNs pkts g)) \<in>
    {admitted_sessions (ir_stats g), admitted_sessions (ir_stats g) + 1}"
  by (rule fr.burst_admits [OF assms])

lemma burst_admits_once_witness:
  "admitted_sessions (ir_stats (handle_burst (forwarder_routes rat_f64 2) demo_admission 0 [demo_packet, demo_packet] demo_router))
    \<in> {0, 1}"
proof -
  have "admitted_sessions (ir_stats demo_router) = 0" by (simp add: demo_router_def new_router_def)
  then show ?thesis
    using burst_admits_once [where g = demo_router and adm = demo_admission and pkts = "[demo_packet, demo_packet]" and
        src = "0x0A000002" and o' = demo_owner and F = rat_f64 and now = 2 and nowNs = 0]
    by (simp add: demo_source demo_lookup demo_router_inv demo_admission_inv)
qed

text \<open>What one packet's fate means for the counters; \<open>admitted\<close> says that the packet had to admit its owner.\<close>

definition ingress_counted :: "(ingress_error + unit) \<Rightarrow> bool \<Rightarrow> router_stats \<Rightarrow> router_stats" where
  "ingress_counted res admitted c =
     (let done = (if admitted then c\<lparr>admitted_sessions := admitted_sessions c + 1\<rparr> else c) in
      case res of
        Inr _ \<Rightarrow> done
      | Inl DropMalformed \<Rightarrow> c\<lparr>malformed_drops := malformed_drops c + 1\<rparr>
      | Inl DropUnmapped \<Rightarrow> c\<lparr>unmapped_drops := unmapped_drops c + 1\<rparr>
      | Inl DropMismatch \<Rightarrow> c\<lparr>mismatch_drops := mismatch_drops c + 1\<rparr>
      | Inl (AdmissionRejected NoActiveBackends) \<Rightarrow> c\<lparr>no_backend_drops := no_backend_drops c + 1\<rparr>
      | Inl (AdmissionRejected AdmissionFailed) \<Rightarrow> c\<lparr>rejected_drops := rejected_drops c + 1\<rparr>
      | Inl AdmissionContract \<Rightarrow> c\<lparr>rejected_drops := rejected_drops c + 1\<rparr>
      | Inl (RegistrationFailed _) \<Rightarrow> c\<lparr>route_reg_errors := route_reg_errors c + 1\<rparr>
      | Inl (ForwardFailed _) \<Rightarrow> done)"

lemma admit_owner_counts:
  assumes "admit_owner R adm o' g = (g', res)" "\<not> route_live R o' g"
  shows "ir_stats g' = ingress_counted res True (ir_stats g) \<and> ir_liveness g' = ir_liveness g \<and> (\<forall>e. res \<noteq> Inl (ForwardFailed e))"
proof -
  have reg: "(case r of Inl e \<Rightarrow> (\<exists>x. e = RegistrationFailed x) \<and> ir_stats g2 = (ir_stats h)\<lparr>route_reg_errors := route_reg_errors (ir_stats h) + 1\<rparr>
      | Inr _ \<Rightarrow> ir_stats g2 = ir_stats h) \<and> ir_liveness g2 = ir_liveness h"
    if "register_locked R o' rt h = (g2, r)" for rt h g2 r
    using that by (auto simp: register_locked_def bump_def split: if_splits prod.splits sum.splits)
  obtain s r where ad: "adm o' (ir_fwd g) = (s, r)" by fastforce
  show ?thesis
  proof (cases r)
    case (Inl e)
    then show ?thesis using assms by (cases e) (auto simp: admit_owner_def ad bump_def ingress_counted_def)
  next
    case (Inr hb)
    show ?thesis
    proof (cases hb)
      case (Pair h b)
      show ?thesis
      proof (cases "h = None \<or> b = None")
        case True
        then show ?thesis using assms Inr Pair
          by (auto simp: admit_owner_def ad bump_def ingress_counted_def split: option.splits)
      next
        case False
        then obtain sid assigned b' where hb: "h = Some (sid, assigned)" "b = Some b'" by auto
        show ?thesis
        proof (cases "assigned = owner_address o'")
          case False
          then show ?thesis using assms Inr Pair hb
            by (auto simp: admit_owner_def ad bump_def ingress_counted_def Let_def)
        next
          case True
          obtain g2 r2 where g2: "register_locked R o' (admitted_as o' sid b') (g\<lparr>ir_fwd := s\<rparr>) = (g2, r2)" by fastforce
          then show ?thesis using assms Inr Pair hb True reg [OF g2]
            by (cases r2) (auto simp: admit_owner_def ad bump_def ingress_counted_def Let_def admitted_as_def)
        qed
      qed
    qed
  qed
qed

text \<open>
  Every packet is counted exactly once. A packet changes no counter but the one of its fate: malformed,
  without an owner, refused by admission for want of a backend or for another reason, contradicting the durable
  record, or refused by the registration; a packet that is handed to the forwarder counts an admission exactly when
  no live route was there before. Only an accepted packet refreshes the peer's liveness.
\<close>

theorem ingress_counts_once:
  assumes "handle_packet R adm nowNs id pkt g = (g', res)"
  shows "ir_stats g' = ingress_counted res
      (\<not> (\<exists>src o'. parse_ipv4_source pkt = Some src \<and> lookup_owner (Addr4 src) (ir_resolver g) = Some o' \<and> route_live R o' g))
      (ir_stats g) \<and>
    (if res = Inr () then \<exists>src o'. parse_ipv4_source pkt = Some src \<and> lookup_owner (Addr4 src) (ir_resolver g) = Some o' \<and>
       ir_liveness g' = ir_liveness (touch_liveness nowNs (po_peer o') g)
     else ir_liveness g' = ir_liveness g)"
proof -
  have sub: "ir_stats g2 = ingress_counted r False (ir_stats h) \<and>
      (case r of Inl e \<Rightarrow> (\<exists>x. e = ForwardFailed x) \<and> ir_liveness g2 = ir_liveness h
       | Inr _ \<Rightarrow> ir_liveness g2 = ir_liveness (touch_liveness nowNs (po_peer o') h))"
    if "submit_packet R nowNs o' pkt h = (g2, r)" for h g2 r o'
    using that by (auto simp: submit_packet_def touch_liveness_def ingress_counted_def split: prod.splits sum.splits liveness.splits)
  show ?thesis
  proof (cases "parse_ipv4_source pkt")
    case None
    then show ?thesis using assms by (auto simp: handle_packet_def bump_def ingress_counted_def)
  next
    case src: (Some src)
    show ?thesis
    proof (cases "lookup_owner (Addr4 src) (ir_resolver g)")
      case None
      then show ?thesis using assms src by (auto simp: handle_packet_def bump_def ingress_counted_def)
    next
      case o': (Some o')
      show ?thesis
      proof (cases "route_live R o' g")
        case True
        then show ?thesis using assms src o' sub [of o' g g' res] by (cases res) (auto simp: handle_packet_def)
      next
        case False
        obtain g1 r where a: "admit_owner R adm o' g = (g1, r)" by fastforce
        note counts = admit_owner_counts [OF a False]
        show ?thesis
        proof (cases r)
          case (Inl e)
          then show ?thesis using assms src o' False a counts by (auto simp: handle_packet_def)
        next
          case (Inr u)
          then have run: "submit_packet R nowNs o' pkt g1 = (g', res)" using assms src o' False a by (simp add: handle_packet_def)
          show ?thesis using sub [OF run] counts Inr src o' False
            by (cases res) (auto simp: ingress_counted_def touch_liveness_def split: liveness.split)
        qed
      qed
    qed
  qed
qed

lemma ingress_counts_once_witness:
  "ir_stats (fst (handle_packet (forwarder_routes rat_f64 2) demo_admission 0 id [] demo_router)) =
    (ir_stats demo_router)\<lparr>malformed_drops := 1\<rparr>"
  using ingress_counts_once [of "forwarder_routes rat_f64 2" demo_admission 0 "[]" demo_router
      "fst (handle_packet (forwarder_routes rat_f64 2) demo_admission 0 id [] demo_router)" "Inl DropMalformed"]
  by (simp add: handle_packet_def parse_ipv4_source_def ipv4_header_len_def ingress_counted_def bump_def demo_router_def new_router_def)

text \<open>
  An engine's router is fenced to its engine. Whatever happens between the sections, and even if a route of
  the same identity but of another engine exists, the router of return path \<open>p\<close> never creates a route, and
  a packet it accepts is submitted while \<open>p\<close> is open and the peer's route belongs to \<open>p\<close>; a packet that
  needs the admission's route but finds none of this path is refused with the return route mismatch.
\<close>

theorem owned_router_fenced:
  "(case snd (register_locked (owned_routes F now p) o' rt g) of
      Inr _ \<Rightarrow> has_session_route_with_return_path (ir_fwd g) (po_peer o') (ar_session rt) (ar_connection rt) (ar_ip rt) (ar_backend rt) (Some p)
    | Inl e \<Rightarrow> e = RegistrationFailed ErrReturnRouteMismatch \<and>
        \<not> has_session_route_with_return_path (ir_fwd g) (po_peer o') (ar_session rt) (ar_connection rt) (ar_ip rt) (ar_backend rt) (Some p)) \<and>
   ir_fwd (fst (register_locked (owned_routes F now p) o' rt g)) = ir_fwd g \<and>
   (case snd (submit_packet (owned_routes F now p) nowNs o' pkt g) of
      Inl _ \<Rightarrow> True
    | Inr _ \<Rightarrow> \<not> path_closed (ir_fwd g) p \<and> (\<exists>r route. lookup_route (ir_fwd g) (po_peer o') = Some (r, route) \<and> r_path route = Some p))"
  by (auto simp: register_locked_def owned_routes_def bump_def submit_packet_def route_client_to_backend_with_return_path_def
      route_client_to_backend_on_def client_admit_def Let_def split: sum.splits prod.splits if_splits option.splits)

end
