(* ===== verification/Tunnel_Store.thy ===== *)
theory Tunnel_Store
  imports Models
begin

text \<open>
  The rows of backend tunnels in the configuration database (\<^verbatim>\<open>internal/database/backend_tunnels.go\<close>, the
  table of \<^verbatim>\<open>schema.sql\<close>). A row is the tunnel that scanning it returns: secrets are decrypted again on the
  way out, so encryption at rest is not visible here. Every statement takes \<open>ok\<close>, whether SQLite executed it; a
  statement that fails leaves the table as it was. Identifiers are never reused (\<^verbatim>\<open>AUTOINCREMENT\<close>).
\<close>

record tunnel_store =
  st_rows :: "(int, backend_tunnel) fmap"
  st_next :: int

datatype store_error = StatementFailed | RowNotFound | AdminReasonRefused

definition status_connecting :: string where "status_connecting = ''connecting''"
definition status_degraded :: string where "status_degraded = ''degraded''"
definition status_disabled :: string where "status_disabled = ''disabled''"
definition reason_none :: string where "reason_none = []"
definition reason_health :: string where "reason_health = ''health''"
definition reason_admin :: string where "reason_admin = ''admin''"

text \<open>\<^verbatim>\<open>time.RFC3339\<close> keeps whole seconds; the zero time is stored as nothing.\<close>

definition stored_time :: "time \<Rightarrow> time" where
  "stored_time t = t - t mod second"

section \<open>Reading\<close>

definition scan_backend_tunnel :: "backend_tunnel \<Rightarrow> backend_tunnel" where
  "scan_backend_tunnel t =
     t\<lparr>tun_state_version := (if 0 < tun_state_version t then tun_state_version t else 1),
       tun_last_check := (case tun_last_check t of None \<Rightarrow> None | Some c \<Rightarrow> if c = 0 then None else Some c),
       tun_protocol := (if tun_protocol t \<noteq> [] then tun_protocol t else ''awg'')\<rparr>"

text \<open>\<^verbatim>\<open>ORDER BY id\<close>.\<close>

definition get_backend_tunnels :: "bool \<Rightarrow> tunnel_store \<Rightarrow> store_error + backend_tunnel list" where
  "get_backend_tunnels ok d =
     (if \<not> ok then Inl StatementFailed
      else Inr (map (\<lambda>i. scan_backend_tunnel (the (fmlookup (st_rows d) i))) (sorted_list_of_fset (fmdom (st_rows d)))))"

section \<open>Writing\<close>

definition default_created :: "time \<Rightarrow> backend_tunnel \<Rightarrow> backend_tunnel" where
  "default_created now t =
     t\<lparr>tun_protocol := (if tun_protocol t = [] then ''awg'' else tun_protocol t),
       tun_enabled := (if \<not> tun_enabled t \<and> tun_disable_reason t \<noteq> reason_admin then True else tun_enabled t),
       tun_status := (if tun_status t = [] then status_connecting else tun_status t),
       tun_created_at := (if tun_created_at t = 0 then now else tun_created_at t),
       tun_state_version := (if tun_state_version t \<le> 0 then 1 else tun_state_version t)\<rparr>"

text \<open>The insertion fills defaults into the caller's tunnel; interface names are unique.\<close>

definition create_backend_tunnel :: "bool \<Rightarrow> time \<Rightarrow> backend_tunnel \<Rightarrow> tunnel_store \<Rightarrow> tunnel_store \<times> (store_error + backend_tunnel)" where
  "create_backend_tunnel ok now t d =
     (let t1 = default_created now t in
      if \<not> ok \<or> (\<exists>i \<in> fset (fmdom (st_rows d)). tun_interface (the (fmlookup (st_rows d) i)) = tun_interface t1)
      then (d, Inl StatementFailed)
      else
        let i = st_next d;
            row = t1\<lparr>tun_id := i, tun_created_at := stored_time (tun_created_at t1),
                     tun_last_check := (case tun_last_check t1 of None \<Rightarrow> None
                                        | Some c \<Rightarrow> if c = 0 then None else Some (stored_time c))\<rparr>
        in (d\<lparr>st_rows := fmupd i row (st_rows d), st_next := i + 1\<rparr>, Inr (t1\<lparr>tun_id := i\<rparr>)))"

text \<open>\<open>UPDATE \<dots> WHERE id = ? AND \<dots>\<close>: how many rows matched.\<close>

definition sql_update :: "int \<Rightarrow> (backend_tunnel \<Rightarrow> bool) \<Rightarrow> (backend_tunnel \<Rightarrow> backend_tunnel) \<Rightarrow> tunnel_store \<Rightarrow> tunnel_store \<times> nat" where
  "sql_update i P g d =
     (case fmlookup (st_rows d) i of
        None \<Rightarrow> (d, 0)
      | Some row \<Rightarrow> if P row then (d\<lparr>st_rows := fmupd i (g row) (st_rows d)\<rparr>, 1) else (d, 0))"

text \<open>The generic update of the allowed columns, which are the argument \<open>g\<close>: a missing row is an error.\<close>

definition update_backend_tunnel :: "bool \<Rightarrow> int \<Rightarrow> (backend_tunnel \<Rightarrow> backend_tunnel) \<Rightarrow> tunnel_store \<Rightarrow> tunnel_store \<times> store_error option" where
  "update_backend_tunnel ok i g d =
     (if \<not> ok then (d, Some StatementFailed)
      else case sql_update i (\<lambda>_. True) g d of (d', n) \<Rightarrow> (d', if n = 0 then Some RowNotFound else None))"

definition bump_version :: "backend_tunnel \<Rightarrow> backend_tunnel" where
  "bump_version t = t\<lparr>tun_state_version := tun_state_version t + 1\<rparr>"

definition update_backend_tunnel_status ::
    "bool \<Rightarrow> time \<Rightarrow> int \<Rightarrow> string \<Rightarrow> int \<Rightarrow> tunnel_store \<Rightarrow> tunnel_store \<times> store_error option" where
  "update_backend_tunnel_status ok now i status latency d =
     (if \<not> ok then (d, Some StatementFailed)
      else (fst (sql_update i tun_enabled (\<lambda>t. bump_version (t\<lparr>tun_status := status, tun_latency := latency,
              tun_last_check := Some (stored_time now)\<rparr>)) d), None))"

definition update_backend_tunnel_status_with_reason ::
    "bool \<Rightarrow> time \<Rightarrow> int \<Rightarrow> string \<Rightarrow> string \<Rightarrow> int \<Rightarrow> tunnel_store \<Rightarrow> tunnel_store \<times> store_error option" where
  "update_backend_tunnel_status_with_reason ok now i status reason latency d =
     (if reason = reason_admin then (d, Some AdminReasonRefused)
      else if \<not> ok then (d, Some StatementFailed)
      else (fst (sql_update i tun_enabled (\<lambda>t. bump_version (t\<lparr>tun_status := status, tun_disable_reason := reason,
              tun_latency := latency, tun_last_check := Some (stored_time now)\<rparr>)) d), None))"

definition update_backend_tunnel_enabled ::
    "bool \<Rightarrow> int \<Rightarrow> bool \<Rightarrow> string \<Rightarrow> tunnel_store \<Rightarrow> tunnel_store \<times> store_error option" where
  "update_backend_tunnel_enabled ok i enabled reason d =
     (if \<not> ok then (d, Some StatementFailed)
      else (fst (sql_update i (\<lambda>_. True) (\<lambda>t. bump_version (t\<lparr>tun_enabled := enabled, tun_disable_reason := reason\<rparr>)) d), None))"

definition reset_health :: "backend_tunnel \<Rightarrow> backend_tunnel" where
  "reset_health t = bump_version (t\<lparr>tun_status := status_connecting, tun_disable_reason := reason_none,
     tun_latency := 0, tun_last_check := None\<rparr>)"

definition reset_enabled_health :: "bool \<Rightarrow> tunnel_store \<Rightarrow> tunnel_store \<times> store_error option" where
  "reset_enabled_health ok d =
     (if \<not> ok then (d, Some StatementFailed)
      else (d\<lparr>st_rows := fmmap (\<lambda>t. if tun_enabled t then reset_health t else t) (st_rows d)\<rparr>, None))"

definition update_backend_tunnel_endpoint ::
    "bool \<Rightarrow> int \<Rightarrow> string \<Rightarrow> tunnel_store \<Rightarrow> tunnel_store \<times> store_error option" where
  "update_backend_tunnel_endpoint ok i endpoint d =
     (if \<not> ok then (d, Some StatementFailed)
      else (fst (sql_update i (\<lambda>_. True) (\<lambda>t. bump_version (t\<lparr>tun_endpoint := endpoint\<rparr>)) d), None))"

definition cas_tunnel_status ::
    "bool \<Rightarrow> time \<Rightarrow> int \<Rightarrow> string \<Rightarrow> string \<Rightarrow> int \<Rightarrow> string \<Rightarrow> string \<Rightarrow> int \<Rightarrow> tunnel_store \<Rightarrow>
     tunnel_store \<times> (store_error + bool)" where
  "cas_tunnel_status ok now i expStatus expReason expVersion status reason latency d =
     (if \<not> ok then (d, Inl StatementFailed)
      else case sql_update i
             (\<lambda>t. tun_enabled t \<and> tun_status t = expStatus \<and> tun_disable_reason t = expReason \<and>
                  tun_state_version t = expVersion)
             (\<lambda>t. bump_version (t\<lparr>tun_status := status, tun_disable_reason := reason, tun_latency := latency,
                  tun_last_check := Some (stored_time now)\<rparr>)) d of
             (d', n) \<Rightarrow> (d', Inr (0 < n)))"

definition delete_backend_tunnel :: "bool \<Rightarrow> int \<Rightarrow> tunnel_store \<Rightarrow> tunnel_store \<times> store_error option" where
  "delete_backend_tunnel ok i d =
     (if \<not> ok then (d, Some StatementFailed) else (d\<lparr>st_rows := fmdrop i (st_rows d)\<rparr>, None))"

end
