(* ===== verification/Tunnel_Pool.thy ===== *)
theory Tunnel_Pool
  imports Tunnel_Store Net_Addr
begin

text \<open>
  The pool of backend tunnels (\<^verbatim>\<open>internal/vpn/tunnel/pool.go\<close>, \<^verbatim>\<open>pool_create.go\<close>): three indexes over the same tunnel
  objects, the database rows behind them, the state version that fences late writers, and the
  connection gauges.

  The objects the maps point to are a heap. \<open>ok\<close> says whether a database statement is executed, \<open>now\<close> is the
  pool's clock and \<open>dbnow\<close> the database's. Key generation and JSON decoding are arguments.
\<close>

type_synonym tun_ref = nat

record tunnel_pool =
  tp_by_server :: "(int, tun_ref) fmap"
  tp_by_id :: "(int, tun_ref) fmap"
  tp_by_ifname :: "(string, tun_ref) fmap"
  tp_heap :: "(tun_ref, backend_tunnel) fmap"
  tp_next :: tun_ref
  tp_closed :: bool
  tp_multi :: bool
  tp_db :: "tunnel_store option"

datatype tunnel_error =
    ErrTunnelNotFound
  | ErrPoolClosed
  | ErrStaleStateVersion
  | PersistFailed store_error
  | AdminStateRefused
  | HookFailed
  | TargetNotEligible
  | TargetVersionMismatch
  | InvalidArgument
  | UnsupportedProtocol
  | MultiProtocolDisabled
  | BadProtocolParams
  | ProtocolChangeRefused
  | KeyGenerationFailed

definition new_pool :: "tunnel_store option \<Rightarrow> tunnel_pool" where
  "new_pool db = \<lparr>tp_by_server = fmempty, tp_by_id = fmempty, tp_by_ifname = fmempty, tp_heap = fmempty, tp_next = 0,
     tp_closed = False, tp_multi = False, tp_db = db\<rparr>"

definition set_multi_protocol :: "bool \<Rightarrow> tunnel_pool \<Rightarrow> tunnel_pool" where
  "set_multi_protocol b p = p\<lparr>tp_multi := b\<rparr>"

definition server_tunnel :: "tunnel_pool \<Rightarrow> int \<Rightarrow> (tun_ref \<times> backend_tunnel) option" where
  "server_tunnel p s =
     (case fmlookup (tp_by_server p) s of
        None \<Rightarrow> None
      | Some r \<Rightarrow> (case fmlookup (tp_heap p) r of None \<Rightarrow> None | Some t \<Rightarrow> Some (r, t)))"

definition id_tunnel :: "tunnel_pool \<Rightarrow> int \<Rightarrow> (tun_ref \<times> backend_tunnel) option" where
  "id_tunnel p i =
     (case fmlookup (tp_by_id p) i of
        None \<Rightarrow> None
      | Some r \<Rightarrow> (case fmlookup (tp_heap p) r of None \<Rightarrow> None | Some t \<Rightarrow> Some (r, t)))"

definition put_tunnel :: "tun_ref \<Rightarrow> backend_tunnel \<Rightarrow> tunnel_pool \<Rightarrow> tunnel_pool" where
  "put_tunnel r t p = p\<lparr>tp_heap := fmupd r t (tp_heap p)\<rparr>"

text \<open>A database call of an operation; a pool without a database skips it.\<close>

definition db_call :: "(tunnel_store \<Rightarrow> tunnel_store \<times> store_error option) \<Rightarrow> tunnel_pool \<Rightarrow> tunnel_pool \<times> tunnel_error option" where
  "db_call f p =
     (case tp_db p of
        None \<Rightarrow> (p, None)
      | Some d \<Rightarrow> (case f d of (d', e) \<Rightarrow> (p\<lparr>tp_db := Some d'\<rparr>, map_option PersistFailed e)))"

section \<open>Queries\<close>

definition get_tunnel :: "tunnel_pool \<Rightarrow> int \<Rightarrow> tunnel_error + backend_tunnel" where
  "get_tunnel p s = (case server_tunnel p s of None \<Rightarrow> Inl ErrTunnelNotFound | Some (r, t) \<Rightarrow> Inr t)"

definition get_tunnel_by_id :: "tunnel_pool \<Rightarrow> int \<Rightarrow> tunnel_error + backend_tunnel" where
  "get_tunnel_by_id p i = (case id_tunnel p i of None \<Rightarrow> Inl ErrTunnelNotFound | Some (r, t) \<Rightarrow> Inr t)"

definition get_tunnel_by_interface :: "tunnel_pool \<Rightarrow> string \<Rightarrow> tunnel_error + backend_tunnel" where
  "get_tunnel_by_interface p n =
     (case fmlookup (tp_by_ifname p) n of
        None \<Rightarrow> Inl ErrTunnelNotFound
      | Some r \<Rightarrow> (case fmlookup (tp_heap p) r of None \<Rightarrow> Inl ErrTunnelNotFound | Some t \<Rightarrow> Inr t))"

definition list_tunnels :: "(int fset \<Rightarrow> int list) \<Rightarrow> tunnel_pool \<Rightarrow> backend_tunnel list" where
  "list_tunnels ord p =
     concat (map (\<lambda>s. case server_tunnel p s of None \<Rightarrow> [] | Some (r, t) \<Rightarrow> [t]) (ord (fmdom (tp_by_server p))))"

definition active_here :: "tunnel_pool \<Rightarrow> backend_tunnel \<Rightarrow> bool" where
  "active_here p t \<longleftrightarrow> tun_enabled t \<and> tun_status t = ''active'' \<and>
     (tp_multi p \<or> normalize_tunnel_protocol (tun_protocol t) = ''awg'')"

definition get_active_tunnels :: "(int fset \<Rightarrow> int list) \<Rightarrow> tunnel_pool \<Rightarrow> backend_tunnel list" where
  "get_active_tunnels ord p = filter (active_here p) (list_tunnels ord p)"

section \<open>Loading\<close>

definition index_tunnel :: "backend_tunnel \<Rightarrow> tunnel_pool \<Rightarrow> tunnel_pool" where
  "index_tunnel t p =
     (let r = tp_next p in
      p\<lparr>tp_by_server := fmupd (tun_server t) r (tp_by_server p), tp_by_id := fmupd (tun_id t) r (tp_by_id p),
        tp_by_ifname := fmupd (tun_interface t) r (tp_by_ifname p), tp_heap := fmupd r t (tp_heap p), tp_next := r + 1\<rparr>)"

type_synonym key_result = "unit + string \<times> string"

text \<open>One row: a missing probe key is generated and, as far as that works, stored.\<close>

definition sync_row :: "key_result \<Rightarrow> bool \<Rightarrow> backend_tunnel \<Rightarrow> tunnel_pool \<Rightarrow> tunnel_pool" where
  "sync_row kg ok t p =
     (let t1 = (if tun_state_version t \<le> 0 then t\<lparr>tun_state_version := 1\<rparr> else t) in
      if normalize_tunnel_protocol (tun_protocol t1) = ''awg'' \<and> tun_probe_key t1 = [] then
        (case kg of
           Inl _ \<Rightarrow> index_tunnel t1 p
         | Inr (pk, sk) \<Rightarrow>
             index_tunnel (t1\<lparr>tun_probe_key := sk\<rparr>)
               (fst (db_call (update_backend_tunnel ok (tun_id t1) (\<lambda>row. row\<lparr>tun_probe_key := sk\<rparr>)) p)))
      else index_tunnel t1 p)"

definition sync_from_db :: "bool \<Rightarrow> (nat \<Rightarrow> key_result) \<Rightarrow> (nat \<Rightarrow> bool) \<Rightarrow> tunnel_pool \<Rightarrow> tunnel_pool \<times> tunnel_error option" where
  "sync_from_db ok kg oks p =
     (case tp_db p of
        None \<Rightarrow> (p, None)
      | Some d \<Rightarrow>
          (case get_backend_tunnels ok d of
             Inl e \<Rightarrow> (p, Some (PersistFailed e))
           | Inr ts \<Rightarrow> (fold (\<lambda>(k, t). sync_row (kg k) (oks k) t) (enumerate 0 ts) p, None)))"

text \<open>Every enabled backend starts without a health claim.\<close>

definition reset_enabled_health_for_startup :: "bool \<Rightarrow> tunnel_pool \<Rightarrow> tunnel_pool \<times> tunnel_error option" where
  "reset_enabled_health_for_startup ok p =
     (case db_call (reset_enabled_health ok) p of
        (p1, Some e) \<Rightarrow> (p1, Some e)
      | (p1, None) \<Rightarrow>
          (p1\<lparr>tp_heap := fmmap_keys (\<lambda>r t. if r |\<in>| fmran (tp_by_server p1) \<and> tun_enabled t then reset_health t else t) (tp_heap p1)\<rparr>,
           None))"

section \<open>Status and administrative intent\<close>

definition written :: "string \<Rightarrow> string \<Rightarrow> int \<Rightarrow> time \<Rightarrow> backend_tunnel \<Rightarrow> backend_tunnel" where
  "written status reason latency now t =
     bump_version (t\<lparr>tun_status := status, tun_disable_reason := reason, tun_latency := latency, tun_last_check := Some now\<rparr>)"

definition reason_after :: "string \<Rightarrow> string \<Rightarrow> string" where
  "reason_after status reason =
     (if status = status_active then reason_none else if status = status_disabled then reason_health else reason)"

text \<open>The database side of \<open>setTunnelStatus\<close>; \<open>None\<close> means that the write may go to memory.\<close>

definition persist_status ::
    "bool \<Rightarrow> time \<Rightarrow> backend_tunnel \<Rightarrow> int \<Rightarrow> string \<Rightarrow> string \<Rightarrow> int \<Rightarrow> tunnel_pool \<Rightarrow> tunnel_pool \<times> tunnel_error option" where
  "persist_status ok dbnow t expVersion status reason latency p =
     (case tp_db p of
        None \<Rightarrow> (p, None)
      | Some d \<Rightarrow>
          if 0 < expVersion then
            (case cas_tunnel_status ok dbnow (tun_id t) (tun_status t) (tun_disable_reason t) expVersion status reason latency d of
               (d', Inl e) \<Rightarrow> (p\<lparr>tp_db := Some d'\<rparr>, Some (PersistFailed e))
             | (d', Inr swapped) \<Rightarrow> (p\<lparr>tp_db := Some d'\<rparr>, if swapped then None else Some ErrStaleStateVersion))
          else if reason \<noteq> tun_disable_reason t
          then db_call (update_backend_tunnel_status_with_reason ok dbnow (tun_id t) status reason latency) p
          else db_call (update_backend_tunnel_status ok dbnow (tun_id t) status latency) p)"

definition set_tunnel_status_gen ::
    "bool \<Rightarrow> time \<Rightarrow> time \<Rightarrow> int \<Rightarrow> int \<Rightarrow> int \<Rightarrow> string \<Rightarrow> int \<Rightarrow> tunnel_pool \<Rightarrow> tunnel_pool \<times> tunnel_error option" where
  "set_tunnel_status_gen ok dbnow now s expId expVersion status latency p =
     (case server_tunnel p s of
        None \<Rightarrow> (p, Some ErrTunnelNotFound)
      | Some (r, t) \<Rightarrow>
          if expId \<noteq> 0 \<and> tun_id t \<noteq> expId then (p, Some ErrTunnelNotFound)
          else if 0 < expVersion \<and> tun_state_version t \<noteq> expVersion then (p, Some ErrStaleStateVersion)
          else if \<not> tun_enabled t then (p, None)
          else
            let reason = reason_after status (tun_disable_reason t) in
            case persist_status ok dbnow t expVersion status reason latency p of
              (p1, Some e) \<Rightarrow> (p1, Some e)
            | (p1, None) \<Rightarrow> (put_tunnel r (written status reason latency now t) p1, None))"

definition set_tunnel_status where
  "set_tunnel_status ok dbnow now s status latency p = set_tunnel_status_gen ok dbnow now s 0 0 status latency p"

definition set_tunnel_status_if_current where
  "set_tunnel_status_if_current ok dbnow now s expId status latency p =
     (if expId = 0 then (p, Some ErrTunnelNotFound) else set_tunnel_status_gen ok dbnow now s expId 0 status latency p)"

definition set_tunnel_status_if_current_with_version where
  "set_tunnel_status_if_current_with_version ok dbnow now s expId expVersion status latency p =
     (if expId = 0 then (p, Some ErrTunnelNotFound) else set_tunnel_status_gen ok dbnow now s expId expVersion status latency p)"

definition set_tunnel_status_with_reason ::
    "bool \<Rightarrow> time \<Rightarrow> time \<Rightarrow> int \<Rightarrow> string \<Rightarrow> string \<Rightarrow> int \<Rightarrow> tunnel_pool \<Rightarrow> tunnel_pool \<times> tunnel_error option" where
  "set_tunnel_status_with_reason ok dbnow now s status reason latency p =
     (if reason = reason_admin then (p, Some AdminStateRefused)
      else case server_tunnel p s of
        None \<Rightarrow> (p, Some ErrTunnelNotFound)
      | Some (r, t) \<Rightarrow>
          if \<not> tun_enabled t then (p, None)
          else case db_call (update_backend_tunnel_status_with_reason ok dbnow (tun_id t) status reason latency) p of
                 (p1, Some e) \<Rightarrow> (p1, Some e)
               | (p1, None) \<Rightarrow> (put_tunnel r (written status reason latency now t) p1, None))"

definition set_tunnel_enabled :: "bool \<Rightarrow> bool \<Rightarrow> int \<Rightarrow> bool \<Rightarrow> string \<Rightarrow> tunnel_pool \<Rightarrow> tunnel_pool \<times> tunnel_error option" where
  "set_tunnel_enabled hookOk ok s enabled reason p =
     (case server_tunnel p s of
        None \<Rightarrow> (p, Some ErrTunnelNotFound)
      | Some (r, t) \<Rightarrow>
          if tun_enabled t = enabled \<and> tun_disable_reason t = reason then (p, None)
          else if \<not> hookOk then (p, Some HookFailed)
          else
            let eff = (if tun_disable_reason t = reason_health then reason_health else reason) in
            case db_call (update_backend_tunnel_enabled ok (tun_id t) enabled eff) p of
              (p1, Some e) \<Rightarrow> (p1, Some e)
            | (p1, None) \<Rightarrow>
                (put_tunnel r (bump_version (t\<lparr>tun_enabled := enabled, tun_disable_reason := eff\<rparr>)) p1, None))"

definition compare_and_swap ::
    "bool \<Rightarrow> time \<Rightarrow> time \<Rightarrow> int \<Rightarrow> int \<Rightarrow> string \<Rightarrow> string \<Rightarrow> int \<Rightarrow> string \<Rightarrow> string \<Rightarrow> int \<Rightarrow> tunnel_pool \<Rightarrow>
     tunnel_pool \<times> (tunnel_error + bool)" where
  "compare_and_swap ok dbnow now s expId expStatus expReason expVersion status reason latency p =
     (case server_tunnel p s of
        None \<Rightarrow> (p, Inl ErrTunnelNotFound)
      | Some (r, t) \<Rightarrow>
          if expId \<noteq> 0 \<and> tun_id t \<noteq> expId then (p, Inl ErrTunnelNotFound)
          else if tun_status t \<noteq> expStatus \<or> tun_disable_reason t \<noteq> expReason \<or> tun_state_version t \<noteq> expVersion
          then (p, Inr False)
          else if \<not> tun_enabled t then (p, Inr False)
          else
            case (case tp_db p of
                    None \<Rightarrow> (p, Inr True)
                  | Some d \<Rightarrow>
                      (case cas_tunnel_status ok dbnow (tun_id t) expStatus expReason expVersion status reason latency d of
                         (d', res) \<Rightarrow> (p\<lparr>tp_db := Some d'\<rparr>, res))) of
              (p1, Inl e) \<Rightarrow> (p1, Inl (PersistFailed e))
            | (p1, Inr False) \<Rightarrow> (p1, Inr False)
            | (p1, Inr True) \<Rightarrow> (put_tunnel r (written status reason latency now t) p1, Inr True))"

definition cas_for_tunnel where
  "cas_for_tunnel ok dbnow now s expId expStatus expReason expVersion status reason latency p =
     (if expId = 0 then (p, Inl ErrTunnelNotFound)
      else compare_and_swap ok dbnow now s expId expStatus expReason expVersion status reason latency p)"

section \<open>Endpoint and identity\<close>

definition set_tunnel_endpoint :: "bool \<Rightarrow> bool \<Rightarrow> int \<Rightarrow> string \<Rightarrow> tunnel_pool \<Rightarrow> tunnel_pool \<times> tunnel_error option" where
  "set_tunnel_endpoint hookOk ok i endpoint p =
     (if \<not> hookOk then (p, Some HookFailed)
      else if tp_closed p then (p, Some ErrPoolClosed)
      else case id_tunnel p i of
        None \<Rightarrow> (p, Some ErrTunnelNotFound)
      | Some (r, t) \<Rightarrow>
          (case db_call (update_backend_tunnel_endpoint ok (tun_id t) endpoint) p of
             (p1, Some e) \<Rightarrow> (p1, Some e)
           | (p1, None) \<Rightarrow> (put_tunnel r ((bump_version t)\<lparr>tun_endpoint := endpoint\<rparr>) p1, None)))"

definition next_version :: "backend_tunnel \<Rightarrow> int" where
  "next_version t = (if tun_state_version t \<le> 0 then 2 else tun_state_version t + 1)"

definition set_tunnel_public_key :: "bool \<Rightarrow> bool \<Rightarrow> int \<Rightarrow> string \<Rightarrow> tunnel_pool \<Rightarrow> tunnel_pool \<times> tunnel_error option" where
  "set_tunnel_public_key hookOk ok i key p =
     (if \<not> hookOk then (p, Some HookFailed)
      else if tp_closed p then (p, Some ErrPoolClosed)
      else case id_tunnel p i of
        None \<Rightarrow> (p, Some ErrTunnelNotFound)
      | Some (r, t) \<Rightarrow>
          if tun_public_key t = key then (p, None)
          else
            let v = next_version t in
            case db_call (update_backend_tunnel ok (tun_id t) (\<lambda>row. row\<lparr>tun_public_key := key, tun_state_version := v\<rparr>)) p of
              (p1, Some e) \<Rightarrow> (p1, Some e)
            | (p1, None) \<Rightarrow> (put_tunnel r (t\<lparr>tun_state_version := v, tun_public_key := key\<rparr>) p1, None))"

section \<open>Connection gauges\<close>

text \<open>The count is persisted after the lock has been released; a failure of that write is only logged.\<close>

definition persist_connection_count :: "bool \<Rightarrow> int \<Rightarrow> int \<Rightarrow> tunnel_pool \<Rightarrow> tunnel_pool" where
  "persist_connection_count ok i n p = fst (db_call (update_backend_tunnel ok i (\<lambda>row. row\<lparr>tun_conns := n\<rparr>)) p)"

definition increment_connections :: "bool \<Rightarrow> int \<Rightarrow> tunnel_pool \<Rightarrow> tunnel_pool" where
  "increment_connections ok i p =
     (case id_tunnel p i of
        None \<Rightarrow> p
      | Some (r, t) \<Rightarrow>
          let n = tun_conns t + 1 in persist_connection_count ok (tun_id t) n (put_tunnel r (t\<lparr>tun_conns := n\<rparr>) p))"

definition floored :: "int \<Rightarrow> int" where
  "floored n = (if 0 < n then n - 1 else n)"

definition decrement_connections :: "bool \<Rightarrow> int \<Rightarrow> tunnel_pool \<Rightarrow> tunnel_pool" where
  "decrement_connections ok i p =
     (case id_tunnel p i of
        None \<Rightarrow> p
      | Some (r, t) \<Rightarrow>
          let n = floored (tun_conns t) in
          persist_connection_count ok (tun_id t) n (put_tunnel r (t\<lparr>tun_conns := n\<rparr>) p))"

text \<open>The source of a transfer loses one; what has to be persisted for it is returned.\<close>

definition take_from :: "int \<Rightarrow> tunnel_pool \<Rightarrow> tunnel_pool \<times> int \<times> int" where
  "take_from from p =
     (case id_tunnel p from of
        None \<Rightarrow> (p, 0, 0)
      | Some (r, t) \<Rightarrow> let n = floored (tun_conns t) in (put_tunnel r (t\<lparr>tun_conns := n\<rparr>) p, tun_id t, n))"

definition transfer_connections :: "bool \<Rightarrow> bool \<Rightarrow> int \<Rightarrow> int \<Rightarrow> int option \<Rightarrow> tunnel_pool \<Rightarrow> tunnel_pool \<times> tunnel_error option" where
  "transfer_connections ok1 ok2 from to expVersion p =
     (if tp_closed p then (p, Some ErrPoolClosed)
      else case id_tunnel p to of
        None \<Rightarrow> (p, Some ErrTunnelNotFound)
      | Some (rt, tt) \<Rightarrow>
          if \<not> tun_enabled tt \<or> \<not> equal_fold (tun_status tt) ''active'' then (p, Some TargetNotEligible)
          else if (case expVersion of None \<Rightarrow> False | Some v \<Rightarrow> 0 < v \<and> tun_state_version tt \<noteq> v)
          then (p, Some TargetVersionMismatch)
          else
            let (p1, fromId, fromCount) = take_from from p
            in case fmlookup (tp_heap p1) rt of
                 None \<Rightarrow> (p1, None)
               | Some t' \<Rightarrow>
                   let p2 = put_tunnel rt (t'\<lparr>tun_conns := tun_conns t' + 1\<rparr>) p1;
                       p3 = (if 0 < fromId then persist_connection_count ok1 fromId fromCount p2 else p2)
                   in (if 0 < tun_id t' then persist_connection_count ok2 (tun_id t') (tun_conns t' + 1) p3 else p3, None))"

definition set_connection_count :: "bool \<Rightarrow> int \<Rightarrow> int \<Rightarrow> tunnel_pool \<Rightarrow> tunnel_pool \<times> tunnel_error option" where
  "set_connection_count ok i cnt p =
     (case id_tunnel p i of
        None \<Rightarrow> (p, Some ErrTunnelNotFound)
      | Some (r, t) \<Rightarrow>
          let n = (if cnt < 0 then 0 else cnt)
          in db_call (update_backend_tunnel ok (tun_id t) (\<lambda>row. row\<lparr>tun_conns := n\<rparr>)) (put_tunnel r (t\<lparr>tun_conns := n\<rparr>) p))"

section \<open>Adding and removing\<close>

definition is_supported_backend_protocol :: "string \<Rightarrow> bool" where
  "is_supported_backend_protocol proto \<longleftrightarrow> normalize_tunnel_protocol proto \<in> {''awg'', ''vless'', ''naive''}"

definition equal_json :: "(string \<Rightarrow> string \<Rightarrow> bool) \<Rightarrow> string \<Rightarrow> string \<Rightarrow> bool" where
  "equal_json decodedEqual a b \<longleftrightarrow>
     a = b \<or> (if a = [] \<or> b = [] then a = [] \<and> b = [] else decodedEqual a b)"

definition same_tunnel_identity :: "(string \<Rightarrow> string \<Rightarrow> bool) \<Rightarrow> backend_tunnel \<Rightarrow> backend_tunnel \<Rightarrow> bool" where
  "same_tunnel_identity decodedEqual a b \<longleftrightarrow>
     (if tun_id a \<noteq> tun_id b \<or> tun_endpoint a \<noteq> tun_endpoint b then False
      else
        let protoA = normalize_tunnel_protocol (tun_protocol a); protoB = normalize_tunnel_protocol (tun_protocol b)
        in if protoA \<noteq> protoB then False
           else if protoA = ''awg'' then tun_public_key a = tun_public_key b \<and> tun_private_key a = tun_private_key b \<and>
                  tun_probe_key a = tun_probe_key b
           else equal_json decodedEqual (tun_params a) (tun_params b))"

text \<open>The changed fields of an existing tunnel, persisted and then installed; the version moves with the identity.\<close>

definition install_update ::
    "bool \<Rightarrow> (string \<Rightarrow> string \<Rightarrow> bool) \<Rightarrow> (backend_tunnel \<Rightarrow> backend_tunnel) \<Rightarrow> backend_tunnel \<Rightarrow> tun_ref \<Rightarrow> backend_tunnel \<Rightarrow>
     tunnel_pool \<Rightarrow> tunnel_pool \<times> (tunnel_error + backend_tunnel)" where
  "install_update ok decodedEqual upd cand r existing p =
     (let changed = (\<not> same_tunnel_identity decodedEqual existing cand);
          v = (if changed then next_version existing else tun_state_version existing);
          versioned = (\<lambda>t. if changed then t\<lparr>tun_state_version := v\<rparr> else t)
      in case db_call (update_backend_tunnel ok (tun_id existing) (\<lambda>row. versioned (upd row))) p of
           (p1, Some e) \<Rightarrow> (p1, Inl e)
         | (p1, None) \<Rightarrow> (put_tunnel r (versioned (upd existing)) p1, Inr (versioned (upd existing))))"

text \<open>A key that is generated only when it is missing; \<open>kg k\<close> is the outcome of the \<open>k\<close>-th generation.\<close>

definition ensure_key :: "(nat \<Rightarrow> key_result) \<Rightarrow> nat \<Rightarrow> string \<Rightarrow> (string \<times> nat) option" where
  "ensure_key kg k key =
     (if key \<noteq> [] then Some (key, k) else case kg k of Inl _ \<Rightarrow> None | Inr (pk, sk) \<Rightarrow> Some (sk, k + 1))"

definition blank_tunnel :: "int \<Rightarrow> string \<Rightarrow> string \<Rightarrow> time \<Rightarrow> string \<Rightarrow> backend_tunnel" where
  "blank_tunnel s ifname endpoint now proto =
     \<lparr>tun_id = 0, tun_server = s, tun_interface = ifname, tun_public_key = [], tun_private_key = [], tun_probe_key = [],
      tun_endpoint = endpoint, tun_enabled = True, tun_status = status_connecting, tun_disable_reason = reason_none,
      tun_state_version = 1, tun_last_check = None, tun_latency = 0, tun_conns = 0, tun_created_at = now,
      tun_protocol = proto, tun_params = []\<rparr>"

definition update_existing ::
    "bool \<Rightarrow> (string \<Rightarrow> string \<Rightarrow> bool) \<Rightarrow> (nat \<Rightarrow> key_result) \<Rightarrow> string \<Rightarrow> string \<Rightarrow> string \<Rightarrow> string \<Rightarrow> tun_ref \<Rightarrow> backend_tunnel \<Rightarrow>
     tunnel_pool \<Rightarrow> tunnel_pool \<times> (tunnel_error + backend_tunnel)" where
  "update_existing ok decodedEqual kg endpoint serverPub proto params r existing p =
     (if normalize_tunnel_protocol (tun_protocol existing) \<noteq> proto then (p, Inl ProtocolChangeRefused)
      else if proto = ''awg'' then
        let pub = (if serverPub = [] then tun_public_key existing else serverPub) in
        case ensure_key kg 0 (tun_private_key existing) of
          None \<Rightarrow> (p, Inl KeyGenerationFailed)
        | Some (priv, k) \<Rightarrow>
            (case ensure_key kg k (tun_probe_key existing) of
               None \<Rightarrow> (p, Inl KeyGenerationFailed)
             | Some (probe, _) \<Rightarrow>
                 let upd = (\<lambda>t. t\<lparr>tun_endpoint := endpoint, tun_public_key := pub, tun_private_key := priv, tun_probe_key := probe\<rparr>)
                 in install_update ok decodedEqual upd ((upd existing)\<lparr>tun_protocol := ''awg''\<rparr>) r existing p)
      else
        let upd = (\<lambda>t. t\<lparr>tun_endpoint := endpoint, tun_protocol := proto, tun_params := params\<rparr>)
        in install_update ok decodedEqual upd (upd existing) r existing p)"

definition fresh_tunnel :: "(nat \<Rightarrow> key_result) \<Rightarrow> time \<Rightarrow> int \<Rightarrow> string \<Rightarrow> string \<Rightarrow> string \<Rightarrow> string \<Rightarrow> backend_tunnel option" where
  "fresh_tunnel kg now s endpoint serverPub proto params =
     (let base = blank_tunnel s (proto @ ''-be-'' @ dec (nat s)) endpoint now proto in
      if proto = ''awg'' then
        (case kg 0 of
           Inl _ \<Rightarrow> None
         | Inr (pk, sk) \<Rightarrow>
             (case kg 1 of
                Inl _ \<Rightarrow> None
              | Inr (_, probe) \<Rightarrow>
                  Some (base\<lparr>tun_public_key := (if serverPub = [] then pk else serverPub), tun_private_key := sk,
                             tun_probe_key := probe, tun_status := status_active, tun_last_check := Some now,
                             tun_latency := 10\<rparr>)))
      else Some (base\<lparr>tun_params := params\<rparr>))"

definition create_tunnel :: "bool \<Rightarrow> time \<Rightarrow> backend_tunnel \<Rightarrow> tunnel_pool \<Rightarrow> tunnel_pool \<times> (tunnel_error + backend_tunnel)" where
  "create_tunnel ok dbnow t p =
     (case tp_db p of
        None \<Rightarrow> let t1 = t\<lparr>tun_id := tun_server t\<rparr> in (index_tunnel t1 p, Inr t1)
      | Some d \<Rightarrow>
          (case create_backend_tunnel ok dbnow t d of
             (d', Inl e) \<Rightarrow> (p\<lparr>tp_db := Some d'\<rparr>, Inl (PersistFailed e))
           | (d', Inr t1) \<Rightarrow> (index_tunnel t1 (p\<lparr>tp_db := Some d'\<rparr>), Inr t1)))"

text \<open>\<open>jsonOk\<close> tells whether parameters decode into the structure of a protocol.\<close>

definition add_tunnel_with_config ::
    "bool \<Rightarrow> (string \<Rightarrow> string \<Rightarrow> bool) \<Rightarrow> (string \<Rightarrow> string \<Rightarrow> bool) \<Rightarrow> (nat \<Rightarrow> key_result) \<Rightarrow> time \<Rightarrow> time \<Rightarrow> int \<Rightarrow> string \<Rightarrow> string \<Rightarrow>
     string \<Rightarrow> string \<Rightarrow> tunnel_pool \<Rightarrow> tunnel_pool \<times> (tunnel_error + backend_tunnel)" where
  "add_tunnel_with_config ok jsonOk decodedEqual kg dbnow now s endpoint serverPub protocol params p =
     (let proto = normalize_tunnel_protocol protocol in
      if s \<le> 0 \<or> endpoint = [] then (p, Inl InvalidArgument)
      else if \<not> is_supported_backend_protocol proto then (p, Inl UnsupportedProtocol)
      else if tp_closed p then (p, Inl ErrPoolClosed)
      else if proto \<noteq> ''awg'' \<and> \<not> tp_multi p then (p, Inl MultiProtocolDisabled)
      else if proto \<noteq> ''awg'' \<and> (params = [] \<or> \<not> jsonOk proto params) then (p, Inl BadProtocolParams)
      else case server_tunnel p s of
        Some (r, existing) \<Rightarrow> update_existing ok decodedEqual kg endpoint serverPub proto params r existing p
      | None \<Rightarrow>
          (case fresh_tunnel kg now s endpoint serverPub proto params of
             None \<Rightarrow> (p, Inl KeyGenerationFailed)
           | Some t \<Rightarrow> create_tunnel ok dbnow t p))"

definition remove_tunnel :: "bool \<Rightarrow> int \<Rightarrow> tunnel_pool \<Rightarrow> tunnel_pool \<times> tunnel_error option" where
  "remove_tunnel ok s p =
     (case server_tunnel p s of
        None \<Rightarrow> (p, Some ErrTunnelNotFound)
      | Some (r, t) \<Rightarrow>
          (case db_call (delete_backend_tunnel ok (tun_id t)) p of
             (p1, Some e) \<Rightarrow> (p1, Some e)
           | (p1, None) \<Rightarrow>
               (p1\<lparr>tp_by_server := fmdrop s (tp_by_server p1), tp_by_id := fmdrop (tun_id t) (tp_by_id p1),
                   tp_by_ifname := fmdrop (tun_interface t) (tp_by_ifname p1)\<rparr>, None)))"

definition close_pool :: "tunnel_pool \<Rightarrow> tunnel_pool" where
  "close_pool p = p\<lparr>tp_closed := True\<rparr>"

end
