(* ===== verification/Tunnel_Health.thy ===== *)
theory Tunnel_Health
  imports Tunnel_Pool
begin

text \<open>
  The health prober of the backend tunnels (\<^verbatim>\<open>internal/vpn/tunnel/health.go\<close>, \<^verbatim>\<open>health_canary_history.go\<close>,
  \<^verbatim>\<open>health_disable_notify.go\<close>, \<^verbatim>\<open>health_loop.go\<close>, \<^verbatim>\<open>health_selfheal.go\<close> and the dispatch of the probes): consecutive failures of the outer
  handshake and of the inner canary, the transitions of a backend's status they cause, promotion, and self-healing.

  What the prober calls outside its package is a record of functions, \<open>prober_io\<close>: the probes, the canary, the hooks and the
  notifier. They run without any lock held and take the world to any other, so whatever other goroutines do while they run is
  part of their result; the test synchronisation hooks of the code mark three further such points. \<open>hw_reported\<close> lists
  the backends handed to the notifier, and \<open>hw_stmt\<close> numbers the database statements: \<open>io_ok n\<close> says whether
  statement \<open>n\<close> is executed and \<open>io_now n\<close> when. A \<^verbatim>\<open>*BackendTunnel\<close> argument is never nil here.
\<close>

section \<open>State\<close>

record health_config =
  hc_interval :: duration
  hc_timeout :: duration
  hc_latency_threshold :: int
  hc_failure_threshold :: int
  hc_h1 :: "32 word"
  hc_h2 :: "32 word"
  hc_s1 :: int
  hc_s2 :: int
  hc_heal_interval :: duration
  hc_heal_threshold :: int
  hc_no_heal :: bool
  hc_subnet :: string

definition default_health_config :: health_config where
  "default_health_config =
     \<lparr>hc_interval = 10 * second, hc_timeout = 3 * second, hc_latency_threshold = 500, hc_failure_threshold = 3,
      hc_h1 = 1020325451, hc_h2 = 3288052141, hc_s1 = 15, hc_s2 = 40, hc_heal_interval = 60 * second, hc_heal_threshold = 2,
      hc_no_heal = False, hc_subnet = ''10.100.0.0/16''\<rparr>"

record canary_result =
  cr_tunnel :: int
  cr_sequence :: "64 word"

record prober =
  hp_cfg :: health_config
  hp_multi :: bool
  hp_fail :: "(int, int) fmap"
  hp_canary_fail :: "(int, int) fmap"
  hp_canary_seq :: "64 word"
  hp_canary_results :: "(int, canary_result) fmap"
  hp_auto :: "(int, bool) fmap"
  hp_success :: "(int, int) fmap"
  hp_generations :: "(int, int) fmap"

text \<open>Reading a Go map whose key may be missing gives the zero value.\<close>

definition or_zero :: "('k, int) fmap \<Rightarrow> 'k \<Rightarrow> int" where
  "or_zero m k = (case fmlookup m k of None \<Rightarrow> 0 | Some n \<Rightarrow> n)"

definition result_of :: "prober \<Rightarrow> int \<Rightarrow> canary_result" where
  "result_of h s = (case fmlookup (hp_canary_results h) s of None \<Rightarrow> \<lparr>cr_tunnel = 0, cr_sequence = 0\<rparr> | Some r \<Rightarrow> r)"

definition filled_config :: "health_config \<Rightarrow> health_config" where
  "filled_config c =
     \<lparr>hc_interval = (if hc_interval c \<le> 0 then 10 * second else hc_interval c),
      hc_timeout = (if hc_timeout c \<le> 0 then 3 * second else hc_timeout c),
      hc_latency_threshold = (if hc_latency_threshold c \<le> 0 then 500 else hc_latency_threshold c),
      hc_failure_threshold = (if hc_failure_threshold c \<le> 0 then 3 else hc_failure_threshold c),
      hc_h1 = (if hc_h1 c = 0 then 1020325451 else hc_h1 c),
      hc_h2 = (if hc_h2 c = 0 then 3288052141 else hc_h2 c),
      hc_s1 = (if hc_s1 c < 0 then 15 else hc_s1 c),
      hc_s2 = (if hc_s2 c < 0 then 40 else hc_s2 c),
      hc_heal_interval = (if hc_heal_interval c \<le> 0 then 60 * second else hc_heal_interval c),
      hc_heal_threshold = (if hc_heal_threshold c \<le> 0 then 2 else hc_heal_threshold c),
      hc_no_heal = hc_no_heal c,
      hc_subnet = (if hc_subnet c = [] then ''10.100.0.0/16'' else hc_subnet c)\<rparr>"

definition new_health_prober :: "health_config \<Rightarrow> prober" where
  "new_health_prober c =
     \<lparr>hp_cfg = filled_config c, hp_multi = False, hp_fail = fmempty, hp_canary_fail = fmempty, hp_canary_seq = 0,
      hp_canary_results = fmempty, hp_auto = fmempty, hp_success = fmempty, hp_generations = fmempty\<rparr>"

text \<open>A prober without a pool is one of the package's tests; the service always gives it one.\<close>

record health_world =
  hw_prober :: prober
  hw_pool :: "tunnel_pool option"
  hw_stmt :: nat
  hw_reported :: "backend_tunnel list"

datatype health_error =
    PoolError tunnel_error
  | ErrTunnelDisabled
  | ProbeFailed
  | UnsupportedProbe
  | BadProbeParams
  | CanaryFailed
  | CanaryCancelled
  | HookError
  | ReadinessFailed health_error

record prober_io =
  io_probe :: "string \<Rightarrow> backend_tunnel \<Rightarrow> health_world \<Rightarrow> health_world \<times> (health_error + int)"
  io_decodes :: "string \<Rightarrow> string \<Rightarrow> bool"
  io_has_canary :: "backend_tunnel \<Rightarrow> bool"
  io_canary :: "backend_tunnel \<Rightarrow> health_world \<Rightarrow> health_world \<times> health_error option"
  io_canary_done :: "int \<Rightarrow> health_world \<Rightarrow> health_world"
  io_active_hook :: "(backend_tunnel \<Rightarrow> health_world \<Rightarrow> health_world \<times> health_error option) option"
  io_heal_hook :: "(backend_tunnel \<Rightarrow> health_world \<Rightarrow> health_world \<times> health_error option) option"
  io_notifier :: "(backend_tunnel \<Rightarrow> health_world \<Rightarrow> health_world) option"
  io_retry_failovers :: "health_world \<Rightarrow> health_world"
  io_pre_hook :: "health_world \<Rightarrow> health_world"
  io_pre_status :: "health_world \<Rightarrow> health_world"
  io_pre_failure :: "health_world \<Rightarrow> health_world"
  io_cancelled :: "health_world \<Rightarrow> bool"
  io_ok :: "nat \<Rightarrow> bool"
  io_now :: "nat \<Rightarrow> time"

text \<open>\<^verbatim>\<open>errors.Is\<close> looks through the wrapping of \<^verbatim>\<open>fmt.Errorf\<close>.\<close>

fun error_is :: "health_error \<Rightarrow> health_error \<Rightarrow> bool" where
  "error_is (ReadinessFailed e) x \<longleftrightarrow> ReadinessFailed e = x \<or> error_is e x"
| "error_is e x \<longleftrightarrow> e = x"

definition gone_or_stale :: "health_error \<Rightarrow> bool" where
  "gone_or_stale e \<longleftrightarrow> error_is e (PoolError ErrTunnelNotFound) \<or> error_is e (PoolError ErrStaleStateVersion)"

definition on_prober :: "(prober \<Rightarrow> prober) \<Rightarrow> health_world \<Rightarrow> health_world" where
  "on_prober f w = w\<lparr>hw_prober := f (hw_prober w)\<rparr>"

section \<open>Counters and their generation\<close>

definition forget_streaks :: "int \<Rightarrow> prober \<Rightarrow> prober" where
  "forget_streaks s h = h\<lparr>hp_fail := fmupd s 0 (hp_fail h), hp_auto := fmdrop s (hp_auto h), hp_success := fmdrop s (hp_success h)\<rparr>"

definition clear_failures :: "int \<Rightarrow> prober \<Rightarrow> prober" where
  "clear_failures s h = h\<lparr>hp_fail := fmupd s 0 (hp_fail h), hp_auto := fmdrop s (hp_auto h)\<rparr>"

definition mark_auto :: "int \<Rightarrow> prober \<Rightarrow> prober" where
  "mark_auto s h = h\<lparr>hp_auto := fmupd s True (hp_auto h), hp_success := fmupd s 0 (hp_success h)\<rparr>"

definition count_failure :: "int \<Rightarrow> prober \<Rightarrow> prober" where
  "count_failure s h = h\<lparr>hp_fail := fmupd s (or_zero (hp_fail h) s + 1) (hp_fail h)\<rparr>"

definition uncount_failure :: "int \<Rightarrow> prober \<Rightarrow> prober" where
  "uncount_failure s h =
     (if 0 < or_zero (hp_fail h) s then h\<lparr>hp_fail := fmupd s (or_zero (hp_fail h) s - 1) (hp_fail h)\<rparr> else h)"

definition count_success :: "int \<Rightarrow> prober \<Rightarrow> prober" where
  "count_success s h = h\<lparr>hp_success := fmupd s (or_zero (hp_success h) s + 1) (hp_success h)\<rparr>"

definition no_success :: "int \<Rightarrow> prober \<Rightarrow> prober" where
  "no_success s h = h\<lparr>hp_success := fmupd s 0 (hp_success h)\<rparr>"

text \<open>The counters of a server belong to one tunnel: another tunnel's failures are forgotten when it takes over.\<close>

definition adopt_generation :: "int \<Rightarrow> int \<Rightarrow> prober \<Rightarrow> prober" where
  "adopt_generation s i h =
     (let previous = or_zero (hp_generations h) s;
          h1 = (if previous \<noteq> 0 \<and> previous \<noteq> i then forget_streaks s h else h)
      in h1\<lparr>hp_generations := fmupd s i (hp_generations h1)\<rparr>)"

definition record_current_generation :: "int \<Rightarrow> health_world \<Rightarrow> health_world" where
  "record_current_generation s w =
     (case hw_pool w of
        None \<Rightarrow> w
      | Some p \<Rightarrow>
          (case get_tunnel p s of
             Inl _ \<Rightarrow> on_prober (\<lambda>h. h\<lparr>hp_generations := fmdrop s (hp_generations h)\<rparr>) w
           | Inr t \<Rightarrow> on_prober (adopt_generation s (tun_id t)) w))"

definition reset_fail_count :: "int \<Rightarrow> health_world \<Rightarrow> health_world" where
  "reset_fail_count s w =
     record_current_generation s (on_prober (\<lambda>h. h\<lparr>hp_fail := fmupd s 0 (hp_fail h), hp_canary_fail := fmdrop s (hp_canary_fail h),
       hp_canary_results := fmdrop s (hp_canary_results h), hp_auto := fmdrop s (hp_auto h), hp_success := fmdrop s (hp_success h)\<rparr>) w)"

definition mark_auto_disabled :: "int \<Rightarrow> health_world \<Rightarrow> health_world" where
  "mark_auto_disabled s w = on_prober (mark_auto s) (record_current_generation s w)"

definition mark_admin_disabled :: "int \<Rightarrow> health_world \<Rightarrow> health_world" where
  "mark_admin_disabled s w = record_current_generation s (on_prober (forget_streaks s) w)"

definition check_health_generation :: "backend_tunnel \<Rightarrow> health_world \<Rightarrow> health_world \<times> health_error option" where
  "check_health_generation t w =
     (let s = tun_server t;
          refused = (case hw_pool w of
            None \<Rightarrow> None
          | Some p \<Rightarrow>
              (case get_tunnel p s of
                 Inl e \<Rightarrow> Some (PoolError e)
               | Inr cur \<Rightarrow>
                   if tun_id cur \<noteq> tun_id t then Some (PoolError ErrTunnelNotFound)
                   else if 0 < tun_state_version t \<and> tun_state_version cur \<noteq> tun_state_version t
                   then Some (PoolError ErrStaleStateVersion)
                   else None))
      in case refused of
           Some e \<Rightarrow> (w, Some e)
         | None \<Rightarrow> (on_prober (adopt_generation s (tun_id t)) w, None))"

definition update_health_if_current :: "backend_tunnel \<Rightarrow> (prober \<Rightarrow> prober) \<Rightarrow> health_world \<Rightarrow> health_world \<times> health_error option" where
  "update_health_if_current t f w =
     (case check_health_generation t w of
        (w1, Some e) \<Rightarrow> (w1, Some e)
      | (w1, None) \<Rightarrow> (on_prober f w1, None))"

definition check_tunnel_available :: "health_world \<Rightarrow> backend_tunnel \<Rightarrow> health_error option" where
  "check_tunnel_available w t =
     (case hw_pool w of
        None \<Rightarrow> None
      | Some p \<Rightarrow>
          (case get_tunnel p (tun_server t) of
             Inl e \<Rightarrow> Some (PoolError e)
           | Inr cur \<Rightarrow>
               if tun_id cur \<noteq> tun_id t then Some (PoolError ErrTunnelNotFound)
               else if \<not> tun_enabled cur \<or> tun_status cur = status_disabled then Some ErrTunnelDisabled
               else if 0 < tun_state_version t \<and> tun_state_version cur \<noteq> tun_state_version t
               then Some (PoolError ErrStaleStateVersion)
               else None))"

definition is_admin_disabled :: "health_world \<Rightarrow> int \<Rightarrow> bool" where
  "is_admin_disabled w s =
     (case hw_pool w of
        None \<Rightarrow> False
      | Some p \<Rightarrow> (case get_tunnel p s of Inl _ \<Rightarrow> False | Inr cur \<Rightarrow> \<not> tun_enabled cur))"

definition initial_snapshot :: "health_world \<Rightarrow> backend_tunnel \<Rightarrow> backend_tunnel" where
  "initial_snapshot w t =
     (case hw_pool w of
        None \<Rightarrow> t
      | Some p \<Rightarrow> (case get_tunnel p (tun_server t) of Inl _ \<Rightarrow> t | Inr cur \<Rightarrow> cur))"

section \<open>The probes\<close>

definition at_least_one :: "int \<Rightarrow> int" where
  "at_least_one ms = (if ms \<le> 0 then 1 else ms)"

text \<open>The AmneziaWG probe reports nanoseconds; it uses the tunnel's own probe key when there is one.\<close>

definition probe_awg :: "prober_io \<Rightarrow> backend_tunnel \<Rightarrow> health_world \<Rightarrow> health_world \<times> (health_error + int)" where
  "probe_awg io t w =
     (let key = (if tun_probe_key t = [] then tun_private_key t else tun_probe_key t) in
      case io_probe io ''awg'' (t\<lparr>tun_probe_key := key\<rparr>) w of
        (w1, Inl e) \<Rightarrow> (w1, Inl e)
      | (w1, Inr rtt) \<Rightarrow> (w1, Inr (at_least_one (rtt div millisecond))))"

definition probe_proxy :: "prober_io \<Rightarrow> string \<Rightarrow> backend_tunnel \<Rightarrow> health_world \<Rightarrow> health_world \<times> (health_error + int)" where
  "probe_proxy io proto t w =
     (if tun_params t = [] \<or> \<not> io_decodes io proto (tun_params t) then (w, Inl BadProbeParams)
      else case io_probe io proto t w of
        (w1, Inl e) \<Rightarrow> (w1, Inl e)
      | (w1, Inr ms) \<Rightarrow> (w1, Inr (at_least_one ms)))"

definition probe_endpoint :: "prober_io \<Rightarrow> backend_tunnel \<Rightarrow> health_world \<Rightarrow> health_world \<times> (health_error + int)" where
  "probe_endpoint io t w =
     (let proto = normalize_tunnel_protocol (tun_protocol t) in
      if proto = ''awg'' then probe_awg io t w
      else if proto = ''vless'' \<or> proto = ''naive'' then probe_proxy io proto t w
      else (w, Inl UnsupportedProbe))"

section \<open>The canary and its history\<close>

definition begin_canary :: "health_world \<Rightarrow> health_world" where
  "begin_canary w = on_prober (\<lambda>h. h\<lparr>hp_canary_seq := hp_canary_seq h + 1\<rparr>) w"

definition check_canary_generation :: "tunnel_pool \<Rightarrow> backend_tunnel \<Rightarrow> health_error option" where
  "check_canary_generation p t =
     (case server_tunnel p (tun_server t) of
        None \<Rightarrow> Some (PoolError ErrTunnelNotFound)
      | Some (r, cur) \<Rightarrow>
          if tun_id cur \<noteq> tun_id t then Some (PoolError ErrTunnelNotFound)
          else if \<not> tun_enabled cur then Some ErrTunnelDisabled
          else if tun_state_version cur \<noteq> tun_state_version t then Some (PoolError ErrStaleStateVersion)
          else None)"

definition canary_refused :: "health_world \<Rightarrow> backend_tunnel \<Rightarrow> health_error option" where
  "canary_refused w t = (case hw_pool w of None \<Rightarrow> None | Some p \<Rightarrow> check_canary_generation p t)"

definition accept_canary :: "backend_tunnel \<Rightarrow> 64 word \<Rightarrow> bool \<Rightarrow> health_world \<Rightarrow> health_world \<times> health_error option" where
  "accept_canary t seq success w =
     (case canary_refused w t of
        Some e \<Rightarrow> (w, Some e)
      | None \<Rightarrow>
          let h = hw_prober w; s = tun_server t; previous = result_of h s in
          if seq \<le> cr_sequence previous then (w, Some (PoolError ErrStaleStateVersion))
          else
            let f1 = (if success \<or> cr_tunnel previous \<noteq> tun_id t then fmupd s 0 (hp_canary_fail h) else hp_canary_fail h);
                f2 = (if success then f1 else fmupd s (or_zero f1 s + 1) f1)
            in (w\<lparr>hw_prober := h\<lparr>hp_canary_fail := f2,
                  hp_canary_results := fmupd s \<lparr>cr_tunnel = tun_id t, cr_sequence = seq\<rparr> (hp_canary_results h)\<rparr>\<rparr>, None))"

definition canary_current :: "health_world \<Rightarrow> backend_tunnel \<Rightarrow> 64 word \<Rightarrow> health_error option" where
  "canary_current w t seq =
     (case canary_refused w t of
        Some e \<Rightarrow> Some e
      | None \<Rightarrow>
          if result_of (hw_prober w) (tun_server t) \<noteq> \<lparr>cr_tunnel = tun_id t, cr_sequence = seq\<rparr>
          then Some (PoolError ErrStaleStateVersion) else None)"

definition obsolete_canary :: "health_error \<Rightarrow> bool" where
  "obsolete_canary e \<longleftrightarrow> gone_or_stale e \<or> error_is e ErrTunnelDisabled \<or> error_is e CanaryCancelled"

definition get_canary_fail_count :: "health_world \<Rightarrow> int \<Rightarrow> int" where
  "get_canary_fail_count w s = or_zero (hp_canary_fail (hw_prober w)) s"

definition canary_failure_count :: "health_world \<Rightarrow> int \<Rightarrow> int" where
  "canary_failure_count w i =
     (case hw_pool w of
        None \<Rightarrow> 0
      | Some p \<Rightarrow>
          (case id_tunnel p i of
             None \<Rightarrow> 0
           | Some (r, t) \<Rightarrow>
               if cr_tunnel (result_of (hw_prober w) (tun_server t)) \<noteq> tun_id t then 0
               else get_canary_fail_count w (tun_server t)))"

definition probe_canary :: "prober_io \<Rightarrow> backend_tunnel \<Rightarrow> health_world \<Rightarrow> health_world \<times> health_error option" where
  "probe_canary io t w =
     (let w1 = begin_canary w; seq = hp_canary_seq (hw_prober w1); (w2, err) = io_canary io t w1 in
      if io_cancelled io w2 then (w2, Some CanaryCancelled)
      else case accept_canary t seq (err = None) w2 of
        (w3, Some e) \<Rightarrow> (w3, Some e)
      | (w3, None) \<Rightarrow>
          if err = None \<and> tun_id t \<noteq> 0 then
            let w4 = io_canary_done io (tun_id t) w3 in (w4, canary_current w4 t seq)
          else (w3, err))"

text \<open>The exported entry takes a fresh snapshot of the same tunnel first.\<close>

definition probe_canary_fresh :: "prober_io \<Rightarrow> backend_tunnel \<Rightarrow> health_world \<Rightarrow> health_world \<times> health_error option" where
  "probe_canary_fresh io t w =
     (case hw_pool w of
        None \<Rightarrow> probe_canary io t w
      | Some p \<Rightarrow>
          (case get_tunnel_by_id p (tun_id t) of
             Inl e \<Rightarrow> (w, Some (PoolError e))
           | Inr cur \<Rightarrow> probe_canary io cur w))"

section \<open>Status transitions\<close>

text \<open>A compare-and-swap of the pool, with the next database statement.\<close>

definition swap_status ::
    "prober_io \<Rightarrow> tunnel_pool \<Rightarrow> int \<Rightarrow> int \<Rightarrow> string \<Rightarrow> string \<Rightarrow> int \<Rightarrow> string \<Rightarrow> string \<Rightarrow> int \<Rightarrow> health_world \<Rightarrow>
     health_world \<times> (health_error + bool)" where
  "swap_status io p s i expStatus expReason expVersion status reason latency w =
     (let n = hw_stmt w;
          (p', res) = cas_for_tunnel (io_ok io n) (io_now io n) (io_now io n) s i expStatus expReason expVersion status reason latency p
      in (w\<lparr>hw_pool := Some p', hw_stmt := n + 1\<rparr>, map_sum PoolError id res))"

definition notify_target :: "backend_tunnel \<Rightarrow> int \<Rightarrow> bool" where
  "notify_target cur s \<longleftrightarrow>
     (if tun_server cur \<noteq> s \<or> \<not> tun_enabled cur then False
      else tun_status cur = status_disabled \<and> tun_disable_reason cur = reason_health)"

text \<open>An error of the notifier is only logged.\<close>

definition notify_health_disabled :: "prober_io \<Rightarrow> int \<Rightarrow> int \<Rightarrow> health_world \<Rightarrow> health_world" where
  "notify_health_disabled io s i w =
     (case hw_pool w of
        None \<Rightarrow> w
      | Some p \<Rightarrow>
          if i = 0 \<or> io_cancelled io w then w
          else case io_notifier io of
            None \<Rightarrow> w
          | Some notifier \<Rightarrow>
              (case get_tunnel_by_id p i of
                 Inl _ \<Rightarrow> w
               | Inr cur \<Rightarrow> if \<not> notify_target cur s then w else notifier cur (w\<lparr>hw_reported := hw_reported w @ [cur]\<rparr>)))"

definition commit_threshold_disable :: "prober_io \<Rightarrow> backend_tunnel \<Rightarrow> health_world \<Rightarrow> health_world \<times> health_error option" where
  "commit_threshold_disable io t w =
     (case update_health_if_current t (mark_auto (tun_server t)) w of
        (w1, Some e) \<Rightarrow> (w1, Some e)
      | (w1, None) \<Rightarrow> (notify_health_disabled io (tun_server t) (tun_id t) w1, None))"

text \<open>What the tunnel looks like after a swap that missed decides whether another worker has settled the matter.\<close>

definition settled_by_other ::
    "backend_tunnel \<Rightarrow> int \<Rightarrow> (health_world \<Rightarrow> health_world \<times> (health_error + bool)) \<Rightarrow> health_world \<Rightarrow>
     health_world \<times> (health_error + bool)" where
  "settled_by_other cur s otherwise w =
     (if tun_status cur = status_disabled \<and> tun_disable_reason cur = reason_health then
        (case update_health_if_current cur (mark_auto s) w of
           (w1, Some e) \<Rightarrow> (w1, Inl e)
         | (w1, None) \<Rightarrow> (w1, Inr True))
      else otherwise w)"

definition not_settled :: "health_world \<times> health_error option \<Rightarrow> health_world \<times> (health_error + bool)" where
  "not_settled x = (case x of (w, Some e) \<Rightarrow> (w, Inl e) | (w, None) \<Rightarrow> (w, Inr False))"

definition reconcile_threshold ::
    "prober_io \<Rightarrow> int \<Rightarrow> int \<Rightarrow> health_world \<Rightarrow> health_world \<times> (health_error + bool)" where
  "reconcile_threshold io s i w =
     (case hw_pool w of
        None \<Rightarrow> (w, Inr False)
      | Some p \<Rightarrow>
          (case get_tunnel p s of
             Inl e \<Rightarrow> (w, Inl (PoolError e))
           | Inr cur \<Rightarrow>
               if tun_id cur \<noteq> i then (w, Inl (PoolError ErrTunnelNotFound))
               else if \<not> tun_enabled cur then not_settled (update_health_if_current cur (clear_failures s) w)
               else if tun_status cur = status_handshake_blocked then (w, Inr True)
               else settled_by_other cur s
                 (\<lambda>w. case check_health_generation cur w of
                    (w1, Some e) \<Rightarrow> (w1, Inl e)
                  | (w1, None) \<Rightarrow>
                      if or_zero (hp_fail (hw_prober w1)) s < hc_failure_threshold (hp_cfg (hw_prober w1)) then (w1, Inr False)
                      else case swap_status io p s i (tun_status cur) (tun_disable_reason cur) (tun_state_version cur)
                                  status_disabled reason_health 0 w1 of
                        (w2, Inl e) \<Rightarrow> (w2, Inl e)
                      | (w2, Inr True) \<Rightarrow>
                          (case commit_threshold_disable io (bump_version cur) w2 of
                             (w3, Some e) \<Rightarrow> (w3, Inl e)
                           | (w3, None) \<Rightarrow> (w3, Inr True))
                      | (w2, Inr False) \<Rightarrow>
                          (case hw_pool w2 of
                             None \<Rightarrow> (w2, Inr False)
                           | Some p2 \<Rightarrow>
                               (case get_tunnel p2 s of
                                  Inl e \<Rightarrow> (w2, Inl (PoolError e))
                                | Inr cur2 \<Rightarrow>
                                    if tun_id cur2 \<noteq> i then (w2, Inl (PoolError ErrTunnelNotFound))
                                    else if \<not> tun_enabled cur2 then not_settled (update_health_if_current cur2 (clear_failures s) w2)
                                    else settled_by_other cur2 s (\<lambda>w. (w, Inr False)) w2))) w))"

definition transition_to_handshake_blocked :: "prober_io \<Rightarrow> backend_tunnel \<Rightarrow> health_world \<Rightarrow> health_world \<times> health_error option" where
  "transition_to_handshake_blocked io t w =
     (let s = tun_server t; clear = (\<lambda>h. no_success s (h\<lparr>hp_auto := fmdrop s (hp_auto h)\<rparr>)) in
      case hw_pool w of
        None \<Rightarrow> update_health_if_current t clear w
      | Some p \<Rightarrow>
          (case swap_status io p s (tun_id t) (tun_status t) (tun_disable_reason t) (tun_state_version t)
                  status_handshake_blocked reason_none 0 w of
             (w1, Inl e) \<Rightarrow> (w1, Some e)
           | (w1, Inr True) \<Rightarrow> update_health_if_current (bump_version t) clear w1
           | (w1, Inr False) \<Rightarrow> (w1, None)))"

text \<open>What a swap to \<^verbatim>\<open>disabled\<close> that missed leaves to do.\<close>

definition after_missed_disable :: "prober_io \<Rightarrow> backend_tunnel \<Rightarrow> health_world \<Rightarrow> health_world \<times> health_error option" where
  "after_missed_disable io t w =
     (case reconcile_threshold io (tun_server t) (tun_id t) w of
        (w1, Inl e) \<Rightarrow> (w1, Some e)
      | (w1, Inr True) \<Rightarrow> (w1, None)
      | (w1, Inr False) \<Rightarrow> (on_prober (uncount_failure (tun_server t)) w1, None))"

definition transition_to_threshold_disabled :: "prober_io \<Rightarrow> backend_tunnel \<Rightarrow> health_world \<Rightarrow> health_world \<times> health_error option" where
  "transition_to_threshold_disabled io t w =
     (case hw_pool w of
        None \<Rightarrow> update_health_if_current t (mark_auto (tun_server t)) w
      | Some p \<Rightarrow>
          (case swap_status io p (tun_server t) (tun_id t) (tun_status t) (tun_disable_reason t) (tun_state_version t)
                  status_disabled reason_health 0 w of
             (w1, Inl e) \<Rightarrow> (w1, Some e)
           | (w1, Inr True) \<Rightarrow> commit_threshold_disable io (bump_version t) w1
           | (w1, Inr False) \<Rightarrow> after_missed_disable io t w1))"

definition after_missed_degrade :: "backend_tunnel \<Rightarrow> health_world \<Rightarrow> health_world \<times> health_error option" where
  "after_missed_degrade t w =
     (let s = tun_server t; w1 = on_prober (uncount_failure s) w in
      if is_admin_disabled w1 s then update_health_if_current t (clear_failures s) w1 else (w1, None))"

definition transition_to_degraded :: "prober_io \<Rightarrow> backend_tunnel \<Rightarrow> health_world \<Rightarrow> health_world \<times> health_error option" where
  "transition_to_degraded io t w =
     (if tun_status t = status_degraded then (w, None)
      else case hw_pool w of
        None \<Rightarrow> update_health_if_current t (no_success (tun_server t)) w
      | Some p \<Rightarrow>
          (case swap_status io p (tun_server t) (tun_id t) (tun_status t) (tun_disable_reason t) (tun_state_version t)
                  status_degraded (tun_disable_reason t) 0 w of
             (w1, Inl e) \<Rightarrow> (w1, Some e)
           | (w1, Inr True) \<Rightarrow> update_health_if_current (bump_version t) (no_success (tun_server t)) w1
           | (w1, Inr False) \<Rightarrow> after_missed_degrade t w1))"

section \<open>One probe\<close>

definition confirm_outer_failure :: "prober_io \<Rightarrow> backend_tunnel \<Rightarrow> int \<Rightarrow> health_world \<Rightarrow> health_world \<times> health_error option" where
  "confirm_outer_failure io t outerFailures w =
     (let threshold = hc_failure_threshold (hp_cfg (hw_prober w));
          otherwise = (\<lambda>w. if 0 < tun_conns t then transition_to_handshake_blocked io t w else transition_to_degraded io t w)
      in if io_has_canary io t then
           (case probe_canary io t w of
              (w1, None) \<Rightarrow> transition_to_handshake_blocked io t w1
            | (w1, Some e) \<Rightarrow>
                if obsolete_canary e then (w1, Some e)
                else if hc_failure_threshold (hp_cfg (hw_prober w1)) \<le> get_canary_fail_count w1 (tun_server t)
                then transition_to_threshold_disabled io t w1
                else otherwise w1)
         else if threshold \<le> outerFailures then transition_to_threshold_disabled io t w
         else otherwise w)"

definition unless_gone :: "backend_tunnel \<Rightarrow> health_error \<Rightarrow> health_world \<Rightarrow> health_world \<times> (health_error + int)" where
  "unless_gone t e w =
     (case check_tunnel_available w t of
        Some (PoolError ErrTunnelNotFound) \<Rightarrow> (w, Inl (PoolError ErrTunnelNotFound))
      | _ \<Rightarrow> (w, Inl e))"

definition handle_probe_failure :: "prober_io \<Rightarrow> backend_tunnel \<Rightarrow> health_error \<Rightarrow> health_world \<Rightarrow> health_world \<times> (health_error + int)" where
  "handle_probe_failure io t probeErr w =
     (let s = tun_server t in
      if is_admin_disabled w s then (on_prober (clear_failures s) w, Inl probeErr)
      else case update_health_if_current t (count_failure s) w of
        (w1, Some e) \<Rightarrow> (w1, Inl e)
      | (w1, None) \<Rightarrow>
          (case confirm_outer_failure io t (or_zero (hp_fail (hw_prober w1)) s) w1 of
             (w2, Some e) \<Rightarrow> (w2, Inl e)
           | (w2, None) \<Rightarrow> unless_gone t probeErr w2))"

definition hook_disable :: "prober_io \<Rightarrow> backend_tunnel \<Rightarrow> health_world \<Rightarrow> health_world \<times> health_error option" where
  "hook_disable io t w =
     (case hw_pool w of
        None \<Rightarrow> update_health_if_current t (mark_auto (tun_server t)) w
      | Some p \<Rightarrow>
          (case swap_status io p (tun_server t) (tun_id t) (tun_status t) (tun_disable_reason t) (tun_state_version t)
                  status_disabled reason_health 0 w of
             (w1, Inl e) \<Rightarrow> (w1, Some e)
           | (w1, Inr True) \<Rightarrow> commit_threshold_disable io (bump_version t) w1
           | (w1, Inr False) \<Rightarrow> after_missed_disable io t w1))"

text \<open>Unlike \<open>transition_to_degraded\<close> this swap is made for a degraded tunnel too.\<close>

definition hook_degrade :: "prober_io \<Rightarrow> backend_tunnel \<Rightarrow> health_world \<Rightarrow> health_world \<times> health_error option" where
  "hook_degrade io t w =
     (case hw_pool w of
        None \<Rightarrow> (w, None)
      | Some p \<Rightarrow>
          (case swap_status io p (tun_server t) (tun_id t) (tun_status t) (tun_disable_reason t) (tun_state_version t)
                  status_degraded (tun_disable_reason t) 0 w of
             (w1, Inl e) \<Rightarrow> (w1, Some e)
           | (w1, Inr True) \<Rightarrow> (w1, None)
           | (w1, Inr False) \<Rightarrow> after_missed_degrade t w1))"

definition handle_hook_failure :: "prober_io \<Rightarrow> backend_tunnel \<Rightarrow> health_error \<Rightarrow> health_world \<Rightarrow> health_world \<times> (health_error + int)" where
  "handle_hook_failure io t hookErr w =
     (let s = tun_server t in
      if error_is hookErr ErrTunnelDisabled \<or> check_tunnel_available w t = Some ErrTunnelDisabled \<or> is_admin_disabled w s
      then (on_prober (clear_failures s) w, Inl ErrTunnelDisabled)
      else case update_health_if_current t (count_failure s) w of
        (w1, Some e) \<Rightarrow> (w1, Inl e)
      | (w1, None) \<Rightarrow>
          (case (if hc_failure_threshold (hp_cfg (hw_prober w1)) \<le> or_zero (hp_fail (hw_prober w1)) s
                 then hook_disable io t w1 else hook_degrade io t w1) of
             (w2, Some e) \<Rightarrow> (w2, Inl e)
           | (w2, None) \<Rightarrow> unless_gone t (ReadinessFailed hookErr) w2))"

text \<open>
  The hook that prepares the data plane. The code repeats the two checks after it has read the hook; nothing comes
  between. A hook that fails with the tunnel gone or moved on is not a failure of the backend.
\<close>

definition execute_active_hook :: "prober_io \<Rightarrow> backend_tunnel \<Rightarrow> backend_tunnel \<Rightarrow> health_world \<Rightarrow> health_world \<times> health_error option" where
  "execute_active_hook io snap t w =
     (case check_tunnel_available w t of
        Some e \<Rightarrow> (w, Some e)
      | None \<Rightarrow>
          (case check_tunnel_available w snap of
             Some e \<Rightarrow> (w, Some e)
           | None \<Rightarrow>
               (case io_active_hook io of
                  None \<Rightarrow> (w, None)
                | Some hook \<Rightarrow>
                    (case hook t w of
                       (w1, None) \<Rightarrow> (w1, None)
                     | (w1, Some hookErr) \<Rightarrow>
                         if gone_or_stale hookErr then (w1, Some hookErr)
                         else if (case check_tunnel_available w1 t of None \<Rightarrow> False | Some e \<Rightarrow> gone_or_stale e)
                         then (w1, check_tunnel_available w1 t)
                         else
                           (case handle_hook_failure io snap hookErr w1 of
                              (w2, Inl e) \<Rightarrow> (w2, Some e)
                            | (w2, Inr _) \<Rightarrow> (w2, None))))))"

definition run_active_hook_if_active where
  "run_active_hook_if_active io snap t status w =
     (if status \<noteq> ''active'' then (w, None) else execute_active_hook io snap t (io_pre_hook io w))"

definition has_active_sessions :: "health_world \<Rightarrow> backend_tunnel \<Rightarrow> backend_tunnel \<Rightarrow> bool" where
  "has_active_sessions w snap t \<longleftrightarrow>
     0 < tun_conns snap \<or> 0 < tun_conns t \<or>
     (case hw_pool w of
        None \<Rightarrow> False
      | Some p \<Rightarrow> (case get_tunnel p (tun_server t) of Inl _ \<Rightarrow> False | Inr cur \<Rightarrow> 0 < tun_conns cur))"

definition denied :: "health_world \<times> health_error option \<Rightarrow> health_world \<times> (health_error + bool)" where
  "denied x = (case x of (w, Some e) \<Rightarrow> (w, Inl e) | (w, None) \<Rightarrow> (w, Inr False))"

definition verify_active_eligibility ::
    "prober_io \<Rightarrow> backend_tunnel \<Rightarrow> backend_tunnel \<Rightarrow> bool \<Rightarrow> health_world \<Rightarrow> health_world \<times> (health_error + bool)" where
  "verify_active_eligibility io snap t isBlocked w =
     (if io_has_canary io t then
        (case probe_canary io t w of
           (w1, None) \<Rightarrow> (w1, Inr True)
         | (w1, Some e) \<Rightarrow>
             if obsolete_canary e then (w1, Inl e)
             else if hc_failure_threshold (hp_cfg (hw_prober w1)) \<le> get_canary_fail_count w1 (tun_server t)
             then denied (transition_to_threshold_disabled io snap w1)
             else if has_active_sessions w1 snap t then denied (transition_to_handshake_blocked io snap w1)
             else denied (transition_to_degraded io snap w1))
      else (w, Inr (\<not> isBlocked)))"

definition write_status ::
    "prober_io \<Rightarrow> tunnel_pool \<Rightarrow> int \<Rightarrow> int \<Rightarrow> int \<Rightarrow> string \<Rightarrow> int \<Rightarrow> health_world \<Rightarrow> health_world \<times> health_error option" where
  "write_status io p s i version status latency w =
     (let n = hw_stmt w;
          (p', res) = set_tunnel_status_if_current_with_version (io_ok io n) (io_now io n) (io_now io n) s i version status latency p
      in (w\<lparr>hw_pool := Some p', hw_stmt := n + 1\<rparr>, map_option PoolError res))"

definition finish_probe_success :: "backend_tunnel \<Rightarrow> health_world \<Rightarrow> health_world \<times> health_error option" where
  "finish_probe_success t w =
     (case check_tunnel_available w t of
        Some e \<Rightarrow> (w, Some e)
      | None \<Rightarrow> update_health_if_current t (forget_streaks (tun_server t)) w)"

definition commit_active_probe_success ::
    "prober_io \<Rightarrow> backend_tunnel \<Rightarrow> backend_tunnel \<Rightarrow> string \<Rightarrow> int \<Rightarrow> health_world \<Rightarrow> health_world \<times> health_error option" where
  "commit_active_probe_success io snap t status latency w =
     (case hw_pool w of
        None \<Rightarrow> finish_probe_success t w
      | Some p \<Rightarrow>
          let expected = (if 0 < tun_state_version snap then tun_state_version snap else tun_state_version t) in
          case write_status io p (tun_server t) (tun_id t) expected status latency w of
            (w1, Some e) \<Rightarrow> (w1, Some e)
          | (w1, None) \<Rightarrow> finish_probe_success (t\<lparr>tun_state_version := expected + 1\<rparr>) w1)"

text \<open>Before the last status write: the tunnel must still be the one that was probed.\<close>

definition commit_if_available where
  "commit_if_available io snap t status latency w =
     (case check_tunnel_available w t of
        Some e \<Rightarrow> (w, Inl e)
      | None \<Rightarrow>
          (case commit_active_probe_success io snap t status latency (io_pre_status io w) of
             (w1, Some e) \<Rightarrow> (w1, Inl e)
           | (w1, None) \<Rightarrow> (w1, Inr latency)))"

definition handle_probe_success ::
    "prober_io \<Rightarrow> backend_tunnel \<Rightarrow> backend_tunnel \<Rightarrow> int \<Rightarrow> health_world \<Rightarrow> health_world \<times> (health_error + int)" where
  "handle_probe_success io snap t latency w =
     (case check_tunnel_available w t of
        Some e \<Rightarrow> (w, Inl e)
      | None \<Rightarrow>
          let isBlocked = (tun_status snap = status_handshake_blocked \<or> tun_status t = status_handshake_blocked);
              status = (if hc_latency_threshold (hp_cfg (hw_prober w)) < latency then ''degraded'' else ''active'')
          in case run_active_hook_if_active io snap t status w of
               (w1, Some e) \<Rightarrow> (w1, Inl e)
             | (w1, None) \<Rightarrow>
                 if status = ''active'' \<or> isBlocked then
                   (case verify_active_eligibility io snap t isBlocked w1 of
                      (w2, Inl e) \<Rightarrow> (w2, Inl e)
                    | (w2, Inr False) \<Rightarrow> (w2, Inr latency)
                    | (w2, Inr True) \<Rightarrow> commit_if_available io snap t status latency w2)
                 else commit_if_available io snap t status latency w1)"

definition probe_tunnel :: "prober_io \<Rightarrow> backend_tunnel \<Rightarrow> health_world \<Rightarrow> health_world \<times> (health_error + int)" where
  "probe_tunnel io t w =
     (let snap = initial_snapshot w t in
      case check_tunnel_available w snap of
        Some e \<Rightarrow> (w, Inl e)
      | None \<Rightarrow>
          if \<not> tun_enabled snap then (w, Inl ErrTunnelDisabled)
          else
            let target = t\<lparr>tun_state_version := tun_state_version snap, tun_endpoint := tun_endpoint snap\<rparr> in
            case probe_endpoint io target w of
              (w1, Inl e) \<Rightarrow>
                (case check_tunnel_available w1 target of
                   Some e' \<Rightarrow> (w1, Inl e')
                 | None \<Rightarrow> handle_probe_failure io snap e (io_pre_failure io w1))
            | (w1, Inr latency) \<Rightarrow> handle_probe_success io snap target latency w1)"

section \<open>Rounds of probes\<close>

definition probe_skips :: "prober \<Rightarrow> backend_tunnel \<Rightarrow> bool" where
  "probe_skips h t \<longleftrightarrow> \<not> tun_enabled t \<or> tun_status t = ''disabled'' \<or>
     \<not> hp_multi h \<and> normalize_tunnel_protocol (tun_protocol t) \<noteq> ''awg''"

text \<open>The probes run concurrently; \<open>ord\<close> is the order in which they take effect.\<close>

definition probe_all :: "prober_io \<Rightarrow> (int fset \<Rightarrow> int list) \<Rightarrow> health_world \<Rightarrow> health_world \<times> (int, health_error option) fmap" where
  "probe_all io ord w =
     (case hw_pool w of
        None \<Rightarrow> (w, fmempty)
      | Some p \<Rightarrow>
          fold (\<lambda>t (w, results). case probe_tunnel io t w of
                (w1, res) \<Rightarrow> (w1, fmupd (tun_server t) (case res of Inl e \<Rightarrow> Some e | Inr _ \<Rightarrow> None) results))
            (filter (\<lambda>t. \<not> probe_skips (hw_prober w) t) (list_tunnels ord p)) (w, fmempty))"

section \<open>Self-healing\<close>

definition is_auto_disabled :: "health_world \<Rightarrow> int \<Rightarrow> bool" where
  "is_auto_disabled w s =
     (let h = hw_prober w; auto = (case fmlookup (hp_auto h) s of None \<Rightarrow> False | Some b \<Rightarrow> b) in
      case hw_pool w of
        None \<Rightarrow> auto
      | Some p \<Rightarrow>
          (case get_tunnel p s of
             Inl _ \<Rightarrow> False
           | Inr t \<Rightarrow>
               if \<not> tun_enabled t then False
               else if tun_status t = ''disabled'' \<and> tun_disable_reason t = reason_health then True
               else let gen = or_zero (hp_generations h) s in if gen \<noteq> 0 \<and> gen \<noteq> tun_id t then False else auto))"

definition get_self_healing_state :: "health_world \<Rightarrow> int \<Rightarrow> bool \<times> int" where
  "get_self_healing_state w s =
     (let h = hw_prober w; gen = or_zero (hp_generations h) s;
          state = (case fmlookup (hp_auto h) s of None \<Rightarrow> False | Some b \<Rightarrow> b, or_zero (hp_success h) s)
      in case hw_pool w of
           None \<Rightarrow> state
         | Some p \<Rightarrow>
             (case get_tunnel p s of
                Inl _ \<Rightarrow> (False, 0)
              | Inr t \<Rightarrow> if gen \<noteq> 0 \<and> gen \<noteq> tun_id t then (False, 0) else state))"

definition heal_target :: "health_world \<Rightarrow> backend_tunnel \<Rightarrow> bool" where
  "heal_target w t \<longleftrightarrow>
     (if \<not> tun_enabled t \<or> tun_status t \<noteq> ''disabled'' then False
      else if \<not> hp_multi (hw_prober w) \<and> normalize_tunnel_protocol (tun_protocol t) \<noteq> ''awg'' then False
      else tun_disable_reason t = reason_health \<or> is_auto_disabled w (tun_server t))"

definition collect_self_heal_targets :: "(int fset \<Rightarrow> int list) \<Rightarrow> tunnel_pool \<Rightarrow> health_world \<Rightarrow> backend_tunnel list" where
  "collect_self_heal_targets ord p w = filter (heal_target w) (list_tunnels ord p)"

definition probe_and_flap_damp :: "prober_io \<Rightarrow> backend_tunnel \<Rightarrow> int \<Rightarrow> health_world \<Rightarrow> health_world \<times> int option" where
  "probe_and_flap_damp io t threshold w =
     (let s = tun_server t in
      case probe_endpoint io t w of
        (w1, Inl _) \<Rightarrow> (fst (update_health_if_current t (no_success s) w1), None)
      | (w1, Inr latency) \<Rightarrow>
          (case update_health_if_current t (count_success s) w1 of
             (w2, Some _) \<Rightarrow> (w2, None)
           | (w2, None) \<Rightarrow> (w2, if or_zero (hp_success (hw_prober w2)) s < threshold then None else Some latency)))"

definition verify_pre_hook_state :: "health_world \<Rightarrow> backend_tunnel \<Rightarrow> backend_tunnel option" where
  "verify_pre_hook_state w t =
     (case hw_pool w of
        None \<Rightarrow> None
      | Some p \<Rightarrow>
          (case get_tunnel p (tun_server t) of
             Inl _ \<Rightarrow> None
           | Inr cur \<Rightarrow>
               if tun_id cur \<noteq> tun_id t \<or> \<not> tun_enabled cur \<or> tun_status cur \<noteq> ''disabled'' \<or>
                  (tun_disable_reason cur \<noteq> reason_health \<and> \<not> is_auto_disabled w (tun_server t)) \<or>
                  tun_state_version cur \<noteq> tun_state_version t
               then None else Some cur))"

definition invoke_self_heal_hook :: "prober_io \<Rightarrow> backend_tunnel \<Rightarrow> health_world \<Rightarrow> health_world \<times> bool" where
  "invoke_self_heal_hook io t w =
     (case (case io_heal_hook io of None \<Rightarrow> io_active_hook io | Some h \<Rightarrow> Some h) of
        None \<Rightarrow> (w, True)
      | Some hook \<Rightarrow>
          (case hook t w of
             (w1, None) \<Rightarrow> (w1, True)
           | (w1, Some _) \<Rightarrow> (fst (update_health_if_current t (no_success (tun_server t)) w1), False)))"

definition determine_self_heal_status ::
    "prober_io \<Rightarrow> backend_tunnel \<Rightarrow> int \<Rightarrow> int \<Rightarrow> health_world \<Rightarrow> health_world \<times> string" where
  "determine_self_heal_status io t latency latencyThreshold w =
     (let status = (if latencyThreshold < latency then ''degraded'' else ''active'') in
      if io_has_canary io t then
        (case probe_canary io t w of (w1, Some _) \<Rightarrow> (w1, []) | (w1, None) \<Rightarrow> (w1, status))
      else (w, status))"

definition finalize_self_heal_recovery ::
    "prober_io \<Rightarrow> backend_tunnel \<Rightarrow> backend_tunnel \<Rightarrow> int \<Rightarrow> int \<Rightarrow> health_world \<Rightarrow> health_world \<times> bool" where
  "finalize_self_heal_recovery io t now latency latencyThreshold w =
     (let s = tun_server t in
      case hw_pool w of
        None \<Rightarrow> (w, False)
      | Some p \<Rightarrow>
          (case get_tunnel p s of
             Inl _ \<Rightarrow> (w, False)
           | Inr cur \<Rightarrow>
               if tun_id cur \<noteq> tun_id t then (w, False)
               else if \<not> tun_enabled cur then
                 (fst (update_health_if_current t (\<lambda>h. h\<lparr>hp_auto := fmdrop s (hp_auto h), hp_success := fmdrop s (hp_success h)\<rparr>) w), False)
               else
                 (case determine_self_heal_status io cur latency latencyThreshold w of
                    (w1, status) \<Rightarrow>
                      if status = [] then (w1, False)
                      else case hw_pool w1 of
                        None \<Rightarrow> (w1, False)
                      | Some p1 \<Rightarrow>
                          (case swap_status io p1 s (tun_id t) ''disabled'' (tun_disable_reason now) (tun_state_version now)
                                  status reason_none latency w1 of
                             (w2, Inl _) \<Rightarrow> (w2, False)
                           | (w2, Inr False) \<Rightarrow> (w2, False)
                           | (w2, Inr True) \<Rightarrow>
                               (case update_health_if_current (t\<lparr>tun_state_version := tun_state_version now + 1\<rparr>) (forget_streaks s) w2 of
                                  (w3, Some _) \<Rightarrow> (w3, False)
                                | (w3, None) \<Rightarrow> (w3, True))))))"

definition reconcile_tunnel :: "prober_io \<Rightarrow> backend_tunnel \<Rightarrow> int \<Rightarrow> int \<Rightarrow> health_world \<Rightarrow> health_world \<times> bool" where
  "reconcile_tunnel io t threshold latencyThreshold w =
     (if io_cancelled io w then (w, False)
      else case probe_and_flap_damp io t threshold w of
        (w1, None) \<Rightarrow> (w1, False)
      | (w1, Some latency) \<Rightarrow>
          (case verify_pre_hook_state w1 t of
             None \<Rightarrow> (w1, False)
           | Some now \<Rightarrow>
               (case invoke_self_heal_hook io now w1 of
                  (w2, False) \<Rightarrow> (w2, False)
                | (w2, True) \<Rightarrow> finalize_self_heal_recovery io t now latency latencyThreshold w2)))"

definition self_heal_sweep :: "prober_io \<Rightarrow> (int fset \<Rightarrow> int list) \<Rightarrow> health_world \<Rightarrow> health_world \<times> nat" where
  "self_heal_sweep io ord w =
     (case hw_pool w of
        None \<Rightarrow> (w, 0)
      | Some p \<Rightarrow>
          let cfg = hp_cfg (hw_prober w) in
          if hc_no_heal cfg then (w, 0)
          else
            let (w1, healed) =
              fold (\<lambda>t (w, n). case reconcile_tunnel io t (hc_heal_threshold cfg) (hc_latency_threshold cfg) w of
                  (w1, b) \<Rightarrow> (w1, if b then n + 1 else n)) (collect_self_heal_targets ord p w) (w, 0::nat)
            in (io_retry_failovers io w1, healed))"

end
