(* ===== verification/Tunnel_Pool_Inv.thy ===== *)
theory Tunnel_Pool_Inv
  imports Tunnel_Pool
begin

text \<open>
  What every operation of the tunnel pool keeps: the three indexes are views of the same objects, and the objects
  and the database rows agree on everything that is durable. An operation that decides about a backend either
  changes nothing or writes object and row together and moves the state version.
\<close>

section \<open>The invariant\<close>

definition id_view :: "tunnel_pool \<Rightarrow> int \<Rightarrow> backend_tunnel option" where
  "id_view p i = map_option snd (id_tunnel p i)"

text \<open>Everything but the gauge, the probe key, the instant of the last check and the creation instant.\<close>

definition durable where
  "durable t = (tun_id t, tun_server t, tun_interface t, tun_public_key t, tun_private_key t, tun_endpoint t, tun_enabled t,
     tun_status t, tun_disable_reason t, tun_state_version t, tun_latency t, tun_protocol t, tun_params t)"

definition pool_wf :: "tunnel_pool \<Rightarrow> bool" where
  "pool_wf p \<longleftrightarrow>
     (\<forall>i r. fmlookup (tp_by_id p) i = Some r \<longrightarrow> (\<exists>t. fmlookup (tp_heap p) r = Some t \<and> tun_id t = i \<and>
        fmlookup (tp_by_server p) (tun_server t) = Some r \<and> fmlookup (tp_by_ifname p) (tun_interface t) = Some r)) \<and>
     (\<forall>s r. fmlookup (tp_by_server p) s = Some r \<longrightarrow> (\<exists>t. fmlookup (tp_heap p) r = Some t \<and> tun_server t = s \<and>
        fmlookup (tp_by_id p) (tun_id t) = Some r)) \<and>
     (\<forall>n r. fmlookup (tp_by_ifname p) n = Some r \<longrightarrow> (\<exists>t. fmlookup (tp_heap p) r = Some t \<and> tun_interface t = n \<and>
        fmlookup (tp_by_id p) (tun_id t) = Some r)) \<and>
     (\<forall>r. fmlookup (tp_heap p) r \<noteq> None \<longrightarrow> r < tp_next p)"

definition row_ok :: "tunnel_store \<Rightarrow> int \<Rightarrow> backend_tunnel \<Rightarrow> bool" where
  "row_ok d i row \<longleftrightarrow> tun_id row = i \<and> i < st_next d \<and> 0 < tun_state_version row \<and> tun_protocol row \<noteq> []"

definition store_ok :: "tunnel_store \<Rightarrow> bool" where
  "store_ok d \<longleftrightarrow>
     (\<forall>i row. fmlookup (st_rows d) i = Some row \<longrightarrow> row_ok d i row) \<and>
     (\<forall>i j a b. fmlookup (st_rows d) i = Some a \<and> fmlookup (st_rows d) j = Some b \<and>
        (tun_server a = tun_server b \<or> tun_interface a = tun_interface b) \<longrightarrow> i = j)"

definition agrees :: "tunnel_pool \<Rightarrow> tunnel_store \<Rightarrow> bool" where
  "agrees p d \<longleftrightarrow> (\<forall>i. map_option durable (id_view p i) = map_option durable (fmlookup (st_rows d) i))"

definition pool_inv :: "tunnel_pool \<Rightarrow> bool" where
  "pool_inv p \<longleftrightarrow> pool_wf p \<and> (\<exists>d. tp_db p = Some d \<and> store_ok d \<and> agrees p d)"

lemma pool_wfD:
  assumes "pool_wf p"
  shows "fmlookup (tp_by_id p) i = Some r \<Longrightarrow> \<exists>t. fmlookup (tp_heap p) r = Some t \<and> tun_id t = i \<and>
      fmlookup (tp_by_server p) (tun_server t) = Some r \<and> fmlookup (tp_by_ifname p) (tun_interface t) = Some r"
    and "fmlookup (tp_by_server p) s = Some r \<Longrightarrow> \<exists>t. fmlookup (tp_heap p) r = Some t \<and> tun_server t = s \<and>
      fmlookup (tp_by_id p) (tun_id t) = Some r"
    and "fmlookup (tp_by_ifname p) n = Some r \<Longrightarrow> \<exists>t. fmlookup (tp_heap p) r = Some t \<and> tun_interface t = n \<and>
      fmlookup (tp_by_id p) (tun_id t) = Some r"
    and "fmlookup (tp_heap p) r = Some t0 \<Longrightarrow> r < tp_next p"
  using assms unfolding pool_wf_def by blast+

lemma id_tunnel_iff: "id_tunnel p i = Some (r, t) \<longleftrightarrow> fmlookup (tp_by_id p) i = Some r \<and> fmlookup (tp_heap p) r = Some t"
  by (auto simp: id_tunnel_def split: option.splits)

lemma id_view_iff: "id_view p i = Some t \<longleftrightarrow> (\<exists>r. id_tunnel p i = Some (r, t))"
  by (auto simp: id_view_def)

lemma server_by_id:
  assumes "pool_wf p" "server_tunnel p s = Some (r, t)"
  shows "id_tunnel p (tun_id t) = Some (r, t)" "tun_server t = s"
proof -
  have l: "fmlookup (tp_by_server p) s = Some r" "fmlookup (tp_heap p) r = Some t"
    using assms(2) by (auto simp: server_tunnel_def split: option.splits)
  then show "id_tunnel p (tun_id t) = Some (r, t)" "tun_server t = s"
    using pool_wfD(2) [OF assms(1) l(1)] by (auto simp: id_tunnel_iff)
qed

lemma id_tunnel_id: "pool_wf p \<Longrightarrow> id_tunnel p i = Some (r, t) \<Longrightarrow> tun_id t = i"
  using pool_wfD(1) [of p i r] by (auto simp: id_tunnel_iff)

lemma pool_invE:
  assumes "pool_inv p"
  obtains d where "pool_wf p" "tp_db p = Some d" "store_ok d" "agrees p d"
  using assms by (auto simp: pool_inv_def)

lemma agrees_row:
  assumes "agrees p d" "id_tunnel p i = Some (r, t)"
  obtains row where "fmlookup (st_rows d) i = Some row" "durable row = durable t"
  using assms unfolding agrees_def id_view_def by (metis map_option_eq_Some option.simps(9) snd_conv)

lemma durableD:
  assumes "durable a = durable b"
  shows "tun_id a = tun_id b" "tun_server a = tun_server b" "tun_interface a = tun_interface b"
    "tun_public_key a = tun_public_key b" "tun_private_key a = tun_private_key b" "tun_endpoint a = tun_endpoint b"
    "tun_enabled a = tun_enabled b" "tun_status a = tun_status b" "tun_disable_reason a = tun_disable_reason b"
    "tun_state_version a = tun_state_version b" "tun_latency a = tun_latency b" "tun_protocol a = tun_protocol b"
    "tun_params a = tun_params b"
  using assms by (simp_all add: durable_def)

section \<open>What the version fences\<close>

definition fenced where
  "fenced t = (tun_server t, tun_interface t, tun_public_key t, tun_private_key t, tun_endpoint t, tun_enabled t, tun_status t,
     tun_disable_reason t, tun_latency t, normalize_tunnel_protocol (tun_protocol t))"

definition version_step :: "backend_tunnel \<Rightarrow> backend_tunnel \<Rightarrow> bool" where
  "version_step t t' \<longleftrightarrow> tun_state_version t \<le> tun_state_version t' \<and>
     (tun_state_version t = tun_state_version t' \<longrightarrow> fenced t = fenced t')"

lemma version_step_refl [simp]: "version_step t t"
  by (simp add: version_step_def)

lemma version_step_trans: "version_step a b \<Longrightarrow> version_step b c \<Longrightarrow> version_step a c"
  by (auto simp: version_step_def)

lemma version_step_less [simp]: "tun_state_version t < tun_state_version t' \<Longrightarrow> version_step t t'"
  by (simp add: version_step_def)

lemma version_step_durable: "durable t = durable t' \<Longrightarrow> version_step t t'"
  by (simp add: version_step_def fenced_def durable_def)

definition next_id :: "tunnel_pool \<Rightarrow> int" where
  "next_id p = (case tp_db p of None \<Rightarrow> 0 | Some d \<Rightarrow> st_next d)"

text \<open>A step never lets an identifier come back, and moves the version of a tunnel whenever it changes what is fenced.\<close>

definition fence_step :: "tunnel_pool \<Rightarrow> tunnel_pool \<Rightarrow> bool" where
  "fence_step p p' \<longleftrightarrow> next_id p \<le> next_id p' \<and>
     (\<forall>i t'. i < next_id p \<and> id_view p' i = Some t' \<longrightarrow> (\<exists>t. id_view p i = Some t \<and> version_step t t'))"

lemma fence_step_refl [simp]: "fence_step p p"
  by (auto simp: fence_step_def)

lemma fence_step_trans: "fence_step p q \<Longrightarrow> fence_step q r \<Longrightarrow> fence_step p r"
  unfolding fence_step_def by (meson order.strict_trans2 order_trans version_step_trans)

section \<open>One object and its row\<close>

definition touched :: "tunnel_pool \<Rightarrow> tunnel_pool \<Rightarrow> bool" where
  "touched p p' \<longleftrightarrow> p' = p \<or>
     (\<exists>r t t' d row'. tp_db p = Some d \<and> id_tunnel p (tun_id t) = Some (r, t) \<and>
        tun_id t' = tun_id t \<and> tun_server t' = tun_server t \<and> tun_interface t' = tun_interface t \<and>
        durable row' = durable t' \<and> tun_protocol t' \<noteq> [] \<and> 0 < tun_state_version t' \<and> version_step t t' \<and>
        p' = put_tunnel r t' (p\<lparr>tp_db := Some (d\<lparr>st_rows := fmupd (tun_id t) row' (st_rows d)\<rparr>)\<rparr>))"

lemma put_fields [simp]:
  "tp_by_server (put_tunnel r t p) = tp_by_server p" "tp_by_id (put_tunnel r t p) = tp_by_id p"
  "tp_by_ifname (put_tunnel r t p) = tp_by_ifname p" "tp_db (put_tunnel r t p) = tp_db p"
  "tp_next (put_tunnel r t p) = tp_next p" "tp_closed (put_tunnel r t p) = tp_closed p" "tp_multi (put_tunnel r t p) = tp_multi p"
  "tp_heap (put_tunnel r t p) = fmupd r t (tp_heap p)"
  by (simp_all add: put_tunnel_def)

lemma put_wf:
  assumes "pool_wf p" "id_tunnel p (tun_id t) = Some (r, t)" "tun_id t' = tun_id t" "tun_server t' = tun_server t"
    "tun_interface t' = tun_interface t"
  shows "pool_wf (put_tunnel r t' p)"
proof -
  have r: "fmlookup (tp_by_id p) (tun_id t) = Some r" "fmlookup (tp_heap p) r = Some t" using assms(2) by (auto simp: id_tunnel_iff)
  then have "r < tp_next p" using pool_wfD(4) [OF assms(1)] by blast
  then show ?thesis using assms(1,3-5) r unfolding pool_wf_def by (auto; fastforce)
qed

lemma put_view:
  assumes "pool_wf p" "id_tunnel p (tun_id t) = Some (r, t)"
  shows "id_view (put_tunnel r t' p) i = (if i = tun_id t then Some t' else id_view p i)"
proof -
  have "fmlookup (tp_by_id p) i = Some r \<Longrightarrow> i = tun_id t"
    using pool_wfD(1) [OF assms(1), of i r] assms(2) by (auto simp: id_tunnel_iff)
  then show ?thesis using assms(2) by (auto simp: id_view_def id_tunnel_def split: option.splits)
qed

lemma id_view_db [simp]: "id_view (p\<lparr>tp_db := x\<rparr>) = id_view p" "id_tunnel (p\<lparr>tp_db := x\<rparr>) = id_tunnel p"
  "server_tunnel (p\<lparr>tp_db := x\<rparr>) = server_tunnel p" "pool_wf (p\<lparr>tp_db := x\<rparr>) = pool_wf p"
  by (simp_all add: fun_eq_iff id_view_def id_tunnel_def server_tunnel_def pool_wf_def split: option.split)

lemma store_ok_upd:
  assumes so: "store_ok d" and row: "fmlookup (st_rows d) i = Some row"
    and row': "tun_id row' = tun_id row" "tun_server row' = tun_server row" "tun_interface row' = tun_interface row"
      "0 < tun_state_version row'" "tun_protocol row' \<noteq> []"
  shows "store_ok (d\<lparr>st_rows := fmupd i row' (st_rows d)\<rparr>)"
proof -
  have ok: "row_ok d j b" if "fmlookup (st_rows d) j = Some b" for j b using so that by (simp add: store_ok_def)
  have inj: "j = k" if "fmlookup (st_rows d) j = Some a" "fmlookup (st_rows d) k = Some b"
      "tun_server a = tun_server b \<or> tun_interface a = tun_interface b" for j k a b
    using so that unfolding store_ok_def by blast
  let ?d = "d\<lparr>st_rows := fmupd i row' (st_rows d)\<rparr>"
  have prev: "\<exists>a0. fmlookup (st_rows d) j = Some a0 \<and> tun_server a0 = tun_server a \<and> tun_interface a0 = tun_interface a"
    if "fmlookup (st_rows ?d) j = Some a" for j a
    using that row row' by (cases "j = i") auto
  have "row_ok ?d j b" if "fmlookup (st_rows ?d) j = Some b" for j b
    using that ok row row' by (cases "j = i") (auto simp: row_ok_def)
  moreover have "j = k" if "fmlookup (st_rows ?d) j = Some a" "fmlookup (st_rows ?d) k = Some b"
      "tun_server a = tun_server b \<or> tun_interface a = tun_interface b" for j k a b
    using prev [OF that(1)] prev [OF that(2)] that(3) inj [of j _ k] by fastforce
  ultimately show ?thesis unfolding store_ok_def by blast
qed

lemma touched_inv:
  assumes "pool_inv p" "touched p p'"
  shows "pool_inv p' \<and> fence_step p p'"
  using assms(2) unfolding touched_def
proof (elim disjE exE conjE)
  fix r t t' d row'
  assume d: "tp_db p = Some d" and t: "id_tunnel p (tun_id t) = Some (r, t)"
    and keys: "tun_id t' = tun_id t" "tun_server t' = tun_server t" "tun_interface t' = tun_interface t"
    and row': "durable row' = durable t'" "tun_protocol t' \<noteq> []" "0 < tun_state_version t'" and v: "version_step t t'"
    and p': "p' = put_tunnel r t' (p\<lparr>tp_db := Some (d\<lparr>st_rows := fmupd (tun_id t) row' (st_rows d)\<rparr>)\<rparr>)"
  have wf: "pool_wf p" and so: "store_ok d" and ag: "agrees p d" using assms(1) d by (auto simp: pool_inv_def)
  obtain row where row: "fmlookup (st_rows d) (tun_id t) = Some row" "durable row = durable t"
    using agrees_row [OF ag t] by blast
  let ?q = "p\<lparr>tp_db := Some (d\<lparr>st_rows := fmupd (tun_id t) row' (st_rows d)\<rparr>)\<rparr>"
  have view: "id_view p' i = (if i = tun_id t then Some t' else id_view p i)" for i
    using put_view [of ?q t r t' i] wf t by (simp add: p')
  have "pool_wf p'" unfolding p' using wf t keys by (intro put_wf [where t = t]) simp_all
  moreover have "store_ok (d\<lparr>st_rows := fmupd (tun_id t) row' (st_rows d)\<rparr>)"
    using store_ok_upd [OF so row(1), of row'] row'(2,3) durableD [OF row(2)] durableD [OF row'(1)] keys by simp
  moreover have "agrees p' (d\<lparr>st_rows := fmupd (tun_id t) row' (st_rows d)\<rparr>)"
    using ag row'(1) by (auto simp: agrees_def view)
  moreover have "fence_step p p'"
  proof -
    have "next_id p' = next_id p" using d by (simp add: next_id_def p')
    moreover have "id_view p (tun_id t) = Some t" using t by (simp add: id_view_def)
    ultimately show ?thesis using v by (simp add: fence_step_def view)
  qed
  ultimately show ?thesis by (auto simp: pool_inv_def p')
qed (use assms(1) in simp_all)

lemma same_db [simp]: "tp_db p = Some d \<Longrightarrow> p\<lparr>tp_db := Some d\<rparr> = p"
  by simp

text \<open>What the operations know of the object they found: its row, and that writing both is a touch.\<close>

lemma row_of:
  assumes "pool_inv p" "id_tunnel p i = Some (r, t)"
  obtains d row where "tp_db p = Some d" "fmlookup (st_rows d) (tun_id t) = Some row" "durable row = durable t"
    "tun_id t = i" "0 < tun_state_version t" "tun_protocol t \<noteq> []"
proof -
  obtain d where d: "pool_wf p" "tp_db p = Some d" "store_ok d" "agrees p d" using assms(1) by (rule pool_invE)
  obtain row where row: "fmlookup (st_rows d) i = Some row" "durable row = durable t" using agrees_row [OF d(4) assms(2)] by blast
  have "row_ok d i row" using d(3) row(1) by (simp add: store_ok_def)
  then show ?thesis using that [of d row] d row id_tunnel_id [OF d(1) assms(2)] durableD [OF row(2)] by (simp add: row_ok_def)
qed

lemma touchedI:
  assumes "tp_db p = Some d" "id_tunnel p (tun_id t) = Some (r, t)"
    "tun_id t' = tun_id t" "tun_server t' = tun_server t" "tun_interface t' = tun_interface t"
    "durable row' = durable t'" "tun_protocol t' \<noteq> []" "version_step t t'" "0 < tun_state_version t'"
  shows "touched p (put_tunnel r t' (p\<lparr>tp_db := Some (d\<lparr>st_rows := fmupd (tun_id t) row' (st_rows d)\<rparr>)\<rparr>))"
  using assms unfolding touched_def
  by (intro disjI2 exI [of _ r] exI [of _ t] exI [of _ t'] exI [of _ d] exI [of _ row']) simp

lemma touched_refl [simp]: "touched p p"
  by (simp add: touched_def)

lemmas store_defs = update_backend_tunnel_status_def update_backend_tunnel_status_with_reason_def update_backend_tunnel_enabled_def
  update_backend_tunnel_endpoint_def cas_tunnel_status_def update_backend_tunnel_def sql_update_def

lemma durable_written:
  "durable row = durable t \<Longrightarrow>
   durable (bump_version (row\<lparr>tun_status := status, tun_disable_reason := reason, tun_latency := latency, tun_last_check := c\<rparr>)) =
   durable (written status reason latency now t)"
  by (simp add: durable_def written_def bump_version_def)

lemma durable_written_same:
  "durable row = durable t \<Longrightarrow> reason = tun_disable_reason t \<Longrightarrow>
   durable (bump_version (row\<lparr>tun_status := status, tun_latency := latency, tun_last_check := c\<rparr>)) =
   durable (written status reason latency now t)"
  by (simp add: durable_def written_def bump_version_def)

lemma written_fields [simp]:
  "tun_id (written status reason latency now t) = tun_id t" "tun_server (written status reason latency now t) = tun_server t"
  "tun_interface (written status reason latency now t) = tun_interface t"
  "tun_protocol (written status reason latency now t) = tun_protocol t"
  "tun_state_version (written status reason latency now t) = tun_state_version t + 1"
  "tun_enabled (written status reason latency now t) = tun_enabled t"
  "tun_status (written status reason latency now t) = status"
  "tun_disable_reason (written status reason latency now t) = reason"
  by (simp_all add: written_def bump_version_def)

lemma found:
  assumes "pool_inv p" "server_tunnel p s = Some (r, t) \<or> id_tunnel p i = Some (r, t)"
  obtains d row where "tp_db p = Some d" "fmlookup (st_rows d) (tun_id t) = Some row" "durable row = durable t"
    "id_tunnel p (tun_id t) = Some (r, t)" "0 < tun_state_version t" "tun_protocol t \<noteq> []"
    "\<And>t' row'. tun_id t' = tun_id t \<Longrightarrow> tun_server t' = tun_server t \<Longrightarrow> tun_interface t' = tun_interface t \<Longrightarrow>
      durable row' = durable t' \<Longrightarrow> tun_protocol t' \<noteq> [] \<Longrightarrow> version_step t t' \<Longrightarrow> 0 < tun_state_version t' \<Longrightarrow>
      touched p (put_tunnel r t' (p\<lparr>tp_db := Some (d\<lparr>st_rows := fmupd (tun_id t) row' (st_rows d)\<rparr>)\<rparr>))"
proof -
  have id: "id_tunnel p (tun_id t) = Some (r, t)"
    using assms server_by_id(1) [of p s r t] id_tunnel_id [of p i r t] by (auto simp: pool_inv_def)
  obtain d row where d: "tp_db p = Some d" "fmlookup (st_rows d) (tun_id t) = Some row" "durable row = durable t"
    "0 < tun_state_version t" "tun_protocol t \<noteq> []" using row_of [OF assms(1) id] by metis
  show ?thesis using d id by (intro that [of d row] touchedI) simp_all
qed

lemma set_status_touched:
  assumes "pool_inv p"
  shows "touched p (fst (set_tunnel_status_gen ok dbnow now s expId expVersion status latency p))"
proof (cases "server_tunnel p s")
  case None
  then show ?thesis by (simp add: set_tunnel_status_gen_def)
next
  case (Some rt)
  obtain r t where st: "server_tunnel p s = Some (r, t)" using Some by (cases rt) simp
  show ?thesis
  proof (rule found [OF assms disjI1 [OF st]], goal_cases)
    case (1 d row)
    then show ?case
      using durableD [OF 1(3)] 1(7) [OF _ _ _ durable_written [OF 1(3)]] 1(7) [OF _ _ _ durable_written_same [OF 1(3)]]
      by (auto simp: set_tunnel_status_gen_def st persist_status_def db_call_def store_defs Let_def)
  qed
qed

lemma set_status_with_reason_touched:
  assumes "pool_inv p"
  shows "touched p (fst (set_tunnel_status_with_reason ok dbnow now s status reason latency p))"
proof (cases "server_tunnel p s")
  case None
  then show ?thesis by (simp add: set_tunnel_status_with_reason_def)
next
  case (Some rt)
  obtain r t where st: "server_tunnel p s = Some (r, t)" using Some by (cases rt) simp
  show ?thesis
  proof (rule found [OF assms disjI1 [OF st]], goal_cases)
    case (1 d row)
    then show ?case using durableD [OF 1(3)] 1(7) [OF _ _ _ durable_written [OF 1(3)]]
      by (auto simp: set_tunnel_status_with_reason_def st db_call_def store_defs)
  qed
qed

lemma compare_and_swap_touched:
  assumes "pool_inv p"
  shows "touched p (fst (compare_and_swap ok dbnow now s expId expStatus expReason expVersion status reason latency p))"
proof (cases "server_tunnel p s")
  case None
  then show ?thesis by (simp add: compare_and_swap_def)
next
  case (Some rt)
  obtain r t where st: "server_tunnel p s = Some (r, t)" using Some by (cases rt) simp
  show ?thesis
  proof (rule found [OF assms disjI1 [OF st]], goal_cases)
    case (1 d row)
    then show ?case using durableD [OF 1(3)] 1(7) [OF _ _ _ durable_written [OF 1(3)]]
      by (auto simp: compare_and_swap_def st store_defs)
  qed
qed

lemma set_enabled_touched:
  assumes "pool_inv p"
  shows "touched p (fst (set_tunnel_enabled hookOk ok s enabled reason p))"
proof (cases "server_tunnel p s")
  case None
  then show ?thesis by (simp add: set_tunnel_enabled_def)
next
  case (Some rt)
  obtain r t where st: "server_tunnel p s = Some (r, t)" using Some by (cases rt) simp
  show ?thesis
  proof (rule found [OF assms disjI1 [OF st]], goal_cases)
    case (1 d row)
    have "durable (bump_version (row\<lparr>tun_enabled := e, tun_disable_reason := x\<rparr>)) =
        durable (bump_version (t\<lparr>tun_enabled := e, tun_disable_reason := x\<rparr>))" for e x
      using 1(3) by (simp add: durable_def bump_version_def)
    then show ?case using 1 1(7) [of "bump_version (t\<lparr>tun_enabled := enabled, tun_disable_reason := x\<rparr>)" for x]
      by (auto simp: set_tunnel_enabled_def st db_call_def store_defs Let_def bump_version_def)
  qed
qed

lemma set_endpoint_touched:
  assumes "pool_inv p"
  shows "touched p (fst (set_tunnel_endpoint hookOk ok i endpoint p))"
proof (cases "id_tunnel p i")
  case None
  then show ?thesis by (simp add: set_tunnel_endpoint_def)
next
  case (Some rt)
  obtain r t where st: "id_tunnel p i = Some (r, t)" using Some by (cases rt) simp
  show ?thesis
  proof (rule found [OF assms disjI2 [OF st]], goal_cases)
    case (1 d row)
    have "durable (bump_version (row\<lparr>tun_endpoint := endpoint\<rparr>)) = durable ((bump_version t)\<lparr>tun_endpoint := endpoint\<rparr>)"
      using 1(3) by (simp add: durable_def bump_version_def)
    then show ?case using 1 1(7) [of "(bump_version t)\<lparr>tun_endpoint := endpoint\<rparr>"]
      by (auto simp: set_tunnel_endpoint_def st db_call_def store_defs Let_def bump_version_def)
  qed
qed

lemma set_public_key_touched:
  assumes "pool_inv p"
  shows "touched p (fst (set_tunnel_public_key hookOk ok i key p))"
proof (cases "id_tunnel p i")
  case None
  then show ?thesis by (simp add: set_tunnel_public_key_def)
next
  case (Some rt)
  obtain r t where st: "id_tunnel p i = Some (r, t)" using Some by (cases rt) simp
  show ?thesis
  proof (rule found [OF assms disjI2 [OF st]], goal_cases)
    case (1 d row)
    have "durable (row\<lparr>tun_public_key := key, tun_state_version := v\<rparr>) = durable (t\<lparr>tun_state_version := v, tun_public_key := key\<rparr>)" for v
      using 1(3) by (simp add: durable_def)
    then show ?case using 1 1(7) [of "t\<lparr>tun_state_version := next_version t, tun_public_key := key\<rparr>"]
      by (auto simp: set_tunnel_public_key_def st db_call_def store_defs Let_def next_version_def)
  qed
qed

lemma install_update_touched:
  assumes "pool_inv p" "server_tunnel p s = Some (r, t)"
    and upd: "\<And>x. tun_id (upd x) = tun_id x \<and> tun_server (upd x) = tun_server x \<and> tun_interface (upd x) = tun_interface x \<and>
        tun_state_version (upd x) = tun_state_version x \<and> tun_protocol (upd t) \<noteq> []"
      "\<And>x y. durable x = durable y \<Longrightarrow> durable (upd x) = durable (upd y)"
      "same_tunnel_identity decodedEqual t cand \<Longrightarrow> fenced (upd t) = fenced t"
  shows "touched p (fst (install_update ok decodedEqual upd cand r t p))"
proof (rule found [OF assms(1) disjI1 [OF assms(2)]], goal_cases)
  case (1 d row)
  have v: "durable x = durable y \<Longrightarrow> durable (x\<lparr>tun_state_version := v\<rparr>) = durable (y\<lparr>tun_state_version := v\<rparr>)" for x y v
    by (simp add: durable_def)
  show ?case
  proof (cases "same_tunnel_identity decodedEqual t cand")
    case True
    have "version_step t (upd t)" using upd(1,3) True by (simp add: version_step_def)
    then show ?thesis using 1 1(7) [of "upd t" "upd row"] upd(1) upd(2) [OF 1(3)] True
      by (auto simp: install_update_def db_call_def store_defs Let_def)
  next
    case False
    then show ?thesis using 1 1(7) [of "(upd t)\<lparr>tun_state_version := next_version t\<rparr>"] upd(1) v [OF upd(2) [OF 1(3)]]
      by (auto simp: install_update_def db_call_def store_defs Let_def next_version_def)
  qed
qed

lemma update_existing_touched:
  assumes "pool_inv p" "server_tunnel p s = Some (r, t)" "proto \<noteq> []"
  shows "touched p (fst (update_existing ok decodedEqual kg endpoint serverPub proto params r t p))"
proof (cases "normalize_tunnel_protocol (tun_protocol t) = proto")
  case False
  then show ?thesis by (simp add: update_existing_def)
next
  case True
  have proto: "tun_protocol t \<noteq> []" by (rule found [OF assms(1) disjI1 [OF assms(2)]])
  show ?thesis
  proof (cases "proto = ''awg''")
    case awg: True
    show ?thesis
      using True awg proto unfolding update_existing_def Let_def
      by (auto intro!: install_update_touched [OF assms(1,2)] split: option.split)
        (auto simp: durable_def fenced_def same_tunnel_identity_def Let_def split: if_splits)
  next
    case False
    then show ?thesis
      using True assms(3) unfolding update_existing_def Let_def
      by (auto intro!: install_update_touched [OF assms(1,2)])
        (auto simp: durable_def fenced_def same_tunnel_identity_def Let_def split: if_splits)
  qed
qed

section \<open>The gauges\<close>

text \<open>Operations on the gauges change nothing that is durable.\<close>

definition gauge_step :: "tunnel_pool \<Rightarrow> tunnel_pool \<Rightarrow> bool" where
  "gauge_step p p' \<longleftrightarrow> tp_by_server p' = tp_by_server p \<and> tp_by_id p' = tp_by_id p \<and> tp_by_ifname p' = tp_by_ifname p \<and>
     tp_next p' = tp_next p \<and> (\<forall>r. map_option durable (fmlookup (tp_heap p') r) = map_option durable (fmlookup (tp_heap p) r)) \<and>
     (case (tp_db p, tp_db p') of
        (Some d, Some d') \<Rightarrow> st_next d' = st_next d \<and>
          (\<forall>i. map_option durable (fmlookup (st_rows d') i) = map_option durable (fmlookup (st_rows d) i))
      | (None, None) \<Rightarrow> True | _ \<Rightarrow> False)"

lemma gauge_refl [simp]: "gauge_step p p"
  by (simp add: gauge_step_def split: option.split)

lemma gauge_trans: "gauge_step p q \<Longrightarrow> gauge_step q r \<Longrightarrow> gauge_step p r"
  by (simp add: gauge_step_def split: option.splits)

lemma durable_conns [simp]: "durable (t\<lparr>tun_conns := n\<rparr>) = durable t"
  by (simp add: durable_def)

lemma gauge_put: "fmlookup (tp_heap p) r = Some t \<Longrightarrow> gauge_step p (put_tunnel r (t\<lparr>tun_conns := n\<rparr>) p)"
  by (simp add: gauge_step_def split: option.split)

lemma gauge_db: "gauge_step p (fst (db_call (update_backend_tunnel ok i (\<lambda>row. row\<lparr>tun_conns := n\<rparr>)) p))"
  by (auto simp: gauge_step_def db_call_def update_backend_tunnel_def sql_update_def split: option.split)

lemma id_view_alt: "id_view p i = (case fmlookup (tp_by_id p) i of None \<Rightarrow> None | Some r \<Rightarrow> fmlookup (tp_heap p) r)"
  by (simp add: id_view_def id_tunnel_def split: option.split)

lemma gauge_views:
  assumes "gauge_step p p'"
  shows "map_option durable (id_view p' i) = map_option durable (id_view p i)"
  using assms by (cases "fmlookup (tp_by_id p) i") (simp_all add: gauge_step_def id_view_alt)

definition index_keys where
  "index_keys t = (tun_id t, tun_server t, tun_interface t)"

lemma wf_keys:
  assumes "pool_wf p" "tp_by_server p' = tp_by_server p" "tp_by_id p' = tp_by_id p" "tp_by_ifname p' = tp_by_ifname p"
    "tp_next p' = tp_next p"
    "\<And>r. map_option index_keys (fmlookup (tp_heap p') r) = map_option index_keys (fmlookup (tp_heap p) r)"
  shows "pool_wf p'"
proof -
  have same: "\<exists>t'. fmlookup (tp_heap p') r = Some t' \<and> tun_id t' = tun_id t \<and> tun_server t' = tun_server t \<and>
      tun_interface t' = tun_interface t" if "fmlookup (tp_heap p) r = Some t" for r t
    using assms(6) [of r] that by (auto simp: index_keys_def)
  have "r < tp_next p" if "fmlookup (tp_heap p') r \<noteq> None" for r
    using assms(6) [of r] that pool_wfD(4) [OF assms(1), of r] by (cases "fmlookup (tp_heap p) r") auto
  moreover have "\<exists>t. fmlookup (tp_heap p') r = Some t \<and> tun_id t = i \<and>
        fmlookup (tp_by_server p) (tun_server t) = Some r \<and> fmlookup (tp_by_ifname p) (tun_interface t) = Some r"
    if "fmlookup (tp_by_id p) i = Some r" for i r
    using pool_wfD(1) [OF assms(1) that] same by metis
  moreover have "\<exists>t. fmlookup (tp_heap p') r = Some t \<and> tun_server t = s \<and> fmlookup (tp_by_id p) (tun_id t) = Some r"
    if "fmlookup (tp_by_server p) s = Some r" for s r
    using pool_wfD(2) [OF assms(1) that] same by metis
  moreover have "\<exists>t. fmlookup (tp_heap p') r = Some t \<and> tun_interface t = n \<and> fmlookup (tp_by_id p) (tun_id t) = Some r"
    if "fmlookup (tp_by_ifname p) n = Some r" for n r
    using pool_wfD(3) [OF assms(1) that] same by metis
  ultimately show ?thesis using assms(2-5) by (simp add: pool_wf_def)
qed

lemma wf_durable:
  assumes "pool_wf p" "tp_by_server p' = tp_by_server p" "tp_by_id p' = tp_by_id p" "tp_by_ifname p' = tp_by_ifname p"
    "tp_next p' = tp_next p" "\<And>r. map_option durable (fmlookup (tp_heap p') r) = map_option durable (fmlookup (tp_heap p) r)"
  shows "pool_wf p'"
proof (rule wf_keys [OF assms(1-5)])
  fix r
  show "map_option index_keys (fmlookup (tp_heap p') r) = map_option index_keys (fmlookup (tp_heap p) r)"
    using assms(6) [of r] by (cases "fmlookup (tp_heap p') r"; cases "fmlookup (tp_heap p) r") (auto simp: durable_def index_keys_def)
qed

lemma store_durable:
  assumes "store_ok d" "st_next d' = st_next d"
    "\<And>i. map_option durable (fmlookup (st_rows d') i) = map_option durable (fmlookup (st_rows d) i)"
  shows "store_ok d'"
proof -
  have row: "\<exists>b0. fmlookup (st_rows d) i = Some b0 \<and> durable b0 = durable b" if "fmlookup (st_rows d') i = Some b" for i b
    using assms(3) [of i] that by (cases "fmlookup (st_rows d) i") auto
  have ok: "row_ok d j b" if "fmlookup (st_rows d) j = Some b" for j b using assms(1) that by (simp add: store_ok_def)
  have inj: "j = k" if "fmlookup (st_rows d) j = Some a" "fmlookup (st_rows d) k = Some b"
      "tun_server a = tun_server b \<or> tun_interface a = tun_interface b" for j k a b
    using assms(1) that unfolding store_ok_def by blast
  have "row_ok d' i b" if "fmlookup (st_rows d') i = Some b" for i b
    using row [OF that] ok assms(2) durableD(1,10,12) unfolding row_ok_def by metis
  moreover have "j = k" if ab: "fmlookup (st_rows d') j = Some a" "fmlookup (st_rows d') k = Some b"
      "tun_server a = tun_server b \<or> tun_interface a = tun_interface b" for j k a b
  proof -
    obtain a0 b0 where "fmlookup (st_rows d) j = Some a0" "durable a0 = durable a" "fmlookup (st_rows d) k = Some b0"
      "durable b0 = durable b" using row [OF ab(1)] row [OF ab(2)] by blast
    then show ?thesis using inj [of j a0 k b0] ab(3) durableD(2,3) by metis
  qed
  ultimately show ?thesis unfolding store_ok_def by blast
qed

lemma gauge_inv:
  assumes "pool_inv p" "gauge_step p p'"
  shows "pool_inv p' \<and> fence_step p p'"
proof -
  obtain d where d: "pool_wf p" "tp_db p = Some d" "store_ok d" "agrees p d" using assms(1) by (rule pool_invE)
  note g = assms(2) [unfolded gauge_step_def]
  obtain d' where d': "tp_db p' = Some d'" "st_next d' = st_next d"
    "\<And>i. map_option durable (fmlookup (st_rows d') i) = map_option durable (fmlookup (st_rows d) i)"
    using g d(2) by (auto split: option.splits)
  have "pool_wf p'" using wf_durable [OF d(1)] g by simp
  moreover have "store_ok d'" using store_durable [OF d(3) d'(2,3)] .
  moreover have "agrees p' d'" using d(4) gauge_views [OF assms(2)] d'(3) by (simp add: agrees_def)
  moreover have "fence_step p p'"
  proof -
    have "\<exists>t. id_view p i = Some t \<and> version_step t t'" if "id_view p' i = Some t'" for i t'
      using gauge_views [OF assms(2), of i] that version_step_durable by (metis map_option_eq_Some option.simps(9))
    then show ?thesis using d(2) d'(1,2) by (simp add: fence_step_def next_id_def)
  qed
  ultimately show ?thesis using d'(1) by (auto simp: pool_inv_def)
qed

lemma gauge_persist: "gauge_step p (persist_connection_count ok i n p)"
  unfolding persist_connection_count_def by (rule gauge_db)

lemma gauge_found:
  assumes "id_tunnel p i = Some (r, t)"
  shows "gauge_step p (persist_connection_count ok j n (put_tunnel r (t\<lparr>tun_conns := n\<rparr>) p))"
  using assms gauge_trans [OF gauge_put gauge_persist] by (simp add: id_tunnel_iff)

lemma gauge_increment: "gauge_step p (increment_connections ok i p)"
  by (cases "id_tunnel p i") (auto simp: increment_connections_def Let_def gauge_found)

lemma gauge_decrement: "gauge_step p (decrement_connections ok i p)"
  by (cases "id_tunnel p i") (auto simp: decrement_connections_def Let_def gauge_found)

lemma gauge_set_count: "gauge_step p (fst (set_connection_count ok i cnt p))"
proof -
  have "gauge_step p (fst (db_call (update_backend_tunnel ok j (\<lambda>row. row\<lparr>tun_conns := n\<rparr>)) (put_tunnel r (t\<lparr>tun_conns := n\<rparr>) p)))"
    if "id_tunnel p i = Some (r, t)" for r t j n
    using gauge_found [OF that] by (simp add: persist_connection_count_def)
  then show ?thesis by (cases "id_tunnel p i") (auto simp: set_connection_count_def Let_def)
qed

lemma gauge_flags: "gauge_step p (close_pool p)" "gauge_step p (set_multi_protocol b p)"
  by (simp_all add: gauge_step_def close_pool_def set_multi_protocol_def split: option.split)

lemma gauge_transfer: "gauge_step p (fst (transfer_connections ok1 ok2 from to expVersion p))"
proof -
  obtain p1 fi fc where f: "take_from from p = (p1, fi, fc)" by (cases "take_from from p") auto
  have p1: "gauge_step p p1"
    using f gauge_put [of p] by (cases "id_tunnel p from") (auto simp: take_from_def Let_def id_tunnel_iff)
  have p2: "gauge_step p (put_tunnel rt (t'\<lparr>tun_conns := n\<rparr>) p1)" if "fmlookup (tp_heap p1) rt = Some t'" for rt t' n
    using gauge_trans [OF p1 gauge_put [OF that]] .
  have p3: "gauge_step p (if c then persist_connection_count ok1 fi fc q else q)" if "gauge_step p q" for c q
    using that gauge_trans [OF that gauge_persist] by simp
  have p4: "gauge_step p (if c then persist_connection_count ok2 i n q else q)" if "gauge_step p q" for c q i n
    using that gauge_trans [OF that gauge_persist] by simp
  show ?thesis
  proof (cases "id_tunnel p to")
    case None
    then show ?thesis by (simp add: transfer_connections_def)
  next
    case (Some rt)
    obtain r t where rt: "rt = (r, t)" by fastforce
    show ?thesis
    proof (cases "fmlookup (tp_heap p1) r")
      case None
      then show ?thesis using Some rt p1 by (simp add: transfer_connections_def f)
    next
      case (Some t')
      then show ?thesis using \<open>id_tunnel p to = Some rt\<close> rt
        by (auto simp: transfer_connections_def f Let_def intro!: p2 gauge_trans [OF p2 gauge_persist]
            gauge_trans [OF gauge_trans [OF p2 gauge_persist] gauge_persist])
    qed
  qed
qed

section \<open>Creation, removal and reloading\<close>

lemma view_index:
  assumes "pool_wf p"
  shows "id_view (index_tunnel t p) i = (if i = tun_id t then Some t else id_view p i)"
proof -
  have "fmlookup (tp_by_id p) i \<noteq> Some (tp_next p)"
    using pool_wfD(1,4) [OF assms] by (metis less_irrefl)
  then show ?thesis by (auto simp: id_view_alt index_tunnel_def Let_def split: option.split)
qed

text \<open>A tunnel may be indexed when it is new in all three indexes, or replaces one object in all three.\<close>

definition indexable :: "backend_tunnel \<Rightarrow> tunnel_pool \<Rightarrow> bool" where
  "indexable t p \<longleftrightarrow> (\<forall>i u. id_view p i = Some u \<and> (i = tun_id t \<or> tun_server u = tun_server t \<or> tun_interface u = tun_interface t) \<longrightarrow>
     i = tun_id t \<and> tun_server u = tun_server t \<and> tun_interface u = tun_interface t)"

lemma index_wf:
  assumes wf: "pool_wf p" and ok: "indexable t p"
  shows "pool_wf (index_tunnel t p)"
proof -
  have below: "r < tp_next p" if "fmlookup (tp_heap p) r = Some u" for r u using pool_wfD(4) [OF wf that] .
  have next1: "fmlookup (tp_heap p) (tp_next p) = None" using below by (cases "fmlookup (tp_heap p) (tp_next p)") auto
  have clash: "i = tun_id t \<and> tun_server u = tun_server t \<and> tun_interface u = tun_interface t"
    if "fmlookup (tp_by_id p) i = Some r" "fmlookup (tp_heap p) r = Some u"
      "i = tun_id t \<or> tun_server u = tun_server t \<or> tun_interface u = tun_interface t" for i r u
  proof -
    have "id_view p i = Some u" using that(1,2) by (simp add: id_view_alt)
    then show ?thesis using ok that(3) unfolding indexable_def by blast
  qed
  have 1: "\<exists>u. fmlookup (tp_heap (index_tunnel t p)) r = Some u \<and> tun_id u = i \<and>
      fmlookup (tp_by_server (index_tunnel t p)) (tun_server u) = Some r \<and>
      fmlookup (tp_by_ifname (index_tunnel t p)) (tun_interface u) = Some r"
    if l: "fmlookup (tp_by_id (index_tunnel t p)) i = Some r" for i r
  proof (cases "i = tun_id t")
    case False
    then have i: "fmlookup (tp_by_id p) i = Some r" using l by (simp add: index_tunnel_def Let_def)
    then obtain u where u: "fmlookup (tp_heap p) r = Some u" "tun_id u = i" "fmlookup (tp_by_server p) (tun_server u) = Some r"
      "fmlookup (tp_by_ifname p) (tun_interface u) = Some r" using pool_wfD(1) [OF wf] by blast
    then show ?thesis using clash [OF i u(1)] False next1 by (auto simp: index_tunnel_def Let_def)
  qed (use l in \<open>simp add: index_tunnel_def Let_def\<close>)
  have 2: "\<exists>u. fmlookup (tp_heap (index_tunnel t p)) r = Some u \<and> tun_server u = s \<and>
      fmlookup (tp_by_id (index_tunnel t p)) (tun_id u) = Some r"
    if l: "fmlookup (tp_by_server (index_tunnel t p)) s = Some r" for s r
  proof (cases "s = tun_server t")
    case False
    then have "fmlookup (tp_by_server p) s = Some r" using l by (simp add: index_tunnel_def Let_def)
    then obtain u where u: "fmlookup (tp_heap p) r = Some u" "tun_server u = s" "fmlookup (tp_by_id p) (tun_id u) = Some r"
      using pool_wfD(2) [OF wf] by blast
    then show ?thesis using clash [OF u(3,1)] False next1 by (auto simp: index_tunnel_def Let_def)
  qed (use l in \<open>simp add: index_tunnel_def Let_def\<close>)
  have 3: "\<exists>u. fmlookup (tp_heap (index_tunnel t p)) r = Some u \<and> tun_interface u = n \<and>
      fmlookup (tp_by_id (index_tunnel t p)) (tun_id u) = Some r"
    if l: "fmlookup (tp_by_ifname (index_tunnel t p)) n = Some r" for n r
  proof (cases "n = tun_interface t")
    case False
    then have "fmlookup (tp_by_ifname p) n = Some r" using l by (simp add: index_tunnel_def Let_def)
    then obtain u where u: "fmlookup (tp_heap p) r = Some u" "tun_interface u = n" "fmlookup (tp_by_id p) (tun_id u) = Some r"
      using pool_wfD(3) [OF wf] by blast
    then show ?thesis using clash [OF u(3,1)] False next1 by (auto simp: index_tunnel_def Let_def)
  qed (use l in \<open>simp add: index_tunnel_def Let_def\<close>)
  have 4: "r < tp_next (index_tunnel t p)" if "fmlookup (tp_heap (index_tunnel t p)) r \<noteq> None" for r
    using that below by (cases "r = tp_next p") (auto simp: index_tunnel_def Let_def intro: less_SucI)
  show ?thesis unfolding pool_wf_def using 1 2 3 4 by blast
qed

lemma index_fields [simp]: "tp_db (index_tunnel t p) = tp_db p" "tp_multi (index_tunnel t p) = tp_multi p"
  "tp_closed (index_tunnel t p) = tp_closed p"
  by (simp_all add: index_tunnel_def Let_def)

lemma index_db [simp]: "index_tunnel t (p\<lparr>tp_db := x\<rparr>) = (index_tunnel t p)\<lparr>tp_db := x\<rparr>"
  by (simp add: index_tunnel_def Let_def)

lemma store_ok_insert:
  assumes so: "store_ok d" and row: "row_ok (d\<lparr>st_next := st_next d + 1\<rparr>) (st_next d) row"
    and new: "\<And>i b. fmlookup (st_rows d) i = Some b \<Longrightarrow> tun_server b \<noteq> tun_server row \<and> tun_interface b \<noteq> tun_interface row"
  shows "store_ok (d\<lparr>st_rows := fmupd (st_next d) row (st_rows d), st_next := st_next d + 1\<rparr>)"
proof -
  let ?d = "d\<lparr>st_rows := fmupd (st_next d) row (st_rows d), st_next := st_next d + 1\<rparr>"
  have ok: "row_ok d j b" if "fmlookup (st_rows d) j = Some b" for j b using so that by (simp add: store_ok_def)
  have inj: "j = k" if "fmlookup (st_rows d) j = Some a" "fmlookup (st_rows d) k = Some b"
      "tun_server a = tun_server b \<or> tun_interface a = tun_interface b" for j k a b
    using so that unfolding store_ok_def by blast
  have "row_ok ?d j b" if "fmlookup (st_rows ?d) j = Some b" for j b
    using that ok [of j b] row by (auto simp: row_ok_def split: if_splits)
  moreover have "j = k" if "fmlookup (st_rows ?d) j = Some a" "fmlookup (st_rows ?d) k = Some b"
      "tun_server a = tun_server b \<or> tun_interface a = tun_interface b" for j k a b
    using that new [of j a] new [of k b] inj [of j a k b] by (cases "j = st_next d"; cases "k = st_next d") auto
  ultimately show ?thesis unfolding store_ok_def by blast
qed

lemma create_inv:
  assumes "pool_inv p" "server_tunnel p (tun_server t) = None" "0 < tun_state_version t" "tun_protocol t \<noteq> []" "tun_enabled t"
    "tun_status t \<noteq> []"
  shows "pool_inv (fst (create_tunnel ok dbnow t p)) \<and> fence_step p (fst (create_tunnel ok dbnow t p))"
proof -
  obtain d where d: "pool_wf p" "tp_db p = Some d" "store_ok d" "agrees p d" using assms(1) by (rule pool_invE)
  obtain d' res where c: "create_backend_tunnel ok dbnow t d = (d', res)" by fastforce
  show ?thesis
  proof (cases res)
    case (Inl e)
    then have "d' = d" using c by (auto simp: create_backend_tunnel_def Let_def split: if_splits)
    then show ?thesis using assms(1) d c Inl by (simp add: create_tunnel_def)
  next
    case (Inr t1)
    obtain row where row: "d' = d\<lparr>st_rows := fmupd (st_next d) row (st_rows d), st_next := st_next d + 1\<rparr>" "durable row = durable t1"
      "tun_id t1 = st_next d" "tun_server t1 = tun_server t" "tun_interface t1 = tun_interface t"
      "0 < tun_state_version row" "tun_protocol row \<noteq> []"
      using c Inr assms(3-6) by (auto simp: create_backend_tunnel_def Let_def durable_def default_created_def split: if_splits)
    have iface: "tun_interface b \<noteq> tun_interface t" if "fmlookup (st_rows d) i = Some b" for i b
    proof -
      have "tun_interface (default_created dbnow t) = tun_interface t" by (simp add: default_created_def)
      then have "\<forall>i \<in> fset (fmdom (st_rows d)). tun_interface (the (fmlookup (st_rows d) i)) \<noteq> tun_interface t"
        using c Inr by (auto simp: create_backend_tunnel_def Let_def split: if_splits)
      moreover have "i |\<in>| fmdom (st_rows d)" using that by (rule fmdomI)
      ultimately show ?thesis using that by fastforce
    qed
    have rows: "\<exists>b. fmlookup (st_rows d) i = Some b \<and> durable b = durable u" if "id_view p i = Some u" for i u
      using d(4) that unfolding agrees_def by (metis map_option_eq_Some option.simps(9))
    have below: "i < st_next d" if "fmlookup (st_rows d) i = Some b" for i b
      using d(3) that by (auto simp: store_ok_def row_ok_def)
    have server: "tun_server u \<noteq> tun_server t" if u: "id_view p i = Some u" for i u
    proof
      assume "tun_server u = tun_server t"
      moreover obtain r where "fmlookup (tp_by_id p) i = Some r" "fmlookup (tp_heap p) r = Some u"
        using u by (auto simp: id_view_alt split: option.splits)
      ultimately have "server_tunnel p (tun_server t) = Some (r, u)"
        using pool_wfD(1) [OF d(1), of i r] by (auto simp: server_tunnel_def)
      then show False using assms(2) by simp
    qed
    have row_server: "tun_server b \<noteq> tun_server t" if b: "fmlookup (st_rows d) i = Some b" for i b
    proof -
      have "map_option durable (id_view p i) = Some (durable b)" using d(4) b by (simp add: agrees_def)
      then obtain u where "id_view p i = Some u" "durable u = durable b" by auto
      then show ?thesis using server durableD(2) by metis
    qed
    have "indexable t1 p"
      unfolding indexable_def
    proof (intro allI impI, elim conjE)
      fix i u assume u: "id_view p i = Some u" "i = tun_id t1 \<or> tun_server u = tun_server t1 \<or> tun_interface u = tun_interface t1"
      obtain b where b: "fmlookup (st_rows d) i = Some b" "durable b = durable u" using rows [OF u(1)] by blast
      show "i = tun_id t1 \<and> tun_server u = tun_server t1 \<and> tun_interface u = tun_interface t1"
        using u(2) below [OF b(1)] iface [OF b(1)] server [OF u(1)] durableD(3) [OF b(2)] row(3-5) by auto
    qed
    then have wf: "pool_wf (index_tunnel t1 p)" by (rule index_wf [OF d(1)])
    have p': "fst (create_tunnel ok dbnow t p) = (index_tunnel t1 p)\<lparr>tp_db := Some d'\<rparr>"
      using d(2) c Inr by (simp add: create_tunnel_def)
    have "store_ok d'" unfolding row(1)
    proof (rule store_ok_insert [OF d(3)])
      show "row_ok (d\<lparr>st_next := st_next d + 1\<rparr>) (st_next d) row" using row(3,6,7) durableD(1) [OF row(2)] by (simp add: row_ok_def)
      show "tun_server b \<noteq> tun_server row \<and> tun_interface b \<noteq> tun_interface row" if "fmlookup (st_rows d) i = Some b" for i b
        using row_server [OF that] iface [OF that] durableD(2,3) [OF row(2)] row(4,5) by simp
    qed
    moreover have "agrees ((index_tunnel t1 p)\<lparr>tp_db := Some d'\<rparr>) d'"
      using d(4) row(1-3) by (auto simp: agrees_def view_index [OF d(1)])
    moreover have "fence_step p ((index_tunnel t1 p)\<lparr>tp_db := Some d'\<rparr>)"
      using d(2) row(1,3) by (auto simp: fence_step_def next_id_def view_index [OF d(1)])
    ultimately show ?thesis using wf by (simp add: p' pool_inv_def)
  qed
qed

lemma fresh_fields:
  assumes "fresh_tunnel kg now s endpoint serverPub proto params = Some t" "proto \<noteq> []"
  shows "tun_server t = s" "0 < tun_state_version t" "tun_protocol t \<noteq> []" "tun_enabled t" "tun_status t \<noteq> []"
  using assms by (auto simp: fresh_tunnel_def blank_tunnel_def Let_def status_connecting_def status_active_def
      split: if_splits sum.splits prod.splits)

lemma add_inv:
  assumes "pool_inv p"
  shows "pool_inv (fst (add_tunnel_with_config ok jsonOk decodedEqual kg dbnow now s endpoint serverPub protocol params p)) \<and>
    fence_step p (fst (add_tunnel_with_config ok jsonOk decodedEqual kg dbnow now s endpoint serverPub protocol params p))"
proof -
  have proto: "normalize_tunnel_protocol protocol \<noteq> []" by (auto simp: normalize_tunnel_protocol_def normalize_protocol_def)
  have upd: "pool_inv (fst (update_existing ok decodedEqual kg endpoint serverPub (normalize_tunnel_protocol protocol) params r t p)) \<and>
      fence_step p (fst (update_existing ok decodedEqual kg endpoint serverPub (normalize_tunnel_protocol protocol) params r t p))"
    if "server_tunnel p s = Some (r, t)" for r t
    by (rule touched_inv [OF assms update_existing_touched [OF assms that proto]])
  have new: "pool_inv (fst (create_tunnel ok dbnow t p)) \<and> fence_step p (fst (create_tunnel ok dbnow t p))"
    if "server_tunnel p s = None" "fresh_tunnel kg now s endpoint serverPub (normalize_tunnel_protocol protocol) params = Some t" for t
    using fresh_fields [OF that(2) proto] that(1) by (intro create_inv [OF assms]) simp_all
  define Q where "Q = (\<lambda>q. pool_inv q \<and> fence_step p q)"
  have guard: "Q (fst (if c then (p, e) else y))" if "Q (fst y)" for c e and y :: "tunnel_pool \<times> (tunnel_error + backend_tunnel)"
    using that assms by (simp add: Q_def)
  have "Q (fst (add_tunnel_with_config ok jsonOk decodedEqual kg dbnow now s endpoint serverPub protocol params p))"
    unfolding add_tunnel_with_config_def Let_def
  proof (intro guard)
    show "Q (fst (case server_tunnel p s of
          None \<Rightarrow> (case fresh_tunnel kg now s endpoint serverPub (normalize_tunnel_protocol protocol) params of
              None \<Rightarrow> (p, Inl KeyGenerationFailed) | Some t \<Rightarrow> create_tunnel ok dbnow t p)
        | Some (r, existing) \<Rightarrow> update_existing ok decodedEqual kg endpoint serverPub (normalize_tunnel_protocol protocol) params r existing p))"
      using assms upd new by (auto simp: Q_def split: option.split)
  qed
  then show ?thesis by (simp add: Q_def)
qed

lemma remove_inv:
  assumes "pool_inv p"
  shows "pool_inv (fst (remove_tunnel ok s p)) \<and> fence_step p (fst (remove_tunnel ok s p))"
proof (cases "server_tunnel p s")
  case None
  then show ?thesis using assms by (simp add: remove_tunnel_def)
next
  case (Some rt)
  obtain r t where st: "server_tunnel p s = Some (r, t)" using Some by (cases rt) simp
  obtain d where d: "pool_wf p" "tp_db p = Some d" "store_ok d" "agrees p d" using assms by (rule pool_invE)
  show ?thesis
  proof (cases ok)
    case False
    then show ?thesis using assms st d(2) by (simp add: remove_tunnel_def db_call_def delete_backend_tunnel_def)
  next
    case True
    let ?d = "d\<lparr>st_rows := fmdrop (tun_id t) (st_rows d)\<rparr>"
    let ?p = "p\<lparr>tp_by_server := fmdrop s (tp_by_server p), tp_by_id := fmdrop (tun_id t) (tp_by_id p),
      tp_by_ifname := fmdrop (tun_interface t) (tp_by_ifname p), tp_db := Some ?d\<rparr>"
    have run: "fst (remove_tunnel ok s p) = ?p"
      using True st d(2) by (simp add: remove_tunnel_def db_call_def delete_backend_tunnel_def)
    have t: "fmlookup (tp_by_id p) (tun_id t) = Some r" "fmlookup (tp_heap p) r = Some t" "tun_server t = s"
      using server_by_id [OF d(1) st] by (auto simp: id_tunnel_iff)
    have t2: "fmlookup (tp_by_server p) s = Some r" "fmlookup (tp_by_ifname p) (tun_interface t) = Some r"
      using pool_wfD(1) [OF d(1) t(1)] t by auto
    have other: "tun_server u \<noteq> s \<and> tun_interface u \<noteq> tun_interface t"
      if i: "i \<noteq> tun_id t" "fmlookup (tp_by_id p) i = Some q" "fmlookup (tp_heap p) q = Some u" for i q u
    proof -
      have u: "tun_id u = i" "fmlookup (tp_by_server p) (tun_server u) = Some q" "fmlookup (tp_by_ifname p) (tun_interface u) = Some q"
        using pool_wfD(1) [OF d(1) i(2)] i(3) by auto
      have "q \<noteq> r" using i(1,3) u(1) t(2) by auto
      then show ?thesis using u(2,3) t2 by auto
    qed
    have "pool_wf ?p" unfolding pool_wf_def
    proof (intro conjI allI impI)
      fix i q assume "fmlookup (tp_by_id ?p) i = Some q"
      then have i: "i \<noteq> tun_id t" "fmlookup (tp_by_id p) i = Some q" by (auto split: if_splits)
      show "\<exists>u. fmlookup (tp_heap ?p) q = Some u \<and> tun_id u = i \<and> fmlookup (tp_by_server ?p) (tun_server u) = Some q \<and>
          fmlookup (tp_by_ifname ?p) (tun_interface u) = Some q"
        using pool_wfD(1) [OF d(1) i(2)] other [OF i] by fastforce
    next
      fix s' q assume "fmlookup (tp_by_server ?p) s' = Some q"
      then have s': "s' \<noteq> s" "fmlookup (tp_by_server p) s' = Some q" by (auto split: if_splits)
      show "\<exists>u. fmlookup (tp_heap ?p) q = Some u \<and> tun_server u = s' \<and> fmlookup (tp_by_id ?p) (tun_id u) = Some q"
      proof -
        obtain u where u: "fmlookup (tp_heap p) q = Some u" "tun_server u = s'" "fmlookup (tp_by_id p) (tun_id u) = Some q"
          using pool_wfD(2) [OF d(1) s'(2)] by blast
        have "tun_id u \<noteq> tun_id t" using u s'(1) t by auto
        then show ?thesis using u by simp
      qed
    next
      fix n q assume "fmlookup (tp_by_ifname ?p) n = Some q"
      then have n: "n \<noteq> tun_interface t" "fmlookup (tp_by_ifname p) n = Some q" by (auto split: if_splits)
      show "\<exists>u. fmlookup (tp_heap ?p) q = Some u \<and> tun_interface u = n \<and> fmlookup (tp_by_id ?p) (tun_id u) = Some q"
      proof -
        obtain u where u: "fmlookup (tp_heap p) q = Some u" "tun_interface u = n" "fmlookup (tp_by_id p) (tun_id u) = Some q"
          using pool_wfD(3) [OF d(1) n(2)] by blast
        have "tun_id u \<noteq> tun_id t" using u n(1) t by auto
        then show ?thesis using u by simp
      qed
    next
      fix q assume "fmlookup (tp_heap ?p) q \<noteq> None"
      then show "q < tp_next ?p" using pool_wfD(4) [OF d(1)] by auto
    qed
    moreover have "store_ok ?d" using d(3) unfolding store_ok_def row_ok_def by auto
    moreover have view: "id_view ?p i = (if i = tun_id t then None else id_view p i)" for i
      by (simp add: id_view_alt split: option.split)
    moreover have "agrees ?p ?d" using d(4) unfolding agrees_def view by simp
    moreover have "fence_step p ?p" using d(2) unfolding fence_step_def view by (auto simp: next_id_def split: if_splits)
    ultimately show ?thesis by (simp add: run pool_inv_def)
  qed
qed

lemma reset_inv:
  assumes "pool_inv p"
  shows "pool_inv (fst (reset_enabled_health_for_startup ok p)) \<and> fence_step p (fst (reset_enabled_health_for_startup ok p))"
proof (cases ok)
  case False
  then show ?thesis using assms
    by (auto simp: reset_enabled_health_for_startup_def db_call_def reset_enabled_health_def pool_inv_def)
next
  case True
  obtain d where d: "pool_wf p" "tp_db p = Some d" "store_ok d" "agrees p d" using assms by (rule pool_invE)
  define G where "G = (\<lambda>t. if tun_enabled t then reset_health t else t)"
  let ?d = "d\<lparr>st_rows := fmmap G (st_rows d)\<rparr>"
  let ?h = "\<lambda>r t. if r |\<in>| fmran (tp_by_server p) \<and> tun_enabled t then reset_health t else t"
  let ?p = "p\<lparr>tp_heap := fmmap_keys ?h (tp_heap p), tp_db := Some ?d\<rparr>"
  have run: "fst (reset_enabled_health_for_startup ok p) = ?p"
    using True d(2) by (simp add: reset_enabled_health_for_startup_def db_call_def reset_enabled_health_def G_def)
  have keys: "tun_id (?h r t) = tun_id t" "tun_server (?h r t) = tun_server t" "tun_interface (?h r t) = tun_interface t" for r t
    by (simp_all add: reset_health_def bump_version_def)
  have g: "tun_id (G t) = tun_id t" "tun_server (G t) = tun_server t" "tun_interface (G t) = tun_interface t"
    "tun_protocol (G t) = tun_protocol t" "tun_state_version t \<le> tun_state_version (G t)" "version_step t (G t)" for t
    by (simp_all add: G_def reset_health_def bump_version_def)
  have durable_g: "durable (G a) = durable (G b)" if "durable a = durable b" for a b
    using that by (simp add: G_def durable_def reset_health_def bump_version_def)
  have view: "id_view ?p i = map_option G (id_view p i)" for i
  proof (cases "fmlookup (tp_by_id p) i")
    case (Some r)
    then obtain t where t: "fmlookup (tp_heap p) r = Some t" "fmlookup (tp_by_server p) (tun_server t) = Some r"
      using pool_wfD(1) [OF d(1) Some] by blast
    then have "r |\<in>| fmran (tp_by_server p)" by (auto intro: fmranI)
    then show ?thesis using Some t by (simp add: id_view_alt G_def)
  qed (simp add: id_view_alt)
  have "map_option index_keys (fmlookup (tp_heap ?p) r) = map_option index_keys (fmlookup (tp_heap p) r)" for r
    using keys by (cases "fmlookup (tp_heap p) r") (simp_all add: index_keys_def)
  then have "pool_wf ?p" by (intro wf_keys [OF d(1)]) simp_all
  moreover have "store_ok ?d"
  proof -
    have "row_ok ?d i (G b)" if "fmlookup (st_rows d) i = Some b" for i b
    proof -
      have "row_ok d i b" using d(3) that by (simp add: store_ok_def)
      then show ?thesis using g(1,4,5) [of b] unfolding row_ok_def by simp
    qed
    moreover have "i = j" if "fmlookup (st_rows d) i = Some a" "fmlookup (st_rows d) j = Some b"
        "tun_server (G a) = tun_server (G b) \<or> tun_interface (G a) = tun_interface (G b)" for i j a b
      using d(3) that(1,2) that(3) [unfolded g] unfolding store_ok_def by blast
    ultimately show ?thesis unfolding store_ok_def by auto
  qed
  moreover have "agrees ?p ?d"
  proof -
    have "map_option durable (map_option G (id_view p i)) = map_option durable (map_option G (fmlookup (st_rows d) i))" for i
    proof -
      have "map_option durable (id_view p i) = map_option durable (fmlookup (st_rows d) i)" using d(4) by (simp add: agrees_def)
      then show ?thesis by (cases "id_view p i"; cases "fmlookup (st_rows d) i") (auto intro: durable_g)
    qed
    then show ?thesis unfolding agrees_def view by simp
  qed
  moreover have "fence_step p ?p" using d(2) g(6) unfolding fence_step_def view by (auto simp: next_id_def)
  ultimately show ?thesis by (simp add: run pool_inv_def)
qed

text \<open>While the rows are loaded, memory holds copies of some of them.\<close>

definition loading :: "tunnel_store \<Rightarrow> tunnel_pool \<Rightarrow> bool" where
  "loading d p \<longleftrightarrow> pool_wf p \<and>
     (\<exists>d'. tp_db p = Some d' \<and> st_next d' = st_next d \<and>
        (\<forall>i. map_option durable (fmlookup (st_rows d') i) = map_option durable (fmlookup (st_rows d) i))) \<and>
     (\<forall>i u. id_view p i = Some u \<longrightarrow> (\<exists>b. fmlookup (st_rows d) i = Some b \<and> durable b = durable u))"

lemma loading_index:
  assumes so: "store_ok d" and l: "loading d p" and b: "fmlookup (st_rows d) (tun_id t) = Some b" "durable b = durable t"
  shows "loading d (index_tunnel t p) \<and> (\<forall>j. id_view (index_tunnel t p) j = (if j = tun_id t then Some t else id_view p j))"
proof -
  have wf: "pool_wf p" using l by (simp add: loading_def)
  have inj: "j = k" if "fmlookup (st_rows d) j = Some a" "fmlookup (st_rows d) k = Some c"
      "tun_server a = tun_server c \<or> tun_interface a = tun_interface c" for j k a c
    using so that unfolding store_ok_def by blast
  have "indexable t p" unfolding indexable_def
  proof (intro allI impI, elim conjE)
    fix i u assume u: "id_view p i = Some u" "i = tun_id t \<or> tun_server u = tun_server t \<or> tun_interface u = tun_interface t"
    obtain a where a: "fmlookup (st_rows d) i = Some a" "durable a = durable u" using l u(1) unfolding loading_def by blast
    have "i = tun_id t" using u(2) inj [OF a(1) b(1)] durableD(2,3) [OF a(2)] durableD(2,3) [OF b(2)] by auto
    then show "i = tun_id t \<and> tun_server u = tun_server t \<and> tun_interface u = tun_interface t"
      using a b durableD(2,3) [OF a(2)] durableD(2,3) [OF b(2)] by simp
  qed
  then have "pool_wf (index_tunnel t p)" by (rule index_wf [OF wf])
  moreover have "\<exists>a. fmlookup (st_rows d) j = Some a \<and> durable a = durable u" if "id_view (index_tunnel t p) j = Some u" for j u
    using that l b unfolding loading_def view_index [OF wf] by (auto split: if_splits)
  ultimately show ?thesis using l view_index [OF wf] by (auto simp: loading_def)
qed

lemma durable_probe [simp]: "durable (t\<lparr>tun_probe_key := k\<rparr>) = durable t"
  by (simp add: durable_def)

lemma loading_probe:
  "loading d p \<Longrightarrow> loading d (fst (db_call (update_backend_tunnel ok i (\<lambda>row. row\<lparr>tun_probe_key := k\<rparr>)) p)) \<and>
   id_view (fst (db_call (update_backend_tunnel ok i (\<lambda>row. row\<lparr>tun_probe_key := k\<rparr>)) p)) = id_view p"
  by (auto simp: loading_def db_call_def update_backend_tunnel_def sql_update_def split: option.split) (metis option.simps(9))

lemma loading_row:
  assumes "store_ok d" "loading d p" "fmlookup (st_rows d) (tun_id t) = Some b" "durable b = durable t"
  shows "loading d (sync_row kg ok t p) \<and> (\<forall>j. id_view (sync_row kg ok t p) j \<noteq> None \<longleftrightarrow> j = tun_id t \<or> id_view p j \<noteq> None)"
proof -
  have "row_ok d (tun_id t) b" using assms(1,3) by (simp add: store_ok_def)
  then have v: "0 < tun_state_version t" using durableD(10) [OF assms(4)] by (simp add: row_ok_def)
  show ?thesis
  proof (cases "normalize_tunnel_protocol (tun_protocol t) = ''awg'' \<and> tun_probe_key t = []")
    case False
    then show ?thesis using v loading_index [OF assms] by (auto simp: sync_row_def)
  next
    case True
    show ?thesis
    proof (cases kg)
      case (Inl e)
      then show ?thesis using True v loading_index [OF assms] by (simp add: sync_row_def)
    next
      case (Inr ks)
      obtain pk sk where "ks = (pk, sk)" by fastforce
      then show ?thesis
        using True v Inr loading_probe [OF assms(2), of ok "tun_id t" sk] assms(3,4)
          loading_index [OF assms(1), of "fst (db_call (update_backend_tunnel ok (tun_id t) (\<lambda>row. row\<lparr>tun_probe_key := sk\<rparr>)) p)"
            "t\<lparr>tun_probe_key := sk\<rparr>" b]
        by (simp add: sync_row_def)
    qed
  qed
qed

lemma loading_fold:
  assumes "store_ok d" "loading d p" "\<forall>(k, t) \<in> set ts. \<exists>b. fmlookup (st_rows d) (tun_id t) = Some b \<and> durable b = durable t"
  shows "loading d (fold (\<lambda>(k, t). sync_row (kg k) (oks k) t) ts p) \<and>
    (\<forall>j. id_view (fold (\<lambda>(k, t). sync_row (kg k) (oks k) t) ts p) j \<noteq> None \<longleftrightarrow> j \<in> tun_id ` snd ` set ts \<or> id_view p j \<noteq> None)"
  using assms(2,3)
proof (induction ts arbitrary: p)
  case (Cons kt ts)
  obtain k t b where kt: "kt = (k, t)" "fmlookup (st_rows d) (tun_id t) = Some b" "durable b = durable t" using Cons.prems(2) by fastforce
  have s: "loading d (sync_row (kg k) (oks k) t p)"
    "\<And>j. id_view (sync_row (kg k) (oks k) t p) j \<noteq> None \<longleftrightarrow> j = tun_id t \<or> id_view p j \<noteq> None"
    using loading_row [OF assms(1) Cons.prems(1) kt(2,3), of "kg k" "oks k"] by auto
  have "\<forall>(k, t) \<in> set ts. \<exists>b. fmlookup (st_rows d) (tun_id t) = Some b \<and> durable b = durable t" using Cons.prems(2) by simp
  from Cons.IH [OF s(1) this] show ?case using s(2) by (auto simp: kt(1))
qed simp

lemma scan_durable: "row_ok d i row \<Longrightarrow> durable (scan_backend_tunnel row) = durable row \<and> tun_id (scan_backend_tunnel row) = i"
  by (simp add: row_ok_def scan_backend_tunnel_def durable_def)

lemma loaded:
  assumes so: "store_ok d" and l: "loading d p" and db: "tp_db p = Some d"
  shows "pool_inv (fst (sync_from_db True kg oks p)) \<and> loading d (fst (sync_from_db True kg oks p))"
proof -
  let ?ts = "map (\<lambda>i. scan_backend_tunnel (the (fmlookup (st_rows d) i))) (sorted_list_of_fset (fmdom (st_rows d)))"
  let ?q = "fold (\<lambda>(k, t). sync_row (kg k) (oks k) t) (enumerate 0 ?ts) p"
  have row: "durable (scan_backend_tunnel b) = durable b \<and> tun_id (scan_backend_tunnel b) = i" if "fmlookup (st_rows d) i = Some b" for i b
    using so that by (intro scan_durable) (auto simp: store_ok_def)
  have ts: "\<exists>b. fmlookup (st_rows d) (tun_id t) = Some b \<and> durable b = durable t" if t: "t \<in> set ?ts" for t
  proof -
    obtain i where i: "i |\<in>| fmdom (st_rows d)" "t = scan_backend_tunnel (the (fmlookup (st_rows d) i))"
      using t by (auto simp: sorted_list_of_fset.rep_eq)
    then obtain b where "fmlookup (st_rows d) i = Some b" by (meson fmdomE)
    then show ?thesis using row i(2) by fastforce
  qed
  have ids: "snd ` set (enumerate 0 ?ts) = set ?ts" by (metis list.set_map map_snd_enumerate)
  have mem: "t \<in> set ?ts" if "(k, t) \<in> set (enumerate 0 ?ts)" for k t
    using that ids by (metis image_eqI snd_conv)
  have "\<forall>(k, t) \<in> set (enumerate 0 ?ts). \<exists>b. fmlookup (st_rows d) (tun_id t) = Some b \<and> durable b = durable t"
    using ts mem by blast
  from loading_fold [OF so l this, of kg oks] have q: "loading d ?q"
    and dom: "\<And>j. id_view ?q j \<noteq> None \<longleftrightarrow> j \<in> tun_id ` snd ` set (enumerate 0 ?ts) \<or> id_view p j \<noteq> None" by auto
  have all: "id_view ?q i \<noteq> None" if "fmlookup (st_rows d) i = Some b" for i b
  proof -
    have "i |\<in>| fmdom (st_rows d)" using that by (rule fmdomI)
    then have "scan_backend_tunnel b \<in> set ?ts" using that by (force simp: sorted_list_of_fset.rep_eq image_iff)
    then show ?thesis using row [OF that] dom [of i] unfolding ids by (metis imageI)
  qed
  obtain d' where d': "tp_db ?q = Some d'" "st_next d' = st_next d"
    "\<And>i. map_option durable (fmlookup (st_rows d') i) = map_option durable (fmlookup (st_rows d) i)"
    using q unfolding loading_def by blast
  have view: "map_option durable (id_view ?q i) = map_option durable (fmlookup (st_rows d) i)" for i
  proof (cases "id_view ?q i")
    case None
    then have "fmlookup (st_rows d) i = None" using all by (cases "fmlookup (st_rows d) i") auto
    then show ?thesis using None by simp
  next
    case (Some u)
    then obtain b where "fmlookup (st_rows d) i = Some b" "durable b = durable u" using q unfolding loading_def by blast
    then show ?thesis using Some by simp
  qed
  have "pool_inv ?q"
    using q d'(1) store_durable [OF so d'(2,3)] view d'(3) by (auto simp: pool_inv_def loading_def agrees_def)
  then show ?thesis using db q by (simp add: sync_from_db_def get_backend_tunnels_def)
qed

lemma loading_new: "store_ok d \<Longrightarrow> loading d (new_pool (Some d))"
  by (simp add: loading_def new_pool_def pool_wf_def id_view_alt)

lemma loading_inv:
  assumes "pool_inv p"
  obtains d where "tp_db p = Some d" "store_ok d" "loading d p"
proof -
  obtain d where d: "pool_wf p" "tp_db p = Some d" "store_ok d" "agrees p d" using assms by (rule pool_invE)
  have "\<exists>b. fmlookup (st_rows d) i = Some b \<and> durable b = durable u" if "id_view p i = Some u" for i u
    using d(4) that unfolding agrees_def by (metis map_option_eq_Some option.simps(9))
  then show ?thesis using that [of d] d by (auto simp: loading_def)
qed

lemma sync_inv:
  assumes "pool_inv p"
  shows "pool_inv (fst (sync_from_db ok kg oks p)) \<and> fence_step p (fst (sync_from_db ok kg oks p))"
proof (cases ok)
  case False
  then show ?thesis using assms by (auto simp: sync_from_db_def get_backend_tunnels_def pool_inv_def)
next
  case True
  obtain d where d: "tp_db p = Some d" "store_ok d" "loading d p" using assms by (rule loading_inv)
  let ?q = "fst (sync_from_db True kg oks p)"
  have q: "pool_inv ?q" "loading d ?q" using loaded [OF d(2,3,1)] by auto
  have "\<exists>t. id_view p i = Some t \<and> version_step t t'" if t': "id_view ?q i = Some t'" for i t'
  proof -
    obtain b where b: "fmlookup (st_rows d) i = Some b" "durable b = durable t'" using q(2) t' unfolding loading_def by blast
    have "agrees p d" using assms d(1) by (auto simp: pool_inv_def)
    then have "map_option durable (id_view p i) = Some (durable t')" using b by (simp add: agrees_def)
    then show ?thesis using version_step_durable by blast
  qed
  moreover have "next_id ?q = next_id p" using q(2) d(1) by (auto simp: loading_def next_id_def)
  ultimately show ?thesis using q(1) True by (simp add: fence_step_def)
qed

end
