(* ===== verification/Tunnel_Pool_Spec.thy ===== *)
theory Tunnel_Pool_Spec
  imports Tunnel_Pool_Inv
begin

text \<open>
  The tunnel pool as a transition system, and what its users rely on: the indexes agree, memory mirrors the database,
  the state version fences every late writer, and failed operations leave memory alone.
\<close>

section \<open>Steps\<close>

inductive pool_step :: "tunnel_pool \<Rightarrow> tunnel_pool \<Rightarrow> bool" where
  status: "pool_step p (fst (set_tunnel_status_gen ok dbnow now s expId expVersion status latency p))"
| status_reason: "pool_step p (fst (set_tunnel_status_with_reason ok dbnow now s status reason latency p))"
| swap: "pool_step p (fst (compare_and_swap ok dbnow now s expId expStatus expReason expVersion status reason latency p))"
| enabled: "pool_step p (fst (set_tunnel_enabled hookOk ok s en reason p))"
| endpoint: "pool_step p (fst (set_tunnel_endpoint hookOk ok i endpoint p))"
| public_key: "pool_step p (fst (set_tunnel_public_key hookOk ok i key p))"
| increment: "pool_step p (increment_connections ok i p)"
| decrement: "pool_step p (decrement_connections ok i p)"
| transfer: "pool_step p (fst (transfer_connections ok1 ok2 from to expVer p))"
| gauge: "pool_step p (fst (set_connection_count ok i cnt p))"
| add: "pool_step p (fst (add_tunnel_with_config ok jsonOk decodedEqual kg dbnow now s endpoint serverPub protocol params p))"
| remove: "pool_step p (fst (remove_tunnel ok s p))"
| startup: "pool_step p (fst (reset_enabled_health_for_startup ok p))"
| reload: "pool_step p (fst (sync_from_db ok kg oks p))"
| close: "pool_step p (close_pool p)"
| multi: "pool_step p (set_multi_protocol b p)"

text \<open>The service loads the rows before it uses the pool.\<close>

inductive pool_reachable :: "tunnel_pool \<Rightarrow> bool" where
  loaded: "store_ok d \<Longrightarrow> pool_reachable (fst (sync_from_db True kg oks (new_pool (Some d))))"
| stepped: "pool_reachable p \<Longrightarrow> pool_step p p' \<Longrightarrow> pool_reachable p'"

lemma pool_step_inv:
  assumes "pool_step p p'" "pool_inv p"
  shows "pool_inv p' \<and> fence_step p p'"
  using assms(1)
proof cases
  case (status ok dbnow now s expId expVersion st latency)
  then show ?thesis using touched_inv [OF assms(2) set_status_touched [OF assms(2)]] by simp
next
  case (status_reason ok dbnow now s st reason latency)
  then show ?thesis using touched_inv [OF assms(2) set_status_with_reason_touched [OF assms(2)]] by simp
next
  case (swap ok dbnow now s expId expStatus expReason expVersion st reason latency)
  then show ?thesis using touched_inv [OF assms(2) compare_and_swap_touched [OF assms(2)]] by simp
next
  case (enabled hookOk ok s en reason)
  then show ?thesis using touched_inv [OF assms(2) set_enabled_touched [OF assms(2)]] by simp
next
  case (endpoint hookOk ok i ep)
  then show ?thesis using touched_inv [OF assms(2) set_endpoint_touched [OF assms(2)]] by simp
next
  case (public_key hookOk ok i key)
  then show ?thesis using touched_inv [OF assms(2) set_public_key_touched [OF assms(2)]] by simp
next
  case (add ok jsonOk decodedEqual kg dbnow now s ep serverPub protocol params)
  then show ?thesis using add_inv [OF assms(2)] by simp
qed (use assms(2) in \<open>simp_all add: gauge_inv [OF assms(2) gauge_increment] gauge_inv [OF assms(2) gauge_decrement]
  gauge_inv [OF assms(2) gauge_transfer] gauge_inv [OF assms(2) gauge_set_count] gauge_inv [OF assms(2) gauge_flags(1)]
  gauge_inv [OF assms(2) gauge_flags(2)] remove_inv reset_inv sync_inv\<close>)

lemma pool_reachable_inv: "pool_reachable p \<Longrightarrow> pool_inv p"
proof (induction rule: pool_reachable.induct)
  case (loaded d kg oks)
  then show ?case using Tunnel_Pool_Inv.loaded [OF loaded loading_new [OF loaded]] by (simp add: new_pool_def)
next
  case (stepped p p')
  then show ?case using pool_step_inv by blast
qed

lemma pool_steps_inv: "rtranclp pool_step p p' \<Longrightarrow> pool_inv p \<Longrightarrow> pool_inv p' \<and> fence_step p p'"
proof (induction rule: rtranclp_induct)
  case (step q r)
  then show ?case using pool_step_inv [of q r] fence_step_trans by blast
qed simp

lemma fence_at: "fence_step p p' \<Longrightarrow> i < next_id p \<Longrightarrow> id_view p i = Some t \<Longrightarrow> id_view p' i = Some t' \<Longrightarrow> version_step t t'"
  unfolding fence_step_def by (metis option.inject)

section \<open>The indexes and the database\<close>

lemma get_tunnel_iff: "get_tunnel p s = Inr t \<longleftrightarrow> (\<exists>r. server_tunnel p s = Some (r, t))"
  by (auto simp: get_tunnel_def split: option.split)

lemma get_tunnel_by_id_iff: "get_tunnel_by_id p i = Inr t \<longleftrightarrow> id_view p i = Some t"
  by (auto simp: get_tunnel_by_id_def id_view_def split: option.split)



section \<open>The version fences late writers\<close>

lemma known_id:
  assumes "pool_inv p" "id_view p i = Some t"
  shows "i < next_id p"
proof -
  obtain d where d: "pool_wf p" "tp_db p = Some d" "store_ok d" "agrees p d" using assms(1) by (rule pool_invE)
  obtain row where "fmlookup (st_rows d) i = Some row" using d(4) assms(2) unfolding agrees_def by (metis map_option_eq_Some option.simps(9))
  then show ?thesis using d(2,3) by (auto simp: store_ok_def row_ok_def next_id_def)
qed



section \<open>Failed operations and administrative intent\<close>


lemma db_call_shape: "\<exists>x. fst (db_call f p) = p\<lparr>tp_db := x\<rparr>"
  by (cases "tp_db p") (auto simp: db_call_def split: prod.split intro: exI [of _ None])

definition write_shape :: "string \<Rightarrow> int \<Rightarrow> tunnel_pool \<Rightarrow> tunnel_pool \<Rightarrow> bool" where
  "write_shape st s p p' \<longleftrightarrow> (\<exists>x. p' = p\<lparr>tp_db := x\<rparr>) \<or>
     (\<exists>r t x re la now. server_tunnel p s = Some (r, t) \<and> tun_enabled t \<and>
        p' = put_tunnel r (written st re la now t) (p\<lparr>tp_db := x\<rparr>))"

lemma write_shape_self: "write_shape st s p p" "write_shape st s p (p\<lparr>tp_db := x\<rparr>)"
  unfolding write_shape_def by (intro disjI1 exI [of _ "tp_db p"], simp) blast

lemma write_shape_put:
  "server_tunnel p s = Some (r, t) \<Longrightarrow> tun_enabled t \<Longrightarrow> write_shape st s p (put_tunnel r (written st re la now t) (p\<lparr>tp_db := x\<rparr>))"
  unfolding write_shape_def by blast

lemma set_status_shape: "write_shape status s p (fst (set_tunnel_status_gen ok dbnow now s expId expVersion status latency p))"
proof (cases "server_tunnel p s")
  case None
  then show ?thesis by (simp add: set_tunnel_status_gen_def write_shape_self)
next
  case (Some rt)
  obtain r t where st: "server_tunnel p s = Some (r, t)" using Some by (cases rt) simp
  define reason where "reason = reason_after status (tun_disable_reason t)"
  obtain p1 e where ps: "persist_status ok dbnow t expVersion status reason latency p = (p1, e)" by fastforce
  have "\<exists>x. fst (persist_status ok dbnow t expVersion status reason latency p) = p\<lparr>tp_db := x\<rparr>"
    using db_call_shape by (auto simp: persist_status_def split: option.split prod.split sum.split intro: exI [of _ None])
  then obtain x where x: "p1 = p\<lparr>tp_db := x\<rparr>" by (auto simp: ps)
  show ?thesis
    using write_shape_self write_shape_put [OF st]
    by (cases e) (simp_all add: set_tunnel_status_gen_def st ps x flip: reason_def)
qed

lemma set_status_reason_shape: "write_shape status s p (fst (set_tunnel_status_with_reason ok dbnow now s status reason latency p))"
proof (cases "server_tunnel p s")
  case None
  then show ?thesis by (simp add: set_tunnel_status_with_reason_def write_shape_self)
next
  case (Some rt)
  obtain r t where st: "server_tunnel p s = Some (r, t)" using Some by (cases rt) simp
  obtain p1 e where db: "db_call (update_backend_tunnel_status_with_reason ok dbnow (tun_id t) status reason latency) p = (p1, e)" by fastforce
  then obtain x where x: "p1 = p\<lparr>tp_db := x\<rparr>"
    using db_call_shape [of "update_backend_tunnel_status_with_reason ok dbnow (tun_id t) status reason latency" p] by auto
  show ?thesis
    using write_shape_self write_shape_put [OF st]
    by (cases e) (simp_all add: set_tunnel_status_with_reason_def st db x)
qed

lemma swap_shape: "write_shape status s p (fst (compare_and_swap ok dbnow now s expId expStatus expReason expVersion status reason latency p))"
proof (cases "server_tunnel p s")
  case None
  then show ?thesis by (simp add: compare_and_swap_def write_shape_self)
next
  case (Some rt)
  obtain r t where st: "server_tunnel p s = Some (r, t)" using Some by (cases rt) simp
  show ?thesis
  proof (cases "tp_db p")
    case None
    have "write_shape status s p (put_tunnel r (written status reason latency now t) p)" if "tun_enabled t"
      using write_shape_put [OF st that, of status reason latency now "tp_db p"] by simp
    then show ?thesis using write_shape_self [of status s p] None by (auto simp: compare_and_swap_def st)
  next
    case (Some d)
    obtain d' res where "cas_tunnel_status ok dbnow (tun_id t) expStatus expReason expVersion status reason latency d = (d', res)" by fastforce
    then show ?thesis using write_shape_self write_shape_put [OF st] Some
      by (auto simp: compare_and_swap_def st split: sum.split bool.split)
  qed
qed

text \<open>A health write moves at most one enabled backend, to the status it writes.\<close>

definition moved_to :: "string \<Rightarrow> backend_tunnel \<Rightarrow> backend_tunnel \<Rightarrow> bool" where
  "moved_to st t t' \<longleftrightarrow> t' = t \<or> tun_enabled t \<and> (\<exists>re la now. t' = written st re la now t)"

lemma write_shape_view:
  assumes "pool_wf p" "write_shape st s p p'"
  shows "(id_view p i = None \<longrightarrow> id_view p' i = None) \<and>
    (\<forall>t. id_view p i = Some t \<longrightarrow> (\<exists>t'. id_view p' i = Some t' \<and> moved_to st t t'))"
proof -
  consider (db) x where "p' = p\<lparr>tp_db := x\<rparr>"
    | (put) r u x re la now where "server_tunnel p s = Some (r, u)" "tun_enabled u"
        "p' = put_tunnel r (written st re la now u) (p\<lparr>tp_db := x\<rparr>)"
    using assms(2) unfolding write_shape_def by blast
  then show ?thesis
  proof cases
    case db
    then show ?thesis by (simp add: moved_to_def)
  next
    case put
    have id: "id_tunnel p (tun_id u) = Some (r, u)" by (rule server_by_id(1) [OF assms(1) put(1)])
    have "id_view p' i = (if i = tun_id u then Some (written st re la now u) else id_view p i)"
      using put_view [of "p\<lparr>tp_db := x\<rparr>" u r "written st re la now u" i] assms(1) id by (simp add: put(3))
    moreover have "id_view p (tun_id u) = Some u" using id by (simp add: id_view_def)
    ultimately show ?thesis using put(2) by (auto simp: moved_to_def)
  qed
qed

text \<open>
  Health never overrides the administrator. A status write, a write with a reason or a swap leaves the
  administrative intent of every backend as it is, and leaves a disabled backend alone entirely, object and row.
\<close>

theorem health_keeps_intent:
  assumes "pool_reachable p" "p' \<in> {fst (set_tunnel_status_gen ok dbnow now s expId expVersion status latency p),
      fst (set_tunnel_status_with_reason ok dbnow now s status reason latency p),
      fst (compare_and_swap ok dbnow now s expId expStatus expReason expVersion status reason latency p)}"
    "get_tunnel_by_id p i = Inr t"
  shows "\<exists>t'. get_tunnel_by_id p' i = Inr t' \<and> tun_enabled t' = tun_enabled t \<and> (tun_enabled t \<or> t' = t)"
proof -
  have wf: "pool_wf p" using pool_reachable_inv [OF assms(1)] by (simp add: pool_inv_def)
  have "write_shape status s p p'"
    using assms(2) set_status_shape set_status_reason_shape swap_shape by auto
  then obtain t' where "id_view p' i = Some t'" "moved_to status t t'"
    using write_shape_view [OF wf, of status s p' i] assms(3) by (auto simp: get_tunnel_by_id_iff)
  then show ?thesis by (auto simp: get_tunnel_by_id_iff moved_to_def)
qed

section \<open>Moving a connection\<close>

text \<open>
  C14: a transfer conserves the connections. When a connection moves between two different backends of a reachable pool, the
  source loses one, but never goes below zero, the target gains one, and nothing else about any backend changes;
  when the target is missing, disabled, not active, or has another state version than expected, nothing moves at all.
\<close>

theorem transfer_conserves:
  assumes "pool_reachable p" "from \<noteq> to" "transfer_connections ok1 ok2 from to expVersion p = (p', res)"
  shows "(case res of
      Some e \<Rightarrow> p' = p
    | None \<Rightarrow> (\<exists>t. id_view p to = Some t \<and> tun_enabled t \<and> equal_fold (tun_status t) ''active'' \<and>
         (\<forall>v. expVersion = Some v \<and> 0 < v \<longrightarrow> tun_state_version t = v)) \<and>
        (\<forall>i. id_view p' i = map_option (\<lambda>t. if i = to then t\<lparr>tun_conns := tun_conns t + 1\<rparr>
           else if i = from then t\<lparr>tun_conns := floored (tun_conns t)\<rparr> else t) (id_view p i)))"
proof -
  have wf: "pool_wf p" using pool_reachable_inv [OF assms(1)] by (simp add: pool_inv_def)
  have persist: "id_view (persist_connection_count ok i n q) = id_view q" for ok i n q
    by (simp add: persist_connection_count_def db_call_def split: option.split prod.split)
  show ?thesis
  proof (cases res)
    case (Some e)
    then show ?thesis using assms(3)
      by (auto simp: transfer_connections_def Let_def split: if_splits option.splits prod.splits)
  next
    case None
    obtain rt tt where tt: "id_tunnel p to = Some (rt, tt)" "tun_enabled tt" "equal_fold (tun_status tt) ''active''"
      "\<not> (case expVersion of None \<Rightarrow> False | Some v \<Rightarrow> 0 < v \<and> tun_state_version tt \<noteq> v)" "\<not> tp_closed p"
      using assms(3) None by (auto simp: transfer_connections_def split: if_splits option.splits)
    obtain p1 fi fc where f: "take_from from p = (p1, fi, fc)" by (cases "take_from from p") auto
    have tid: "tun_id tt = to" by (rule id_tunnel_id [OF wf tt(1)])
    have p1: "pool_wf p1 \<and> id_tunnel p1 to = Some (rt, tt) \<and>
      (\<forall>i. id_view p1 i = map_option (\<lambda>t. if i = from then t\<lparr>tun_conns := floored (tun_conns t)\<rparr> else t) (id_view p i))"
    proof (cases "id_tunnel p from")
      case None
      then have "id_view p from = None" by (simp add: id_view_def)
      then have "id_view p i = map_option (\<lambda>t. if i = from then t\<lparr>tun_conns := floored (tun_conns t)\<rparr> else t) (id_view p i)" for i
        by (cases "i = from"; cases "id_view p i") simp_all
      moreover have "p1 = p" using f None by (simp add: take_from_def)
      ultimately show ?thesis using wf tt(1) by blast
    next
      case (Some x)
      obtain rf tf where x: "id_tunnel p from = Some (rf, tf)" using Some by (cases x) simp
      have fid: "tun_id tf = from" by (rule id_tunnel_id [OF wf x])
      let ?t = "tf\<lparr>tun_conns := floored (tun_conns tf)\<rparr>"
      have q: "p1 = put_tunnel rf ?t p" using f x by (auto simp: take_from_def Let_def)
      have "pool_wf p1" unfolding q using wf x fid by (intro put_wf [where t = tf]) simp_all
      moreover have "id_view p1 i = (if i = from then Some ?t else id_view p i)" for i
        unfolding q using put_view [OF wf, of tf rf ?t i] x fid by simp
      moreover have "rf \<noteq> rt" using x tt(1) assms(2) fid tid by (auto simp: id_tunnel_iff)
      then have "id_tunnel p1 to = Some (rt, tt)" using tt(1) by (simp add: q id_tunnel_iff)
      moreover have "id_view p from = Some tf" using x by (simp add: id_view_def)
      ultimately show ?thesis by (auto simp: option.map_ident_strong)
    qed
    let ?q = "put_tunnel rt (tt\<lparr>tun_conns := tun_conns tt + 1\<rparr>) p1"
    have heap: "fmlookup (tp_heap p1) rt = Some tt" using p1 by (simp add: id_tunnel_iff)
    have "id_view p' = id_view ?q"
      using assms(3) None tt f heap by (auto simp: transfer_connections_def Let_def persist split: if_splits)
    moreover have "id_view ?q i = (if i = to then Some (tt\<lparr>tun_conns := tun_conns tt + 1\<rparr>) else id_view p1 i)" for i
      using put_view [of p1 tt rt _ i] p1 tid by simp
    moreover have "id_view p to = Some tt" using tt(1) by (simp add: id_view_def)
    ultimately show ?thesis using None tt(2-4) p1 assms(2) by (auto split: option.splits)
  qed
qed

section \<open>A pool with two backends\<close>

definition demo_tunnel :: "int \<Rightarrow> int \<Rightarrow> string \<Rightarrow> backend_tunnel" where
  "demo_tunnel i s ifname = (blank_tunnel s ifname ''192.0.2.1:51820'' 1 ''awg'')
     \<lparr>tun_id := i, tun_public_key := ''pub'', tun_private_key := ''priv'', tun_probe_key := ''probe'', tun_status := status_active\<rparr>"

definition demo_store :: tunnel_store where
  "demo_store = \<lparr>st_rows = fmupd 1 (demo_tunnel 1 5 ''awg-be-5'') (fmupd 2 (demo_tunnel 2 6 ''awg-be-6'') fmempty), st_next = 3\<rparr>"

definition demo_pool :: tunnel_pool where
  "demo_pool = fst (sync_from_db True (\<lambda>_. Inl ()) (\<lambda>_. True) (new_pool (Some demo_store)))"

lemma demo_store_ok: "store_ok demo_store"
  by (auto simp: store_ok_def row_ok_def demo_store_def demo_tunnel_def blank_tunnel_def split: if_splits)

lemma demo_pool_reachable: "pool_reachable demo_pool"
  unfolding demo_pool_def by (rule pool_reachable.loaded [OF demo_store_ok])

lemma demo_rows: "sorted_list_of_fset (fmdom (st_rows demo_store)) = [1, 2]"
  by (simp add: demo_store_def sorted_list_of_fset.rep_eq)

lemma demo_pool_run: "demo_pool = index_tunnel (demo_tunnel 2 6 ''awg-be-6'') (index_tunnel (demo_tunnel 1 5 ''awg-be-5'') (new_pool (Some demo_store)))"
  unfolding demo_pool_def sync_from_db_def get_backend_tunnels_def
  by (simp add: new_pool_def demo_rows enumerate_simps numeral_eq_Suc sync_row_def)
    (simp add: demo_store_def demo_tunnel_def blank_tunnel_def scan_backend_tunnel_def Let_def)

lemma demo_found:
  "get_tunnel demo_pool 5 = Inr (demo_tunnel 1 5 ''awg-be-5'')" "get_tunnel_by_id demo_pool 1 = Inr (demo_tunnel 1 5 ''awg-be-5'')"
  "get_tunnel_by_id demo_pool 2 = Inr (demo_tunnel 2 6 ''awg-be-6'')" "tp_db demo_pool = Some demo_store"
  by (simp_all add: demo_pool_run index_tunnel_def Let_def new_pool_def get_tunnel_def server_tunnel_def get_tunnel_by_id_def
      id_tunnel_def demo_tunnel_def blank_tunnel_def)






lemma health_keeps_intent_witness:
  "\<exists>t'. get_tunnel_by_id (fst (set_tunnel_status_gen True 2 2 5 0 0 ''degraded'' 900 demo_pool)) 1 = Inr t' \<and> tun_enabled t'"
  using health_keeps_intent [OF demo_pool_reachable _ demo_found(2),
      of "fst (set_tunnel_status_gen True 2 2 5 0 0 ''degraded'' 900 demo_pool)" True 2 2 5 0 0 "''degraded''" 900]
  by (auto simp: demo_tunnel_def blank_tunnel_def)

lemma transfer_conserves_witness:
  "id_view (fst (transfer_connections True True 1 2 None demo_pool)) 2 =
     Some ((demo_tunnel 2 6 ''awg-be-6'')\<lparr>tun_conns := 1\<rparr>)"
proof -
  obtain p' res where run: "transfer_connections True True 1 2 None demo_pool = (p', res)" by fastforce
  have id: "id_tunnel demo_pool 2 = Some (1, demo_tunnel 2 6 ''awg-be-6'')" "\<not> tp_closed demo_pool"
    by (simp_all add: demo_pool_run index_tunnel_def Let_def new_pool_def id_tunnel_def demo_tunnel_def blank_tunnel_def)
  have "res = None"
    using run id by (auto simp: transfer_connections_def Let_def demo_tunnel_def blank_tunnel_def status_active_def
        split: prod.splits option.splits)
  then show ?thesis
    using transfer_conserves [OF demo_pool_reachable _ run] demo_found(3)
    by (simp add: run get_tunnel_by_id_iff demo_tunnel_def blank_tunnel_def)
qed

end
