(* ===== verification/Tunnel_Health_Spec.thy ===== *)
theory Tunnel_Health_Spec
  imports Tunnel_Health Tunnel_Pool_Spec
begin

text \<open>
  What the health prober does to the pool and to its counters. First the writes: whatever runs at the same time, as long as it
  is health work too, a probe or a recovery consists of status writes and swaps of the pool, with the statuses it
  may write. Then single runs without disturbance: the way a failing backend is
  disabled, and the way it comes back.
\<close>

section \<open>Health writes\<close>

inductive health_write :: "string set \<Rightarrow> tunnel_pool \<Rightarrow> tunnel_pool \<Rightarrow> bool" for S where
  swap: "status \<in> S \<Longrightarrow>
    health_write S p (fst (compare_and_swap ok dbnow now s expId expStatus expReason expVersion status reason latency p))"
| status: "status \<in> S \<Longrightarrow> health_write S p (fst (set_tunnel_status_gen ok dbnow now s expId expVersion status latency p))"

definition writes :: "string set \<Rightarrow> health_world \<Rightarrow> health_world \<Rightarrow> bool" where
  "writes S w w' \<longleftrightarrow>
     (case hw_pool w of
        None \<Rightarrow> hw_pool w' = None
      | Some p \<Rightarrow> (\<exists>p'. hw_pool w' = Some p' \<and> rtranclp (health_write S) p p'))"

text \<open>What the callbacks of the prober may do to the pool.\<close>

definition calm :: "string set \<Rightarrow> prober_io \<Rightarrow> bool" where
  "calm S io \<longleftrightarrow>
     (\<forall>proto t w. writes S w (fst (io_probe io proto t w))) \<and> (\<forall>t w. writes S w (fst (io_canary io t w))) \<and>
     (\<forall>i w. writes S w (io_canary_done io i w)) \<and> (\<forall>w. writes S w (io_pre_hook io w)) \<and> (\<forall>w. writes S w (io_pre_status io w)) \<and>
     (\<forall>w. writes S w (io_pre_failure io w)) \<and> (\<forall>w. writes S w (io_retry_failovers io w)) \<and>
     (\<forall>h t w. io_active_hook io = Some h \<longrightarrow> writes S w (fst (h t w))) \<and>
     (\<forall>h t w. io_heal_hook io = Some h \<longrightarrow> writes S w (fst (h t w))) \<and>
     (\<forall>n t w. io_notifier io = Some n \<longrightarrow> writes S w (n t w))"

named_theorems wr \<open>how a step of the prober extends a run of health writes\<close>

lemma writes_refl: "writes S w w"
  by (auto simp: writes_def split: option.split)

lemma writes_trans: "writes S w w1 \<Longrightarrow> writes S w1 w2 \<Longrightarrow> writes S w w2"
  by (auto simp: writes_def split: option.splits)

lemma writes_same: "writes S w w1 \<Longrightarrow> hw_pool w2 = hw_pool w1 \<Longrightarrow> writes S w w2"
  by (auto simp: writes_def split: option.splits)

lemma pool_on_prober [simp]: "hw_pool (on_prober f w) = hw_pool w"
  by (simp add: on_prober_def)

lemma writes_on_prober [wr]: "writes S w w1 \<Longrightarrow> writes S w (on_prober f w1)"
  by (erule writes_same) simp

lemma writes_io:
  assumes "calm S io" "writes S w w1"
  shows "writes S w (fst (io_probe io proto t w1))" "writes S w (fst (io_canary io t w1))" "writes S w (io_canary_done io i w1)"
    "writes S w (io_pre_hook io w1)" "writes S w (io_pre_status io w1)" "writes S w (io_pre_failure io w1)"
    "writes S w (io_retry_failovers io w1)" "io_active_hook io = Some h \<Longrightarrow> writes S w (fst (h t w1))"
    "io_heal_hook io = Some h \<Longrightarrow> writes S w (fst (h t w1))" "io_notifier io = Some n \<Longrightarrow> writes S w (n t w1)"
  using assms(1) unfolding calm_def by (auto intro!: writes_trans [OF assms(2)])

lemma wr_pair [wr]: "writes S w w1 \<Longrightarrow> writes S w (fst (w1, r))"
  by simp

lemma wr_prod:
  "writes S w (fst x) \<Longrightarrow> (\<And>a b. writes S w a \<Longrightarrow> writes S w (fst (f a b))) \<Longrightarrow> writes S w (fst (case x of (a, b) \<Rightarrow> f a b))"
  by (cases x) simp

lemma wr_cases [wr]:
  "(x = None \<Longrightarrow> writes S w (fst y)) \<Longrightarrow> (\<And>z. x = Some z \<Longrightarrow> writes S w (fst (f z))) \<Longrightarrow>
    writes S w (fst (case x of None \<Rightarrow> y | Some z \<Rightarrow> f z))"
  "(\<And>a. r = Inl a \<Longrightarrow> writes S w (fst (g a))) \<Longrightarrow> (\<And>b. r = Inr b \<Longrightarrow> writes S w (fst (h b))) \<Longrightarrow>
    writes S w (fst (case r of Inl a \<Rightarrow> g a | Inr b \<Rightarrow> h b))"
  "(b \<Longrightarrow> writes S w (fst u)) \<Longrightarrow> (\<not> b \<Longrightarrow> writes S w (fst v)) \<Longrightarrow> writes S w (fst (if b then u else v))"
  "(b \<Longrightarrow> writes S w (fst u)) \<Longrightarrow> (\<not> b \<Longrightarrow> writes S w (fst v)) \<Longrightarrow> writes S w (fst (case b of True \<Rightarrow> u | False \<Rightarrow> v))"
  by (auto split: option.split sum.split bool.split)

lemma writes_swap:
  assumes "writes S w w1" "hw_pool w1 = Some p" "status \<in> S"
  shows "writes S w (fst (swap_status io p s i expStatus expReason expVersion status reason latency w1))"
proof -
  have "rtranclp (health_write S) p (fst (cas_for_tunnel ok dbnow now s i expStatus expReason expVersion status reason latency p))"
    for ok dbnow now
    by (auto simp: cas_for_tunnel_def intro: r_into_rtranclp health_write.swap [OF assms(3)])
  then have "writes S w1 (fst (swap_status io p s i expStatus expReason expVersion status reason latency w1))"
    using assms(2) by (auto simp: swap_status_def Let_def writes_def split: prod.split) (metis fst_conv)
  then show ?thesis by (rule writes_trans [OF assms(1)])
qed

lemma check_generation_pool [simp]: "hw_pool (fst (check_health_generation t w)) = hw_pool w"
  by (auto simp: check_health_generation_def Let_def split: option.split)

lemma update_current_pool [simp]: "hw_pool (fst (update_health_if_current t f w)) = hw_pool w"
  using check_generation_pool [of t w] by (cases "check_health_generation t w") (auto simp: update_health_if_current_def split: option.split)

lemma accept_canary_pool [simp]: "hw_pool (fst (accept_canary t seq b w)) = hw_pool w"
  by (auto simp: accept_canary_def Let_def split: option.split)

lemma writes_counters [wr]:
  assumes "writes S w w1"
  shows "writes S w (fst (check_health_generation t w1))" "writes S w (fst (update_health_if_current t f w1))"
    "writes S w (fst (accept_canary t seq b w1))" "writes S w (begin_canary w1)"
  by (rule writes_same [OF assms], simp add: begin_canary_def)+

text \<open>The probes, the canary and the notifier.\<close>

lemma writes_probe_endpoint [wr]:
  assumes "calm S io" "writes S w w1"
  shows "writes S w (fst (probe_endpoint io t w1))"
  unfolding probe_endpoint_def probe_awg_def probe_proxy_def Let_def
  by (assumption | rule assms(2) wr wr_prod writes_refl writes_io(1) [OF assms(1)])+

lemma writes_probe_canary [wr]:
  assumes "calm S io" "writes S w w1"
  shows "writes S w (fst (probe_canary io t w1))"
  unfolding probe_canary_def Let_def
  by (assumption | rule assms(2) wr wr_prod writes_refl writes_io(2) [OF assms(1)] writes_io(3) [OF assms(1)])+

lemma writes_notify [wr]:
  assumes "calm S io" "writes S w w1"
  shows "writes S w (notify_health_disabled io s i w1)"
proof -
  have "writes S w (w1\<lparr>hw_reported := x\<rparr>)" for x by (rule writes_same [OF assms(2)]) simp
  then show ?thesis
    using assms by (auto simp: notify_health_disabled_def intro: writes_io(10) split: option.split sum.split)
qed

lemma writes_commit_disable [wr]:
  assumes "calm S io" "writes S w w1"
  shows "writes S w (fst (commit_threshold_disable io t w1))"
  unfolding commit_threshold_disable_def
  by (assumption | rule assms wr wr_prod writes_refl)+

text \<open>The transitions.\<close>

lemma writes_settled [wr]:
  assumes "writes S w w1" "\<And>w2. writes S w w2 \<Longrightarrow> hw_pool w2 = hw_pool w1 \<Longrightarrow> writes S w (fst (f w2))"
  shows "writes S w (fst (settled_by_other cur s f w1))"
  unfolding settled_by_other_def
  by (assumption | rule assms refl wr wr_prod)+

lemma writes_mapped [wr]: "writes S w (fst x) \<Longrightarrow> writes S w (fst (not_settled x))" "writes S w (fst x) \<Longrightarrow> writes S w (fst (denied x))"
  by (cases x; simp add: not_settled_def denied_def split: option.split)+

lemma wr_check:
  assumes "writes S w w0" "\<And>a b. writes S w a \<Longrightarrow> hw_pool a = hw_pool w0 \<Longrightarrow> writes S w (fst (f a b))"
  shows "writes S w (fst (case check_health_generation t w0 of (a, b) \<Rightarrow> f a b))"
  using assms(2) [of "fst (check_health_generation t w0)" "snd (check_health_generation t w0)"] writes_counters(1) [OF assms(1)]
  by (simp add: split_def)

lemma writes_reconcile_threshold [wr]:
  assumes "calm S io" "writes S w w1" "status_disabled \<in> S"
  shows "writes S w (fst (reconcile_threshold io s i w1))"
  unfolding reconcile_threshold_def
  by (assumption | rule assms wr_check wr wr_prod writes_swap | simp; fail)+

text \<open>The statuses the prober writes while the canary denies transit.\<close>

definition demotions :: "string set" where
  "demotions = {status_degraded, status_handshake_blocked, status_disabled}"

lemma demotions_mem: "demotions \<subseteq> S \<Longrightarrow> status_degraded \<in> S" "demotions \<subseteq> S \<Longrightarrow> status_handshake_blocked \<in> S"
  "demotions \<subseteq> S \<Longrightarrow> status_disabled \<in> S"
  by (auto simp: demotions_def)

lemma writes_blocked [wr]:
  assumes "calm S io" "writes S w w1" "demotions \<subseteq> S"
  shows "writes S w (fst (transition_to_handshake_blocked io t w1))"
  unfolding transition_to_handshake_blocked_def Let_def
  by (assumption | rule assms demotions_mem [OF assms(3)] wr wr_prod writes_swap)+

lemma writes_missed_disable [wr]:
  assumes "calm S io" "writes S w w1" "demotions \<subseteq> S"
  shows "writes S w (fst (after_missed_disable io t w1))"
  unfolding after_missed_disable_def
  by (assumption | rule assms demotions_mem [OF assms(3)] wr wr_prod writes_swap)+

lemma writes_threshold_disabled [wr]:
  assumes "calm S io" "writes S w w1" "demotions \<subseteq> S"
  shows "writes S w (fst (transition_to_threshold_disabled io t w1))"
  unfolding transition_to_threshold_disabled_def
  by (assumption | rule assms demotions_mem [OF assms(3)] wr wr_prod writes_swap)+

lemma writes_missed_degrade [wr]:
  assumes "calm S io" "writes S w w1" "demotions \<subseteq> S"
  shows "writes S w (fst (after_missed_degrade t w1))"
  unfolding after_missed_degrade_def Let_def
  by (assumption | rule assms demotions_mem [OF assms(3)] wr wr_prod writes_swap)+

lemma writes_degraded [wr]:
  assumes "calm S io" "writes S w w1" "demotions \<subseteq> S"
  shows "writes S w (fst (transition_to_degraded io t w1))"
  unfolding transition_to_degraded_def
  by (assumption | rule assms demotions_mem [OF assms(3)] wr wr_prod writes_swap)+

lemma writes_confirm [wr]:
  assumes "calm S io" "writes S w w1" "demotions \<subseteq> S"
  shows "writes S w (fst (confirm_outer_failure io t n w1))"
  unfolding confirm_outer_failure_def Let_def
  by (assumption | rule assms demotions_mem [OF assms(3)] wr wr_prod writes_swap)+

lemma writes_unless_gone [wr]: "writes S w w1 \<Longrightarrow> writes S w (fst (unless_gone t e w1))"
  by (auto simp: unless_gone_def split: option.split health_error.split tunnel_error.split)

lemma writes_probe_failure [wr]:
  assumes "calm S io" "writes S w w1" "demotions \<subseteq> S"
  shows "writes S w (fst (handle_probe_failure io t e w1))"
  unfolding handle_probe_failure_def Let_def
  by (assumption | rule assms demotions_mem [OF assms(3)] wr wr_prod writes_swap)+

lemma writes_hook_disable [wr]:
  assumes "calm S io" "writes S w w1" "demotions \<subseteq> S"
  shows "writes S w (fst (hook_disable io t w1))"
  unfolding hook_disable_def
  by (assumption | rule assms demotions_mem [OF assms(3)] wr wr_prod writes_swap)+

lemma writes_hook_degrade [wr]:
  assumes "calm S io" "writes S w w1" "demotions \<subseteq> S"
  shows "writes S w (fst (hook_degrade io t w1))"
  unfolding hook_degrade_def
  by (assumption | rule assms demotions_mem [OF assms(3)] wr wr_prod writes_swap)+

lemma writes_hook_failure [wr]:
  assumes "calm S io" "writes S w w1" "demotions \<subseteq> S"
  shows "writes S w (fst (handle_hook_failure io t e w1))"
  unfolding handle_hook_failure_def Let_def
  by (assumption | rule assms demotions_mem [OF assms(3)] wr wr_prod writes_swap)+

lemma writes_active_hook [wr]:
  assumes "calm S io" "writes S w w1" "demotions \<subseteq> S"
  shows "writes S w (fst (execute_active_hook io snap t w1))"
  unfolding execute_active_hook_def
  by (assumption | rule assms demotions_mem [OF assms(3)] wr wr_prod writes_swap writes_io(8) [OF assms(1)])+

lemma writes_run_hook [wr]:
  assumes "calm S io" "writes S w w1" "demotions \<subseteq> S"
  shows "writes S w (fst (run_active_hook_if_active io snap t status w1))"
  unfolding run_active_hook_if_active_def
  by (assumption | rule assms demotions_mem [OF assms(3)] wr wr_prod writes_swap writes_io(4) [OF assms(1)])+

lemma writes_verify [wr]:
  assumes "calm S io" "writes S w w1" "demotions \<subseteq> S"
  shows "writes S w (fst (verify_active_eligibility io snap t b w1))"
  unfolding verify_active_eligibility_def
  by (assumption | rule assms demotions_mem [OF assms(3)] wr wr_prod writes_swap)+

lemma writes_write_status [wr]:
  assumes "writes S w w1" "hw_pool w1 = Some p" "status \<in> S"
  shows "writes S w (fst (write_status io p s i v status latency w1))"
proof -
  have "rtranclp (health_write S) p (fst (set_tunnel_status_if_current_with_version ok dbnow now s i v status latency p))" for ok dbnow now
    by (auto simp: set_tunnel_status_if_current_with_version_def intro: r_into_rtranclp health_write.status [OF assms(3)])
  then have "writes S w1 (fst (write_status io p s i v status latency w1))"
    using assms(2) by (auto simp: write_status_def Let_def writes_def split: prod.split) (metis fst_conv)
  then show ?thesis by (rule writes_trans [OF assms(1)])
qed

lemma writes_finish [wr]: "writes S w w1 \<Longrightarrow> writes S w (fst (finish_probe_success t w1))"
  unfolding finish_probe_success_def by (assumption | rule wr wr_prod)+

lemma writes_commit [wr]:
  assumes "calm S io" "writes S w w1" "status \<in> S"
  shows "writes S w (fst (commit_active_probe_success io snap t status latency w1))"
    "writes S w (fst (commit_if_available io snap t status latency w1))"
proof -
  have *: "writes S w (fst (commit_active_probe_success io snap t status latency w2))" if "writes S w w2" for w2
    unfolding commit_active_probe_success_def Let_def
    by (assumption | rule assms that wr wr_prod)+
  show "writes S w (fst (commit_active_probe_success io snap t status latency w1))" by (rule * [OF assms(2)])
  show "writes S w (fst (commit_if_available io snap t status latency w1))"
    unfolding commit_if_available_def
    by (assumption | rule assms * wr wr_prod writes_io(5) [OF assms(1)])+
qed

text \<open>
  A probe writes \<^verbatim>\<open>active\<close> only through \<open>commit_if_available\<close>, and with a canary only after the canary has
  passed.
\<close>

definition denying :: "prober_io \<Rightarrow> bool" where
  "denying io \<longleftrightarrow> (\<forall>t. io_has_canary io t) \<and> (\<forall>t w. snd (io_canary io t w) \<noteq> None)"

lemma denying_canary: "denying io \<Longrightarrow> snd (probe_canary io t w) \<noteq> None"
  by (cases "io_canary io t (begin_canary w)")
    (auto simp: denying_def probe_canary_def Let_def split: prod.split option.split dest: spec2 [of _ t "begin_canary w"])

lemma denying_verify:
  assumes "denying io"
  shows "snd (verify_active_eligibility io snap t b w) \<noteq> Inr True"
proof -
  obtain w1 e where "probe_canary io t w = (w1, Some e)"
    using denying_canary [OF assms, of t w] by (cases "probe_canary io t w") auto
  moreover have "snd (denied x) \<noteq> Inr True" for x by (cases x) (simp add: denied_def split: option.split)
  ultimately show ?thesis using assms by (simp add: verify_active_eligibility_def denying_def)
qed

lemma wr_verify:
  assumes "writes S w (fst x)" "snd x \<noteq> Inr True \<or> (\<forall>w2. writes S w w2 \<longrightarrow> writes S w (fst (yes w2)))"
  shows "writes S w (fst (case x of (w2, Inl e) \<Rightarrow> (w2, Inl e) | (w2, Inr False) \<Rightarrow> (w2, Inr l) | (w2, Inr True) \<Rightarrow> yes w2))"
  using assms by (cases x) (auto split: sum.split bool.split)

lemma writes_probe_success [wr]:
  assumes "calm S io" "writes S w w1" "demotions \<subseteq> S" "''active'' \<in> S \<or> denying io"
  shows "writes S w (fst (handle_probe_success io snap t latency w1))"
proof -
  have d: "''degraded'' \<in> S" using assms(3) by (simp add: demotions_def status_degraded_def)
  have *: "snd (verify_active_eligibility io snap t b w2) \<noteq> Inr True \<or>
      (\<forall>w3. writes S w w3 \<longrightarrow> writes S w (fst (commit_if_available io snap t (if hi then ''degraded'' else ''active'') latency w3)))" for b w2 hi
    using assms(4) denying_verify writes_commit(2) [OF assms(1) _ d] writes_commit(2) [OF assms(1), of _ _ "''active''"] by auto
  have **: "\<not> ((if hi then ''degraded'' else ''active'') = ''active'' \<or> B) \<Longrightarrow> (if hi then ''degraded'' else ''active'') \<in> S" for hi B
    using d by (simp split: if_splits)
  show ?thesis
    unfolding handle_probe_success_def Let_def
    by (assumption | rule assms(1-3) * ** wr_verify wr wr_prod)+
qed

lemma writes_probe_tunnel [wr]:
  assumes "calm S io" "writes S w w1" "demotions \<subseteq> S" "''active'' \<in> S \<or> denying io"
  shows "writes S w (fst (probe_tunnel io t w1))"
  unfolding probe_tunnel_def Let_def
  by (assumption | rule assms wr wr_prod writes_io(6) [OF assms(1)])+

lemma writes_flap_damp [wr]:
  assumes "calm S io" "writes S w w1"
  shows "writes S w (fst (probe_and_flap_damp io t threshold w1))"
  unfolding probe_and_flap_damp_def Let_def
  by (assumption | rule assms wr wr_prod)+

lemma writes_heal_hook [wr]:
  assumes "calm S io" "writes S w w1"
  shows "writes S w (fst (invoke_self_heal_hook io t w1))"
proof -
  have *: "writes S w (fst (h t w1))" if "(case io_heal_hook io of None \<Rightarrow> io_active_hook io | Some h \<Rightarrow> Some h) = Some h" for h
    using that writes_io(8,9) [OF assms] by (auto split: option.splits)
  show ?thesis
    unfolding invoke_self_heal_hook_def
    by (assumption | rule assms * wr wr_prod)+
qed

lemma writes_heal_status [wr]:
  assumes "calm S io" "writes S w w1"
  shows "writes S w (fst (determine_self_heal_status io t latency lt w1))"
  unfolding determine_self_heal_status_def Let_def
  by (assumption | rule assms wr wr_prod)+

lemma heal_status_range:
  "snd (determine_self_heal_status io t latency lt w) \<in> {[], ''degraded'', ''active''} \<and>
   (denying io \<longrightarrow> snd (determine_self_heal_status io t latency lt w) = [])"
proof -
  have "denying io \<Longrightarrow> io_has_canary io t" by (simp add: denying_def)
  then show ?thesis using denying_canary [of io t w]
    by (cases "probe_canary io t w") (auto simp: determine_self_heal_status_def Let_def split: option.split)
qed

lemma writes_finalize [wr]:
  assumes "calm S io" "writes S w w1" "demotions \<subseteq> S" "''active'' \<in> S \<or> denying io"
  shows "writes S w (fst (finalize_self_heal_recovery io t now latency lt w1))"
proof -
  have *: "writes S w (fst (case determine_self_heal_status io cur latency lt w1 of (a, st) \<Rightarrow> f a st))"
    if "\<And>a st. writes S w a \<Longrightarrow> st = [] \<or> st \<in> S \<Longrightarrow> writes S w (fst (f a st))" for f cur
    using that [of "fst (determine_self_heal_status io cur latency lt w1)" "snd (determine_self_heal_status io cur latency lt w1)"]
      heal_status_range [of io cur latency lt w1] assms(3,4) writes_heal_status [OF assms(1,2)]
    by (auto simp: split_def demotions_def status_degraded_def)
  show ?thesis
    unfolding finalize_self_heal_recovery_def Let_def
    by (assumption | rule assms * wr wr_prod writes_swap | blast)+
qed

lemma writes_reconcile_tunnel [wr]:
  assumes "calm S io" "writes S w w1" "demotions \<subseteq> S" "''active'' \<in> S \<or> denying io"
  shows "writes S w (fst (reconcile_tunnel io t threshold lt w1))"
  unfolding reconcile_tunnel_def
  by (assumption | rule assms wr wr_prod)+

lemma writes_probe_all:
  assumes "calm S io" "demotions \<subseteq> S" "''active'' \<in> S \<or> denying io"
  shows "writes S w (fst (probe_all io ord w))"
proof -
  have "writes S w w1 \<Longrightarrow>
    writes S w (fst (fold (\<lambda>t (w, results). case probe_tunnel io t w of (w1, res) \<Rightarrow> (w1, f t res results)) ts (w1, results)))"
    for ts f w1 results
  proof (induction ts arbitrary: w1 results)
    case (Cons t ts)
    have "writes S w (fst (probe_tunnel io t w1))" by (rule writes_probe_tunnel [OF assms(1) Cons.prems assms(2,3)])
    then show ?case using Cons.IH by (simp add: split_def)
  qed simp
  note run = this
  show ?thesis
  proof (cases "hw_pool w")
    case (Some p)
    then show ?thesis unfolding probe_all_def by (simp only: option.case) (rule run [OF writes_refl])
  qed (simp add: probe_all_def writes_refl)
qed

lemma writes_self_heal_sweep:
  assumes "calm S io" "demotions \<subseteq> S" "''active'' \<in> S \<or> denying io"
  shows "writes S w (fst (self_heal_sweep io ord w))"
proof -
  have run: "writes S w w1 \<Longrightarrow>
    writes S w (fst (fold (\<lambda>t (w, n). case reconcile_tunnel io t a b w of (w1, b) \<Rightarrow> (w1, if b then n + 1 else n)) ts (w1, n::nat)))"
    for ts a b w1 n
  proof (induction ts arbitrary: w1 n)
    case (Cons t ts)
    have "writes S w (fst (reconcile_tunnel io t a b w1))" by (rule writes_reconcile_tunnel [OF assms(1) Cons.prems assms(2,3)])
    then show ?case using Cons.IH by (simp add: split_def)
  qed simp
  show ?thesis
    using writes_io(7) [OF assms(1) run [OF writes_refl]]
    by (auto simp: self_heal_sweep_def Let_def split_def intro: writes_refl split: option.split)
qed

section \<open>What a run of health writes can do\<close>

definition unmoved where
  "unmoved t = (tun_id t, tun_server t, tun_interface t, tun_public_key t, tun_private_key t, tun_probe_key t, tun_endpoint t,
     tun_enabled t, tun_conns t, tun_created_at t, tun_protocol t, tun_params t)"

definition health_moved :: "string set \<Rightarrow> backend_tunnel \<Rightarrow> backend_tunnel \<Rightarrow> bool" where
  "health_moved S t t' \<longleftrightarrow> t' = t \<or> tun_enabled t \<and> tun_status t' \<in> S \<and> unmoved t' = unmoved t"

lemma unmovedD:
  assumes "unmoved t' = unmoved t"
  shows "tun_enabled t' = tun_enabled t" "tun_endpoint t' = tun_endpoint t" "tun_public_key t' = tun_public_key t" "tun_conns t' = tun_conns t"
  using assms by (simp_all add: unmoved_def)

lemma health_moved_written: "st \<in> S \<Longrightarrow> moved_to st t t' \<Longrightarrow> health_moved S t t'"
  by (auto simp: health_moved_def moved_to_def unmoved_def written_def bump_version_def)

lemma health_moved_trans: "health_moved S a b \<Longrightarrow> health_moved S b c \<Longrightarrow> health_moved S a c"
  using unmovedD [of b a] unfolding health_moved_def by metis

lemma health_writes_view:
  assumes "rtranclp (health_write S) p p'" "pool_inv p"
  shows "pool_inv p' \<and> (id_view p i = None \<longrightarrow> id_view p' i = None) \<and>
    (\<forall>t. id_view p i = Some t \<longrightarrow> (\<exists>t'. id_view p' i = Some t' \<and> health_moved S t t'))"
  using assms
proof (induction rule: rtranclp_induct)
  case base
  then show ?case by (auto simp: health_moved_def)
next
  case (step q r)
  have inv: "pool_inv q" using step by blast
  then have wf: "pool_wf q" by (simp add: pool_inv_def)
  have "pool_step q r" using step(2) by cases (auto intro: pool_step.intros)
  then have inv': "pool_inv r" using pool_step_inv [OF _ inv] by blast
  obtain st s where S: "st \<in> S" "write_shape st s q r"
    using step(2) by cases (blast intro: swap_shape set_status_shape)+
  note shape = write_shape_view [OF wf S(2), of i]
  have r: "\<exists>t'. id_view r i = Some t' \<and> health_moved S t t'" if "id_view q i = Some t" for t
    using shape that health_moved_written [OF S(1)] by blast
  show ?case
  proof (intro conjI impI allI)
    fix t assume "id_view p i = Some t"
    then obtain u where u: "id_view q i = Some u" "health_moved S t u" using step by blast
    obtain t' where "id_view r i = Some t'" "health_moved S u t'" using r [OF u(1)] by blast
    then show "\<exists>t'. id_view r i = Some t' \<and> health_moved S t t'" using health_moved_trans [OF u(2)] by blast
  qed (use inv' shape step in auto)
qed

lemma writes_view:
  assumes "writes S w w'" "hw_pool w = Some p" "pool_reachable p"
  shows "\<exists>p'. hw_pool w' = Some p' \<and> (id_view p i = None \<longrightarrow> id_view p' i = None) \<and>
    (\<forall>t. id_view p i = Some t \<longrightarrow> (\<exists>t'. id_view p' i = Some t' \<and> health_moved S t t'))"
proof -
  obtain p' where p': "hw_pool w' = Some p'" "rtranclp (health_write S) p p'" using assms(1,2) by (auto simp: writes_def)
  note view = conjunct2 [OF health_writes_view [OF p'(2) pool_reachable_inv [OF assms(3)], of i]]
  show ?thesis by (rule exI [of _ p'], rule conjI [OF p'(1) view])
qed



section \<open>Callbacks that leave the world alone\<close>

definition undisturbed :: "prober_io \<Rightarrow> bool" where
  "undisturbed io \<longleftrightarrow>
     (\<forall>proto t w. fst (io_probe io proto t w) = w) \<and> (\<forall>t w. fst (io_canary io t w) = w) \<and>
     (\<forall>i w. io_canary_done io i w = w) \<and> (\<forall>w. io_pre_hook io w = w) \<and> (\<forall>w. io_pre_status io w = w) \<and>
     (\<forall>w. io_pre_failure io w = w) \<and> (\<forall>w. io_retry_failovers io w = w) \<and>
     (\<forall>h t w. io_active_hook io = Some h \<longrightarrow> fst (h t w) = w) \<and> (\<forall>h t w. io_heal_hook io = Some h \<longrightarrow> fst (h t w) = w) \<and>
     (\<forall>n t w. io_notifier io = Some n \<longrightarrow> n t w = w) \<and> (\<forall>w. \<not> io_cancelled io w) \<and> (\<forall>n. io_ok io n)"

lemma undisturbed_calm: "undisturbed io \<Longrightarrow> calm S io"
  by (auto simp: undisturbed_def calm_def writes_refl)

text \<open>A prober over the pool of two backends; the handshake answers as told, and so does the canary when there is one.\<close>

definition demo_io :: "(health_error + int) \<Rightarrow> health_error option option \<Rightarrow> prober_io" where
  "demo_io answer canary =
     \<lparr>io_probe = \<lambda>_ _ w. (w, answer), io_decodes = \<lambda>_ _. True, io_has_canary = \<lambda>_. canary \<noteq> None,
      io_canary = \<lambda>_ w. (w, case canary of None \<Rightarrow> None | Some c \<Rightarrow> c), io_canary_done = \<lambda>_ w. w, io_active_hook = None,
      io_heal_hook = None, io_notifier = Some (\<lambda>_ w. w), io_retry_failovers = \<lambda>w. w, io_pre_hook = \<lambda>w. w, io_pre_status = \<lambda>w. w,
      io_pre_failure = \<lambda>w. w, io_cancelled = \<lambda>_. False, io_ok = \<lambda>_. True, io_now = \<lambda>n. int n\<rparr>"

definition demo_world :: health_world where
  "demo_world = \<lparr>hw_prober = new_health_prober default_health_config, hw_pool = Some demo_pool, hw_stmt = 0, hw_reported = []\<rparr>"

lemma demo_io_undisturbed: "undisturbed (demo_io answer canary)"
  by (simp add: undisturbed_def demo_io_def)

lemma demo_io_denying: "denying (demo_io answer (Some (Some e)))"
  by (simp add: denying_def demo_io_def)



end
