(* ===== verification/Tunnel_Health_Runs.thy ===== *)
theory Tunnel_Health_Runs
  imports Tunnel_Health_Spec
begin

text \<open>
  Runs of the prober that nothing disturbs: every statement is executed, the callbacks leave pool and counters alone. A backend whose
  handshake keeps failing is degraded, then disabled at the threshold and reported once; a disabled backend comes back after as many
  good probes as flap damping asks for. And the history of canary observations, which late completions cannot change.
\<close>

section \<open>A swap that nothing can make fail\<close>

definition at_server :: "health_world \<Rightarrow> int \<Rightarrow> backend_tunnel \<Rightarrow> bool" where
  "at_server w s t \<longleftrightarrow> (\<exists>p. hw_pool w = Some p \<and> pool_inv p \<and> get_tunnel p s = Inr t)"

lemma at_serverD:
  assumes "at_server w s t"
  obtains p where "hw_pool w = Some p" "pool_inv p" "get_tunnel p s = Inr t" "tun_server t = s" "get_tunnel_by_id p (tun_id t) = Inr t"
    "0 < tun_state_version t"
proof -
  obtain p where p: "hw_pool w = Some p" "pool_inv p" "get_tunnel p s = Inr t" using assms by (auto simp: at_server_def)
  obtain r where r: "server_tunnel p s = Some (r, t)" using p(3) by (auto simp: get_tunnel_iff)
  have wf: "pool_wf p" using p(2) by (simp add: pool_inv_def)
  show ?thesis
  proof (rule found [OF p(2) disjI1 [OF r]])
    assume "0 < tun_state_version t"
    then show thesis
      using that [OF p server_by_id(2) [OF wf r]] server_by_id(1) [OF wf r] by (simp add: get_tunnel_by_id_def)
  qed
qed

lemma at_server_on [simp]: "at_server (on_prober f w) s t = at_server w s t" "at_server (w\<lparr>hw_reported := x\<rparr>) s t = at_server w s t"
  by (simp_all add: at_server_def)

lemma on_prober_fields [simp]:
  "hw_prober (on_prober f w) = f (hw_prober w)" "hw_reported (on_prober f w) = hw_reported w" "hw_stmt (on_prober f w) = hw_stmt w"
  by (simp_all add: on_prober_def)

lemma swap_succeeds:
  assumes "at_server w s t" "hw_pool w = Some p" "tun_enabled t" "tun_id t \<noteq> 0" "\<And>n. io_ok io n"
  obtains w1 where "swap_status io p s (tun_id t) (tun_status t) (tun_disable_reason t) (tun_state_version t) st re la w = (w1, Inr True)"
    "at_server w1 s (written st re la (io_now io (hw_stmt w)) t)" "hw_prober w1 = hw_prober w" "hw_reported w1 = hw_reported w"
proof -
  let ?now = "io_now io (hw_stmt w)"
  let ?t = "written st re la ?now t"
  have inv: "pool_inv p" and gt: "get_tunnel p s = Inr t" using assms(1,2) by (auto simp: at_server_def)
  obtain r where r: "server_tunnel p s = Some (r, t)" using gt by (auto simp: get_tunnel_iff)
  have hit: "tun_id t \<noteq> 0" "fmlookup (tp_by_server p) s = Some r" "fmlookup (tp_heap p) r = Some t"
    using assms(4) r by (auto simp: server_tunnel_def split: option.splits)
  show ?thesis
  proof (rule found [OF inv disjI1 [OF r]], goal_cases)
    case (1 d row)
    have "\<exists>d'. compare_and_swap True ?now ?now s (tun_id t) (tun_status t) (tun_disable_reason t) (tun_state_version t) st re la p =
        (put_tunnel r ?t (p\<lparr>tp_db := Some d'\<rparr>), Inr True)"
      using 1(1,2) durableD [OF 1(3)] assms(3) by (simp add: compare_and_swap_def r cas_tunnel_status_def sql_update_def) (rule exI, rule refl)
    then obtain d' where cas: "compare_and_swap True ?now ?now s (tun_id t) (tun_status t) (tun_disable_reason t) (tun_state_version t) st re la p =
        (put_tunnel r ?t (p\<lparr>tp_db := Some d'\<rparr>), Inr True)" by blast
    let ?p = "put_tunnel r ?t (p\<lparr>tp_db := Some d'\<rparr>)"
    have "pool_inv ?p"
      using touched_inv [OF inv compare_and_swap_touched [OF inv, of True ?now ?now s "tun_id t" "tun_status t" "tun_disable_reason t"
          "tun_state_version t" st re la]] by (simp add: cas)
    moreover have "get_tunnel ?p s = Inr ?t" using hit by (simp add: get_tunnel_def server_tunnel_def put_tunnel_def)
    ultimately have "at_server (w\<lparr>hw_pool := Some ?p, hw_stmt := hw_stmt w + 1\<rparr>) s ?t" by (simp add: at_server_def)
    then show ?thesis
      using that [of "w\<lparr>hw_pool := Some ?p, hw_stmt := hw_stmt w + 1\<rparr>"] assms(2,4,5) by (simp add: swap_status_def cas_for_tunnel_def cas Let_def)
  qed
qed

section \<open>The checks against the tunnel that is there\<close>

lemma available_here:
  assumes "at_server w s t" "tun_server u = s" "tun_id u = tun_id t" "tun_state_version u = tun_state_version t"
  shows "check_tunnel_available w u = (if \<not> tun_enabled t \<or> tun_status t = status_disabled then Some ErrTunnelDisabled else None)"
  using assms by (auto simp: at_server_def check_tunnel_available_def)

lemma generation_here:
  assumes "at_server w s t" "tun_server u = s" "tun_id u = tun_id t" "tun_state_version u = tun_state_version t"
  shows "check_health_generation u w = (on_prober (adopt_generation s (tun_id t)) w, None)"
    "update_health_if_current u f w = (on_prober f (on_prober (adopt_generation s (tun_id t)) w), None)"
  using assms by (auto simp: at_server_def check_health_generation_def update_health_if_current_def Let_def)

text \<open>The counters belong to the tunnel already, or to nobody.\<close>

definition owned_by :: "int \<Rightarrow> int \<Rightarrow> prober \<Rightarrow> bool" where
  "owned_by s i h \<longleftrightarrow> or_zero (hp_generations h) s \<in> {0, i}"

lemma adopt_owned:
  assumes "owned_by s i h"
  shows "adopt_generation s i h = h\<lparr>hp_generations := fmupd s i (hp_generations h)\<rparr>"
  using assms by (auto simp: owned_by_def adopt_generation_def Let_def)

lemma or_zero_upd [simp]: "or_zero (fmupd k v m) k' = (if k = k' then v else or_zero m k')" "or_zero fmempty k = 0"
  "or_zero (fmdrop k m) k' = (if k = k' then 0 else or_zero m k')"
  by (simp_all add: or_zero_def)

lemma owned_adopt [simp]: "owned_by s i (adopt_generation s i h)"
  by (simp add: owned_by_def adopt_generation_def Let_def)

section \<open>A failing backend\<close>

lemma counter_fields [simp]:
  "hp_cfg (adopt_generation s i h) = hp_cfg h" "hp_cfg (count_failure s h) = hp_cfg h" "hp_cfg (mark_auto s h) = hp_cfg h"
  "hp_cfg (no_success s h) = hp_cfg h" "hp_cfg (count_success s h) = hp_cfg h" "hp_cfg (forget_streaks s h) = hp_cfg h"
  "hp_fail (mark_auto s h) = hp_fail h" "hp_fail (no_success s h) = hp_fail h" "hp_fail (count_success s h) = hp_fail h"
  "hp_generations (count_failure s h) = hp_generations h" "hp_generations (mark_auto s h) = hp_generations h"
  "hp_generations (no_success s h) = hp_generations h" "hp_generations (count_success s h) = hp_generations h"
  "hp_generations (forget_streaks s h) = hp_generations h" "or_zero (hp_fail (count_failure s h)) s = or_zero (hp_fail h) s + 1"
  "hp_success (count_failure s h) = hp_success h" "or_zero (hp_success (count_success s h)) s = or_zero (hp_success h) s + 1"
  by (simp_all add: adopt_generation_def Let_def count_failure_def mark_auto_def no_success_def count_success_def forget_streaks_def)

lemma owned_counters [simp]:
  "owned_by s i (count_failure s h) = owned_by s i h" "owned_by s i (mark_auto s h) = owned_by s i h"
  "owned_by s i (no_success s h) = owned_by s i h" "owned_by s i (count_success s h) = owned_by s i h"
  "owned_by s i (h\<lparr>hp_auto := x\<rparr>) = owned_by s i h"
  by (simp_all add: owned_by_def)

lemma adopt_keeps:
  assumes "owned_by s i h"
  shows "hp_fail (adopt_generation s i h) = hp_fail h" "hp_success (adopt_generation s i h) = hp_success h"
  using assms by (simp_all add: adopt_owned)

lemma unless_gone_world [simp]: "fst (unless_gone t e w) = w"
  by (auto simp: unless_gone_def split: option.split health_error.split tunnel_error.split)

lemma threshold_disable_run:
  assumes "at_server w s t" "tun_enabled t" "tun_id t \<noteq> 0" "undisturbed io" "tun_server t = s"
  shows "\<exists>w' t'. transition_to_threshold_disabled io t w = (w', None) \<and> at_server w' s t' \<and> tun_id t' = tun_id t \<and> tun_enabled t' \<and>
    tun_status t' = status_disabled \<and> tun_disable_reason t' = reason_health \<and>
    hw_prober w' = mark_auto s (adopt_generation s (tun_id t) (hw_prober w)) \<and>
    hw_reported w' = hw_reported w @ (if io_notifier io = None then [] else [t'])"
proof -
  obtain p where p: "hw_pool w = Some p" using assms(1) by (auto simp: at_server_def)
  have ok: "io_ok io n" for n using assms(4) by (simp add: undisturbed_def)
  let ?t = "written status_disabled reason_health 0 (io_now io (hw_stmt w)) t"
  obtain w1 where w1: "swap_status io p s (tun_id t) (tun_status t) (tun_disable_reason t) (tun_state_version t) status_disabled reason_health 0 w =
      (w1, Inr True)" "at_server w1 s ?t" "hw_prober w1 = hw_prober w" "hw_reported w1 = hw_reported w"
    by (rule swap_succeeds [OF assms(1) p assms(2,3) ok])
  have same: "tun_server (bump_version t) = s" "tun_id (bump_version t) = tun_id ?t" "tun_state_version (bump_version t) = tun_state_version ?t"
    using assms(5) by (simp_all add: bump_version_def)
  let ?w2 = "on_prober (mark_auto s) (on_prober (adopt_generation s (tun_id t)) w1)"
  have id: "tun_server (bump_version t) = s" "tun_id (bump_version t) = tun_id t" using assms(5) by (simp_all add: bump_version_def)
  have commit: "commit_threshold_disable io (bump_version t) w1 = (notify_health_disabled io s (tun_id t) ?w2, None)"
    using generation_here(2) [OF w1(2) same] id by (simp add: commit_threshold_disable_def)
  obtain p1 where p1: "hw_pool w1 = Some p1" "get_tunnel_by_id p1 (tun_id t) = Inr ?t"
    using at_serverD [OF w1(2)] by (metis written_fields(1))
  have target: "notify_target ?t s" using assms(2,5) by (simp add: notify_target_def)
  have note_run: "notify_health_disabled io s (tun_id t) ?w2 =
      (if io_notifier io = None then ?w2 else ?w2\<lparr>hw_reported := hw_reported ?w2 @ [?t]\<rparr>)"
    using assms(3,4) p1 target by (auto simp: notify_health_disabled_def undisturbed_def split: option.split)
  have "transition_to_threshold_disabled io t w = (notify_health_disabled io s (tun_id t) ?w2, None)"
    using p w1(1) commit assms(5) by (simp add: transition_to_threshold_disabled_def)
  then show ?thesis
    using w1(2-4) assms(2) by (intro exI [of _ "notify_health_disabled io s (tun_id t) ?w2"] exI [of _ ?t]) (simp add: note_run)
qed

lemma demote_run:
  assumes "at_server w s t" "tun_enabled t" "tun_id t \<noteq> 0" "undisturbed io" "tun_server t = s" "tun_status t \<noteq> status_disabled"
  shows "\<exists>w' t'. (if 0 < tun_conns t then transition_to_handshake_blocked io t w else transition_to_degraded io t w) = (w', None) \<and>
    at_server w' s t' \<and> tun_id t' = tun_id t \<and> tun_enabled t' \<and> tun_status t' = (if 0 < tun_conns t then status_handshake_blocked else status_degraded) \<and>
    hp_cfg (hw_prober w') = hp_cfg (hw_prober w) \<and> (owned_by s (tun_id t) (hw_prober w) \<longrightarrow>
      hp_fail (hw_prober w') = hp_fail (hw_prober w) \<and> owned_by s (tun_id t) (hw_prober w')) \<and> hw_reported w' = hw_reported w"
proof -
  obtain p where p: "hw_pool w = Some p" using assms(1) by (auto simp: at_server_def)
  have ok: "io_ok io n" for n using assms(4) by (simp add: undisturbed_def)
  have run: "\<exists>w1. swap_status io p s (tun_id t) (tun_status t) (tun_disable_reason t) (tun_state_version t) st re 0 w = (w1, Inr True) \<and>
      at_server w1 s (written st re 0 (io_now io (hw_stmt w)) t) \<and> hw_prober w1 = hw_prober w \<and> hw_reported w1 = hw_reported w \<and>
      (\<forall>f. update_health_if_current (bump_version t) f w1 = (on_prober f (on_prober (adopt_generation s (tun_id t)) w1), None))" for st re
  proof -
    obtain w1 where w1: "swap_status io p s (tun_id t) (tun_status t) (tun_disable_reason t) (tun_state_version t) st re 0 w = (w1, Inr True)"
      "at_server w1 s (written st re 0 (io_now io (hw_stmt w)) t)" "hw_prober w1 = hw_prober w" "hw_reported w1 = hw_reported w"
      by (rule swap_succeeds [OF assms(1) p assms(2,3) ok])
    have "update_health_if_current (bump_version t) f w1 = (on_prober f (on_prober (adopt_generation s (tun_id t)) w1), None)" for f
      using generation_here(2) [OF w1(2), of "bump_version t" f] assms(5) by (simp add: bump_version_def)
    then show ?thesis using w1 by blast
  qed
  show ?thesis
  proof (cases "0 < tun_conns t")
    case True
    obtain w1 where w1: "swap_status io p s (tun_id t) (tun_status t) (tun_disable_reason t) (tun_state_version t) status_handshake_blocked reason_none 0 w = (w1, Inr True)"
      "at_server w1 s (written status_handshake_blocked reason_none 0 (io_now io (hw_stmt w)) t)" "hw_prober w1 = hw_prober w" "hw_reported w1 = hw_reported w"
      "\<And>f. update_health_if_current (bump_version t) f w1 = (on_prober f (on_prober (adopt_generation s (tun_id t)) w1), None)"
      using run by blast
    show ?thesis
      using w1 True p assms(2,5) adopt_keeps
      by (simp add: transition_to_handshake_blocked_def Let_def) (rule exI [of _ "written status_handshake_blocked reason_none 0 (io_now io (hw_stmt w)) t"], simp)
  next
    case False
    show ?thesis
    proof (cases "tun_status t = status_degraded")
      case True
      then show ?thesis using False assms by (simp add: transition_to_degraded_def) blast
    next
      case ndeg: False
      obtain w1 where w1: "swap_status io p s (tun_id t) (tun_status t) (tun_disable_reason t) (tun_state_version t) status_degraded (tun_disable_reason t) 0 w = (w1, Inr True)"
        "at_server w1 s (written status_degraded (tun_disable_reason t) 0 (io_now io (hw_stmt w)) t)" "hw_prober w1 = hw_prober w" "hw_reported w1 = hw_reported w"
        "\<And>f. update_health_if_current (bump_version t) f w1 = (on_prober f (on_prober (adopt_generation s (tun_id t)) w1), None)"
        using run by blast
      show ?thesis
        using w1 False ndeg p assms(2,5) adopt_keeps
        by (simp add: transition_to_degraded_def) (rule exI [of _ "written status_degraded (tun_disable_reason t) 0 (io_now io (hw_stmt w)) t"], simp)
    qed
  qed
qed

lemma failing_probe:
  assumes "at_server w s t" "tun_enabled t" "tun_status t \<noteq> status_disabled" "tun_id t \<noteq> 0" "undisturbed io"
    "\<And>t. \<not> io_has_canary io t" "\<And>t. \<exists>e. probe_endpoint io t w = (w, Inl e)" "owned_by s (tun_id t) (hw_prober w)"
    "tun_server u = s" "tun_id u = tun_id t" "w' = fst (probe_tunnel io u w)"
  shows "\<exists>t'. at_server w' s t' \<and> tun_id t' = tun_id t \<and> tun_enabled t' \<and> hp_cfg (hw_prober w') = hp_cfg (hw_prober w) \<and>
    or_zero (hp_fail (hw_prober w')) s = or_zero (hp_fail (hw_prober w)) s + 1 \<and> owned_by s (tun_id t) (hw_prober w') \<and>
    (if hc_failure_threshold (hp_cfg (hw_prober w)) \<le> or_zero (hp_fail (hw_prober w)) s + 1
     then tun_status t' = status_disabled \<and> tun_disable_reason t' = reason_health \<and>
       hw_reported w' = hw_reported w @ (if io_notifier io = None then [] else [t'])
     else tun_status t' \<noteq> status_disabled \<and> hw_reported w' = hw_reported w)"
proof -
  obtain p where p: "hw_pool w = Some p" "get_tunnel p s = Inr t" "tun_server t = s" "0 < tun_state_version t" by (rule at_serverD [OF assms(1)])
  have snap: "initial_snapshot w u = t" using p assms(9) by (simp add: initial_snapshot_def)
  let ?u = "u\<lparr>tun_state_version := tun_state_version t, tun_endpoint := tun_endpoint t\<rparr>"
  have avail: "check_tunnel_available w t = None" "check_tunnel_available w ?u = None"
    using available_here [OF assms(1), of t] available_here [OF assms(1), of ?u] assms(2,3,9,10) p(3) by simp_all
  obtain e where e: "probe_endpoint io ?u w = (w, Inl e)" using assms(7) by blast
  let ?w1 = "on_prober (count_failure s) (on_prober (adopt_generation s (tun_id t)) w)"
  let ?n = "or_zero (hp_fail (hw_prober w)) s + 1"
  have adm: "\<not> is_admin_disabled w s" using p assms(2) by (simp add: is_admin_disabled_def)
  have pre: "io_pre_failure io w = w" using assms(5) by (simp add: undisturbed_def)
  have n: "or_zero (hp_fail (hw_prober ?w1)) s = ?n" using adopt_keeps [OF assms(8)] by simp
  have w': "w' = fst (handle_probe_failure io t e w)"
    using snap avail e assms(2,11) pre by (simp add: probe_tunnel_def Let_def)
  have failure: "fst (handle_probe_failure io t e w) = fst (confirm_outer_failure io t ?n ?w1)"
    using adm p(3) generation_here(2) [OF assms(1), of t] n
    by (simp add: handle_probe_failure_def Let_def split: prod.split option.split)
  show ?thesis
  proof (cases "hc_failure_threshold (hp_cfg (hw_prober w)) \<le> ?n")
    case True
    then have run: "confirm_outer_failure io t ?n ?w1 = transition_to_threshold_disabled io t ?w1"
      using assms(6) by (simp add: confirm_outer_failure_def Let_def)
    show ?thesis
      using threshold_disable_run [of ?w1 s t io] assms(1,2,4,5) p(3) True n
      by (auto simp: w' failure run adopt_keeps)
  next
    case False
    then have run: "confirm_outer_failure io t ?n ?w1 =
        (if 0 < tun_conns t then transition_to_handshake_blocked io t ?w1 else transition_to_degraded io t ?w1)"
      using assms(6) by (simp add: confirm_outer_failure_def Let_def)
    have ne: "status_handshake_blocked \<noteq> status_disabled" "status_degraded \<noteq> status_disabled"
      by (simp_all add: status_handshake_blocked_def status_disabled_def status_degraded_def)
    show ?thesis
      using demote_run [of ?w1 s t io] assms(1-5) p(3) False n ne
      by (auto simp: w' failure run split: if_split_asm)
  qed
qed

lemma disabled_probe:
  assumes "at_server w s t" "tun_server u = s" "\<not> tun_enabled t \<or> tun_status t = status_disabled"
  shows "probe_tunnel io u w = (w, Inl ErrTunnelDisabled)"
proof -
  obtain p where p: "hw_pool w = Some p" "get_tunnel p s = Inr t" "tun_server t = s" by (rule at_serverD [OF assms(1)])
  have "initial_snapshot w u = t" using p assms(2) by (simp add: initial_snapshot_def)
  then show ?thesis using available_here [OF assms(1) p(3) refl refl] assms(3) by (simp add: probe_tunnel_def Let_def)
qed


section \<open>A recovering backend\<close>

definition recovering :: "prober_io \<Rightarrow> int \<Rightarrow> bool" where
  "recovering io latency \<longleftrightarrow> undisturbed io \<and> (\<forall>t. \<not> io_has_canary io t) \<and>
     (\<forall>h t w. io_active_hook io = Some h \<or> io_heal_hook io = Some h \<longrightarrow> snd (h t w) = None)"

lemma recovering_hook: "recovering io latency \<Longrightarrow> invoke_self_heal_hook io t w = (w, True)"
  unfolding recovering_def undisturbed_def invoke_self_heal_hook_def
  by (cases "io_heal_hook io"; cases "io_active_hook io") (auto split: prod.split option.split, (metis fst_conv snd_conv option.distinct(1))+)

lemma good_probe:
  assumes "at_server w s t" "tun_enabled t" "tun_status t = status_disabled" "tun_disable_reason t = reason_health" "tun_id t \<noteq> 0"
    "recovering io latency" "probe_endpoint io t w = (w, Inr latency)" "owned_by s (tun_id t) (hw_prober w)"
    "w' = fst (reconcile_tunnel io t threshold limit w)"
  shows "if or_zero (hp_success (hw_prober w)) s + 1 < threshold
    then at_server w' s t \<and> hw_pool w' = hw_pool w \<and> owned_by s (tun_id t) (hw_prober w') \<and>
      or_zero (hp_success (hw_prober w')) s = or_zero (hp_success (hw_prober w)) s + 1
    else (\<exists>now. at_server w' s (written (if limit < latency then ''degraded'' else ''active'') reason_none latency now t)) \<and>
      or_zero (hp_fail (hw_prober w')) s = 0 \<and> or_zero (hp_success (hw_prober w')) s = 0 \<and> fmlookup (hp_auto (hw_prober w')) s = None"
proof -
  obtain p where p: "hw_pool w = Some p" "get_tunnel p s = Inr t" "tun_server t = s" "0 < tun_state_version t" by (rule at_serverD [OF assms(1)])
  have und: "undisturbed io" using assms(6) by (simp add: recovering_def)
  have go: "\<not> io_cancelled io w" "io_ok io n" for n using und by (simp_all add: undisturbed_def)
  let ?w1 = "on_prober (count_success s) (on_prober (adopt_generation s (tun_id t)) w)"
  have at1: "at_server ?w1 s t" using assms(1) by simp
  have s1: "or_zero (hp_success (hw_prober ?w1)) s = or_zero (hp_success (hw_prober w)) s + 1" using adopt_keeps [OF assms(8)] by simp
  have damp: "probe_and_flap_damp io t threshold w =
      (?w1, if or_zero (hp_success (hw_prober w)) s + 1 < threshold then None else Some latency)"
    using assms(7) p(3) generation_here(2) [OF assms(1) p(3) refl refl] s1 by (simp add: probe_and_flap_damp_def Let_def)
  show ?thesis
  proof (cases "or_zero (hp_success (hw_prober w)) s + 1 < threshold")
    case True
    then have "w' = ?w1" using assms(9) go damp by (simp add: reconcile_tunnel_def)
    then show ?thesis using True at1 s1 by simp
  next
    case False
    have verify: "verify_pre_hook_state ?w1 t = Some t"
      using p assms(2-4) by (simp add: verify_pre_hook_state_def status_disabled_def)
    have fin: "w' = fst (finalize_self_heal_recovery io t t latency limit ?w1)"
      using False assms(9) go(1) damp verify recovering_hook [OF assms(6)] by (simp add: reconcile_tunnel_def split_def)
    let ?st = "if limit < latency then ''degraded'' else ''active''"
    have st: "determine_self_heal_status io t latency limit ?w1 = (?w1, ?st)" "?st \<noteq> []"
      using assms(6) by (auto simp: determine_self_heal_status_def recovering_def Let_def)
    have pool1: "hw_pool ?w1 = Some p" using p by simp
    obtain w2 where w2: "swap_status io p s (tun_id t) (tun_status t) (tun_disable_reason t) (tun_state_version t) ?st reason_none latency ?w1 =
        (w2, Inr True)" "at_server w2 s (written ?st reason_none latency (io_now io (hw_stmt ?w1)) t)" "hw_prober w2 = hw_prober ?w1"
      by (rule swap_succeeds [OF at1 pool1 assms(2,5) go(2)])
    have upd: "update_health_if_current (t\<lparr>tun_state_version := tun_state_version t + 1\<rparr>) (forget_streaks s) w2 =
        (on_prober (forget_streaks s) (on_prober (adopt_generation s (tun_id t)) w2), None)"
      using generation_here(2) [OF w2(2), of "t\<lparr>tun_state_version := tun_state_version t + 1\<rparr>"] p(3) by simp
    have "w' = on_prober (forget_streaks s) (on_prober (adopt_generation s (tun_id t)) w2)"
      unfolding fin finalize_self_heal_recovery_def
      using p assms(2,3) st pool1 w2(1) upd by (simp add: Let_def status_disabled_def)
    then show ?thesis using False w2(2) by (auto simp: forget_streaks_def)
  qed
qed

lemma stale_reconcile:
  assumes "at_server w s t'" "tun_server t = s" "tun_id t' = tun_id t" "tun_state_version t' \<noteq> tun_state_version t" "0 < tun_state_version t"
    "\<exists>r. probe_endpoint io t w = (w, r)"
  shows "fst (reconcile_tunnel io t threshold limit w) = w"
proof -
  have "check_health_generation t w = (w, Some (PoolError ErrStaleStateVersion))"
    using assms(1-5) by (auto simp: at_server_def check_health_generation_def Let_def)
  then show ?thesis
    using assms(6) by (auto simp: reconcile_tunnel_def probe_and_flap_damp_def update_health_if_current_def Let_def split: sum.split)
qed


section \<open>The history of the canary\<close>

text \<open>The observations that count: those whose probe started later than every observation accepted before.\<close>

fun records :: "64 word \<Rightarrow> (64 word \<times> bool) list \<Rightarrow> (64 word \<times> bool) list" where
  "records latest [] = []"
| "records latest ((q, b) # obs) = (if q \<le> latest then records latest obs else (q, b) # records q obs)"

definition trailing_losses :: "(64 word \<times> bool) list \<Rightarrow> nat" where
  "trailing_losses obs = length (takeWhile (\<lambda>(q, b). \<not> b) (rev obs))"

definition observe_canaries :: "backend_tunnel \<Rightarrow> (64 word \<times> bool) list \<Rightarrow> health_world \<Rightarrow> health_world" where
  "observe_canaries t obs w = fold (\<lambda>(q, b) w. fst (accept_canary t q b w)) obs w"

definition count_on :: "int \<Rightarrow> (64 word \<times> bool) list \<Rightarrow> int" where
  "count_on c obs = fold (\<lambda>(q, b) c. if b then 0 else c + 1) obs c"

lemma count_on_trailing: "count_on 0 obs = int (trailing_losses obs)"
  by (induction obs rule: rev_induct) (auto simp: count_on_def trailing_losses_def)

lemma accept_run:
  assumes "canary_refused w t = None" "s = tun_server t" "w' = fst (accept_canary t q b w)"
  shows "canary_refused w' t = None \<and>
    (if q \<le> cr_sequence (result_of (hw_prober w) s) then w' = w
     else result_of (hw_prober w') s = \<lparr>cr_tunnel = tun_id t, cr_sequence = q\<rparr> \<and>
       get_canary_fail_count w' s =
         (if b then 0 else (if cr_tunnel (result_of (hw_prober w) s) = tun_id t then get_canary_fail_count w s else 0) + 1))"
proof -
  have "hw_pool w' = hw_pool w" using accept_canary_pool [of t q b w] assms(3) by simp
  then have "canary_refused w' t = None" using assms(1) by (simp add: canary_refused_def)
  then show ?thesis
    using assms by (auto simp: accept_canary_def Let_def result_of_def get_canary_fail_count_def)
qed

lemma observe_run:
  assumes "canary_refused w t = None" "s = tun_server t"
  shows "get_canary_fail_count (observe_canaries t obs w) s =
    (let r = result_of (hw_prober w) s; rs = records (cr_sequence r) obs in
     if rs = [] then get_canary_fail_count w s
     else count_on (if cr_tunnel r = tun_id t then get_canary_fail_count w s else 0) rs)"
  using assms(1)
proof (induction obs arbitrary: w)
  case (Cons o' obs)
  obtain q b where o': "o' = (q, b)" by (cases o')
  let ?w = "fst (accept_canary t q b w)"
  note step = accept_run [OF Cons.prems assms(2) refl, of q b]
  have "observe_canaries t (o' # obs) w = observe_canaries t obs ?w" by (simp add: observe_canaries_def o')
  then have "get_canary_fail_count (observe_canaries t (o' # obs) w) s =
      (let r = result_of (hw_prober ?w) s; rs = records (cr_sequence r) obs in
       if rs = [] then get_canary_fail_count ?w s
       else count_on (if cr_tunnel r = tun_id t then get_canary_fail_count ?w s else 0) rs)"
    using Cons.IH [of ?w] step by simp
  then show ?case using step by (auto simp: o' Let_def count_on_def split: if_splits)
qed (simp add: observe_canaries_def Let_def)

text \<open>
  C19: a late canary cannot rewrite history. However the completions of a tunnel's canaries are reordered, the failure count is the number
  of losses since the last success among those whose probe started after every observation accepted before; the others,
  successes included, leave no trace.
\<close>

theorem canary_history_ordered:
  assumes "canary_refused w t = None" "cr_sequence (result_of (hw_prober w) (tun_server t)) = latest"
    "cr_tunnel (result_of (hw_prober w) (tun_server t)) \<noteq> tun_id t" "records latest obs \<noteq> []"
  shows "get_canary_fail_count (observe_canaries t obs w) (tun_server t) = int (trailing_losses (records latest obs))"
  using observe_run [OF assms(1) refl, of obs] assms(2-4) by (simp add: Let_def count_on_trailing)

section \<open>The pool of two backends under the prober\<close>

lemma demo_at: "get_tunnel demo_pool 5 = Inr (demo_tunnel 1 5 ''awg-be-5'')" "hw_pool demo_world = Some demo_pool"
  using demo_found(1) by (simp_all add: demo_world_def)

lemma demo_fields [simp]:
  "tun_enabled (demo_tunnel i s n)" "tun_status (demo_tunnel i s n) = ''active''" "tun_id (demo_tunnel i s n) = i" "tun_server (demo_tunnel i s n) = s"
  "tun_protocol (demo_tunnel i s n) = ''awg''" "tun_state_version (demo_tunnel i s n) = 1" "tun_conns (demo_tunnel i s n) = 0"
  by (simp_all add: demo_tunnel_def blank_tunnel_def status_active_def)

lemma demo_prober:
  "hc_failure_threshold (hp_cfg (hw_prober demo_world)) = 3" "hp_fail (hw_prober demo_world) = fmempty"
  "owned_by s i (hw_prober demo_world)" "hp_canary_results (hw_prober demo_world) = fmempty" "hp_success (hw_prober demo_world) = fmempty"
  by (simp_all add: demo_world_def new_health_prober_def filled_config_def default_health_config_def owned_by_def)

lemma demo_probe:
  "tun_protocol t = ''awg'' \<Longrightarrow> probe_endpoint (demo_io (Inl e) c) t w = (w, Inl e)"
  "\<exists>e'. probe_endpoint (demo_io (Inl e) c) t w = (w, Inl e')"
  "tun_protocol t = ''awg'' \<Longrightarrow> probe_endpoint (demo_io (Inr 5000000) c) t w = (w, Inr 5)"
  by (auto simp: probe_endpoint_def probe_awg_def probe_proxy_def demo_io_def normalize_tunnel_protocol_def normalize_protocol_def Let_def
      at_least_one_def millisecond_def)


lemma canary_history_ordered_witness:
  "get_canary_fail_count (observe_canaries (demo_tunnel 1 5 ''awg-be-5'') [(2, False), (1, True), (3, False)] demo_world) 5 = 2"
proof -
  obtain r where "server_tunnel demo_pool 5 = Some (r, demo_tunnel 1 5 ''awg-be-5'')" using demo_at(1) by (auto simp: get_tunnel_iff)
  then have "canary_refused demo_world (demo_tunnel 1 5 ''awg-be-5'') = None"
    by (simp add: canary_refused_def demo_at check_canary_generation_def)
  then show ?thesis
    using canary_history_ordered [of demo_world "demo_tunnel 1 5 ''awg-be-5''" 0 "[(2, False), (1, True), (3, False)]"]
    by (simp add: result_of_def demo_prober trailing_losses_def)
qed

definition sick_pool :: tunnel_pool where
  "sick_pool = fst (set_tunnel_status_gen True 1 1 5 0 0 ''disabled'' 0 demo_pool)"

lemma sick_pool_facts:
  "pool_reachable sick_pool" "get_tunnel sick_pool 5 = Inr (written ''disabled'' ''health'' 0 1 (demo_tunnel 1 5 ''awg-be-5''))"
proof -
  show "pool_reachable sick_pool"
    unfolding sick_pool_def by (rule pool_reachable.stepped [OF demo_pool_reachable pool_step.status])
  obtain r where r: "server_tunnel demo_pool 5 = Some (r, demo_tunnel 1 5 ''awg-be-5'')" using demo_at(1) by (auto simp: get_tunnel_iff)
  then have "fmlookup (tp_by_server demo_pool) 5 = Some r" by (auto simp: server_tunnel_def split: option.splits)
  then show "get_tunnel sick_pool 5 = Inr (written ''disabled'' ''health'' 0 1 (demo_tunnel 1 5 ''awg-be-5''))"
    using r by (simp add: sick_pool_def set_tunnel_status_gen_def Let_def reason_after_def status_active_def status_disabled_def reason_health_def
        persist_status_def demo_found(4) db_call_def update_backend_tunnel_status_with_reason_def reason_admin_def
        update_backend_tunnel_status_def get_tunnel_def server_tunnel_def put_tunnel_def split: prod.split)
qed


end
