(* ===== verification/Canary_Packet.thy ===== *)
theory Canary_Packet
  imports Net_Addr "HOL-Library.While_Combinator"
begin

text \<open>
  The packets of the in-tunnel health canary (\<open>src/internal/vpn/tunnel/health_canary.go\<close>): the
  Internet checksum and its carry loop, the builders of the ICMP echo request and reply and of
  the DNS query and response, the two matchers a return listener applies to every packet of a
  backend, and the generator of probe identifiers.

  Packets are byte lists; a 16-bit field is written and read big endian. The checksum adds in 32
  bits as the code does. Its loop is proved to stop (\<open>carries_loop\<close>), and a sum is related to the
  plain sum of the 16-bit words of the packet modulo 65535, from which follow both that a sealed
  header verifies and that no change of a single byte goes unnoticed.
\<close>

section \<open>Big-endian fields\<close>

definition put16 :: "16 word \<Rightarrow> byte list" where
  "put16 w = [ucast (drop_bit 8 w), ucast w]"

definition get16 :: "byte \<Rightarrow> byte \<Rightarrow> 16 word" where
  "get16 a b = (push_bit 8 (ucast a)) OR ucast b"

definition field16 :: "byte list \<Rightarrow> nat \<Rightarrow> 16 word" where
  "field16 pkt i = get16 (pkt ! i) (pkt ! Suc i)"

lemma get16_put16 [simp]: "get16 (ucast (drop_bit 8 w)) (ucast w) = w"
  by (rule bit_word_eqI) (auto simp: get16_def bit_simps)

lemma byte_bit: "8 \<le> n \<Longrightarrow> \<not> bit (b :: byte) n"
  using bit_imp_le_length [of b n] by auto

lemma put16_get16: "put16 (get16 a b) = [a, b]"
  by (auto simp: get16_def put16_def bit_simps byte_bit intro!: bit_word_eqI)

lemma length_put16 [simp]: "length (put16 w) = 2"
  by (simp add: put16_def)

lemma unat_get16: "unat (get16 a b) = 256 * unat a + unat b"
proof -
  have a: "unat a < 256" and b: "unat b < 256"
    using unsigned_less [of a, where 'a = nat] unsigned_less [of b, where 'a = nat] by simp_all
  have "push_bit 8 (ucast a) AND ucast b = (0 :: 16 word)"
    by (rule bit_word_eqI) (auto simp: bit_simps byte_bit)
  then have "get16 a b = push_bit 8 (ucast a) + ucast b"
    using word_plus_and_or [of "push_bit 8 (ucast a) :: 16 word" "ucast b"] by (simp add: get16_def)
  moreover have "unat (push_bit 8 (ucast a) :: 16 word) = 256 * unat a"
    using a unfolding unsigned_push_bit_eq unsigned_ucast_eq by (simp add: take_bit_nat_eq_self push_bit_eq_mult)
  moreover have "unat (ucast b :: 16 word) = unat b"
    using b by (simp add: unsigned_ucast_eq take_bit_nat_eq_self)
  ultimately show ?thesis
    using a b by (simp add: unat_word_ariths)
qed

section \<open>The Internet checksum\<close>

fun sum16 :: "32 word \<Rightarrow> byte list \<Rightarrow> 32 word" where
  "sum16 s (a # b # r) = sum16 (s + ucast (get16 a b)) r"
| "sum16 s [a] = s + push_bit 8 (ucast a)"
| "sum16 s [] = s"

text \<open>One round of the carry loop, and the loop.\<close>

definition carry_step :: "32 word \<Rightarrow> 32 word" where
  "carry_step s = drop_bit 16 s + (s AND 0xffff)"

lemma unat_carry_step: "unat (carry_step s) = unat s div 65536 + unat s mod 65536"
proof -
  have s: "unat s < 4294967296" using unsigned_less [of s, where 'a = nat] by simp
  have d: "unat (drop_bit 16 s) = unat s div 65536"
    unfolding unat_drop_bit_eq by (simp add: drop_bit_eq_div)
  have "s AND 0xffff = take_bit 16 s"
    using take_bit_eq_mask [of 16 s] by (simp add: mask_eq_exp_minus_1)
  then have m: "unat (s AND 0xffff) = unat s mod 65536"
    by (simp only: unsigned_take_bit_eq) (simp add: take_bit_eq_mod)
  have "unat s div 65536 < 65536" using s by (simp add: less_mult_imp_div_less)
  then show ?thesis
    unfolding carry_step_def unat_word_ariths d m by simp
qed

lemma carry_step_less: "0xffff < s \<Longrightarrow> unat (carry_step s) < unat s"
proof -
  assume "0xffff < s"
  then have "65536 \<le> unat s" by (simp add: word_less_nat_alt)
  then have "0 < unat s div 65536" by (simp add: div_greater_zero_iff)
  moreover have "65536 * (unat s div 65536) + unat s mod 65536 = unat s" by simp
  ultimately show ?thesis unfolding unat_carry_step by linarith
qed

function fold_carries :: "32 word \<Rightarrow> 32 word" where
  "fold_carries s = (if 0xffff < s then fold_carries (carry_step s) else s)"
  by auto
termination
  by (relation "measure unat") (auto simp: carry_step_less)

declare fold_carries.simps [simp del]

definition internet_checksum :: "byte list \<Rightarrow> 16 word" where
  "internet_checksum b = NOT (ucast (fold_carries (sum16 0 b)))"

text \<open>The loop of the code, which is not bounded by a counter, ends with the folded sum.\<close>

lemma carries_loop: "while_option (\<lambda>s. 0xffff < s) carry_step s = Some (fold_carries s)"
proof (induction s rule: fold_carries.induct)
  case (1 s)
  then show ?case
    by (subst while_option_unfold, subst fold_carries.simps) auto
qed

lemma carries_mod: "unat (carry_step s) mod 65535 = unat s mod 65535"
proof -
  have "unat s = 65536 * (unat s div 65536) + unat s mod 65536" by simp
  then have "unat s = 65535 * (unat s div 65536) + unat (carry_step s)"
    unfolding unat_carry_step by linarith
  then show ?thesis by (metis mod_mult_self4)
qed

lemma fold_carries_le: "unat (fold_carries s) \<le> 65535"
proof (induction s rule: fold_carries.induct)
  case (1 s)
  then show ?case by (subst fold_carries.simps) (auto simp: word_less_nat_alt not_less)
qed

lemma fold_carries_mod: "unat (fold_carries s) mod 65535 = unat s mod 65535"
proof (induction s rule: fold_carries.induct)
  case (1 s)
  then show ?case by (subst fold_carries.simps) (auto simp: carries_mod)
qed

lemma fold_carries_0: "unat (fold_carries s) = 0 \<longleftrightarrow> unat s = 0"
proof (induction s rule: fold_carries.induct)
  case (1 s)
  have "0xffff < s \<Longrightarrow> unat (carry_step s) \<noteq> 0 \<and> unat s \<noteq> 0"
    using unat_carry_step [of s] by (auto simp: word_less_nat_alt div_eq_0_iff)
  then show ?case using 1 by (subst fold_carries.simps) auto
qed

text \<open>Two rounds are always enough.\<close>

lemma second_round: "n \<le> 131070 \<Longrightarrow> n div 65536 + n mod 65536 \<le> (65535::nat)"
proof (cases "n < 65536")
  case False
  moreover assume "n \<le> 131070"
  ultimately have "n div 65536 = 1" by (intro div_nat_eqI) auto
  moreover have "65536 * (n div 65536) + n mod 65536 = n" by simp
  ultimately show ?thesis using \<open>n \<le> 131070\<close> by linarith
qed simp

lemma two_rounds: "fold_carries s = (carry_step ^^ 2) s \<or> fold_carries s = carry_step s \<or> fold_carries s = s"
proof -
  have s: "unat s < 4294967296" using unsigned_less [of s, where 'a = nat] by simp
  let ?t = "carry_step s"
  have q: "unat s div 65536 \<le> 65535" using s by (simp add: less_mult_imp_div_less less_Suc_eq_le [symmetric])
  have m: "unat s mod 65536 \<le> 65535" by (simp add: less_Suc_eq_le [symmetric])
  have t: "unat ?t \<le> 131070" using q m unfolding unat_carry_step by linarith
  have "\<not> 0xffff < carry_step ?t"
  proof -
    have "unat ?t div 65536 + unat ?t mod 65536 \<le> 65535" using t by (rule second_round)
    then show ?thesis by (simp add: word_less_nat_alt unat_carry_step [of ?t])
  qed
  then have f: "fold_carries (carry_step ?t) = carry_step ?t" by (subst fold_carries.simps) simp
  have "(carry_step ^^ 2) s = carry_step ?t" by (simp add: numeral_2_eq_2)
  moreover have u: "fold_carries x = x \<or> fold_carries x = fold_carries (carry_step x)" for x
    by (cases "0xffff < x") (simp_all add: fold_carries.simps [of x])
  ultimately show ?thesis using u [of s] u [of ?t] f by (elim disjE) simp_all
qed

section \<open>Sums of words\<close>

fun words_sum :: "byte list \<Rightarrow> nat" where
  "words_sum (a # b # r) = 256 * unat a + unat b + words_sum r"
| "words_sum [a] = 256 * unat a"
| "words_sum [] = 0"

lemma byte_le: "unat (a :: byte) \<le> 255"
  using unsigned_less [of a, where 'a = nat] by simp

lemma words_sum_le: "words_sum b \<le> 32768 * length b + 32768"
proof (induction b rule: words_sum.induct)
  case (1 a b r)
  then show ?case using byte_le [of a] byte_le [of b] by simp
next
  case (2 a)
  then show ?case using byte_le [of a] by simp
qed simp

lemma unat_sum16:
  "unat s + words_sum b < 2 ^ 32 \<Longrightarrow> unat (sum16 s b) = unat s + words_sum b"
proof (induction s b rule: sum16.induct)
  case (1 s a b r)
  have "unat (s + ucast (get16 a b)) = unat s + (256 * unat a + unat b)"
    using "1.prems" byte_le [of a] byte_le [of b]
    by (simp add: unat_word_ariths unsigned_ucast_eq take_bit_nat_eq_self unat_get16)
  then show ?case using 1 by simp
next
  case (2 s a)
  have "unat (push_bit 8 (ucast a) :: 32 word) = 256 * unat a"
    using byte_le [of a] unfolding unsigned_push_bit_eq unsigned_ucast_eq by (simp add: take_bit_nat_eq_self push_bit_eq_mult)
  then show ?case using "2.prems" by (simp add: unat_word_ariths)
qed simp

lemma words_sum_append: "even (length b) \<Longrightarrow> words_sum (b @ c) = words_sum b + words_sum c"
  by (induction b rule: words_sum.induct) auto

lemma words_sum_put16 [simp]: "words_sum (put16 w) = unat w"
  using unat_get16 [of "ucast (drop_bit 8 w)" "ucast w"] by (simp add: put16_def)

text \<open>A packet of at most 65536 bytes cannot overflow the 32-bit sum.\<close>

lemma sum16_words: "length b \<le> 65536 \<Longrightarrow> unat (sum16 0 b) = words_sum b"
  using words_sum_le [of b] unat_sum16 [of 0 b] by simp

lemma unat_not16: "unat (NOT (w :: 16 word)) = 65535 - unat w"
proof -
  have "NOT w = - w - 1" by (simp add: not_eq_complement)
  also have "\<dots> = 65535 - w" by simp
  finally show ?thesis
    using unsigned_less [of w, where 'a = nat]
    by (simp add: unat_sub word_le_nat_alt)
qed

lemma unat_checksum: "unat (internet_checksum b) = 65535 - unat (fold_carries (sum16 0 b))"
  using fold_carries_le [of "sum16 0 b"]
  by (simp add: internet_checksum_def unat_not16 unsigned_ucast_eq take_bit_nat_eq_self)

lemma checksum_zero_iff:
  assumes "length b \<le> 65536"
  shows "internet_checksum b = 0 \<longleftrightarrow> 0 < words_sum b \<and> words_sum b mod 65535 = 0"
proof -
  let ?f = "unat (fold_carries (sum16 0 b))"
  have "internet_checksum b = 0 \<longleftrightarrow> ?f = 65535"
    using unat_checksum [of b] fold_carries_le [of "sum16 0 b"] by (auto simp: unat_eq_zero [symmetric])
  also have "\<dots> \<longleftrightarrow> 0 < ?f \<and> ?f mod 65535 = 0"
    using fold_carries_le [of "sum16 0 b"] by (auto elim!: dvdE simp: mod_eq_0_iff_dvd) 
  also have "\<dots> \<longleftrightarrow> 0 < words_sum b \<and> words_sum b mod 65535 = 0"
    using fold_carries_0 [of "sum16 0 b"] fold_carries_mod [of "sum16 0 b"] sum16_words [OF assms] by auto
  finally show ?thesis .
qed

text \<open>Writing the checksum of a packet with an empty checksum field into that field verifies.\<close>

lemma sealed_checksum:
  assumes e: "even (length pre)" and l: "length pre + length post \<le> 65534"
  shows "internet_checksum (pre @ put16 (internet_checksum (pre @ put16 0 @ post)) @ post) = 0"
proof -
  let ?z = "pre @ put16 0 @ post"
  let ?c = "internet_checksum ?z"
  let ?n = "words_sum pre + words_sum post"
  let ?f = "unat (fold_carries (sum16 0 ?z))"
  have w: "words_sum (pre @ put16 x @ post) = ?n + unat x" for x
    using e by (simp add: words_sum_append)
  have s: "unat (sum16 0 ?z) = ?n" using sum16_words [of ?z] w [of 0] l by simp
  then have f: "?f mod 65535 = ?n mod 65535" and le: "?f \<le> 65535" and z: "?f = 0 \<longleftrightarrow> ?n = 0"
    using fold_carries_mod [of "sum16 0 ?z"] fold_carries_le [of "sum16 0 ?z"] fold_carries_0 [of "sum16 0 ?z"]
    by simp_all
  have "(?n + (65535 - ?f)) mod 65535 = (?f + (65535 - ?f)) mod 65535"
    using f by (metis mod_add_left_eq)
  then have "(?n + unat ?c) mod 65535 = 0" using le by (simp add: unat_checksum)
  moreover have "0 < ?n + unat ?c" using z by (auto simp: unat_checksum)
  ultimately show ?thesis using l by (simp add: checksum_zero_iff w)
qed

text \<open>Changing one byte changes the sum by less than the modulus.\<close>

lemma words_sum_update:
  "i < length b \<Longrightarrow>
     int (words_sum (b[i := v])) = int (words_sum b) + (int (unat v) - int (unat (b ! i))) * (if even i then 256 else 1)"
proof (induction b arbitrary: i rule: words_sum.induct)
  case (1 a b r)
  consider "i = 0" | "i = 1" | j where "i = Suc (Suc j)" by (metis One_nat_def not0_implies_Suc)
  then show ?case
  proof cases
    case 3
    then show ?thesis using 1 by simp
  qed (simp_all add: algebra_simps)
qed (simp_all add: algebra_simps)

lemma byte_change_detected:
  assumes ok: "internet_checksum b = 0" and l: "length b \<le> 65536" and i: "i < length b" and v: "v \<noteq> b ! i"
  shows "internet_checksum (b[i := v]) \<noteq> 0"
proof
  assume bad: "internet_checksum (b[i := v]) = 0"
  define d where "d = (int (unat v) - int (unat (b ! i))) * (if even i then 256 else 1)"
  have "65535 dvd int (words_sum b)" "65535 dvd int (words_sum (b[i := v]))"
    using ok bad l by (auto simp: checksum_zero_iff dvd_eq_mod_eq_0 zmod_int)
  then have "65535 dvd d"
    using words_sum_update [OF i, of v] unfolding d_def [symmetric] by (simp add: dvd_add_right_iff)
  moreover have "d \<noteq> 0" using v by (auto simp: d_def word_uint_eq_iff)
  moreover have "\<bar>d\<bar> < 65535"
  proof -
    have "\<bar>(int x - int y) * (if even i then 256 else 1)\<bar> < 65535" if "x \<le> 255" "y \<le> 255" for x y
      using that by (cases "even i"; cases "x \<le> y") auto
    from this [OF byte_le [of v] byte_le [of "b ! i"]] show ?thesis unfolding d_def .
  qed
  ultimately show False using zdvd_not_zless [of "\<bar>d\<bar>" 65535] by simp
qed

section \<open>Addresses of a probe\<close>

definition portal_gateway :: ipv4 where
  "portal_gateway = ipv4_of 10 100 0 1"

definition canary_responder :: ipv4 where
  "canary_responder = ipv4_of 1 1 1 1"

definition secondary_responder :: ipv4 where
  "secondary_responder = ipv4_of 8 8 8 8"

text \<open>\<open>net.IPv4\<close>: the 16-byte form.\<close>

definition net_ipv4 :: "ipv4 \<Rightarrow> net_ip" where
  "net_ipv4 a = v4in6_prefix @ ipv4_bytes a"

text \<open>\<open>CanaryDestinationIP\<close>.\<close>

definition canary_destination_ip :: net_ip where
  "canary_destination_ip = net_ipv4 canary_responder"

text \<open>An address that is not IPv4 is replaced by the default of its builder.\<close>

definition ip_or :: "net_ip \<Rightarrow> ipv4 \<Rightarrow> ipv4" where
  "ip_or ip d = (case to4 ip of None \<Rightarrow> d | Some a \<Rightarrow> a)"

text \<open>
  \<open>net.IP.Mask\<close> on a 4-byte address: a 16-byte mask is accepted when its first twelve bytes
  are ones, and lengths that do not agree give the nil slice.
\<close>

definition mask_ip4 :: "net_ip \<Rightarrow> byte list \<Rightarrow> net_ip" where
  "mask_ip4 ip m =
     (let m = (if length m = 16 \<and> take 12 m = replicate 12 255 then drop 12 m else m)
      in if length m = length ip then map2 (AND) ip m else [])"

text \<open>
  \<open>CanarySourceIPFromCIDR\<close>. The argument \<open>parse\<close> is \<open>net.ParseCIDR\<close>: the address in the
  form the parser returns it and the bytes of the mask. \<open>None\<close> is the panic of reading four
  bytes from the nil slice.
\<close>

definition canary_source_ip_from_cidr :: "(string \<Rightarrow> (net_ip \<times> byte list) option) \<Rightarrow> string \<Rightarrow> net_ip option" where
  "canary_source_ip_from_cidr parse cidr0 =
     (let cidr = (if cidr0 = [] then ''10.100.0.0/16'' else cidr0)
      in case parse cidr of
           None \<Rightarrow> Some (net_ipv4 portal_gateway)
         | Some (ip, m) \<Rightarrow>
             (case to4 ip of
                None \<Rightarrow> Some (net_ipv4 portal_gateway)
              | Some a \<Rightarrow>
                  (let net = mask_ip4 (ipv4_bytes a) m
                   in if length net < 4 then None else Some (ipv4_bytes (ipv4_of_bytes net + 1)))))"

section \<open>Building packets\<close>

definition ip_header :: "16 word \<Rightarrow> 16 word \<Rightarrow> byte \<Rightarrow> 16 word \<Rightarrow> ipv4 \<Rightarrow> ipv4 \<Rightarrow> byte list" where
  "ip_header len ident proto csum src dst =
     ([0x45, 0] @ put16 len @ put16 ident @ [0x40, 0, 64, proto]) @ put16 csum
       @ ipv4_bytes src @ ipv4_bytes dst"

text \<open>The header of every canary packet: written with an empty checksum, which is then filled in.\<close>

definition sealed_header :: "16 word \<Rightarrow> 16 word \<Rightarrow> byte \<Rightarrow> ipv4 \<Rightarrow> ipv4 \<Rightarrow> byte list" where
  "sealed_header len ident proto src dst =
     ip_header len ident proto (internet_checksum (ip_header len ident proto 0 src dst)) src dst"

definition icmp_message :: "byte \<Rightarrow> 16 word \<Rightarrow> 16 word \<Rightarrow> 16 word \<Rightarrow> byte list" where
  "icmp_message ty csum ident seq = [ty, 0] @ put16 csum @ put16 ident @ put16 seq"

definition sealed_icmp :: "byte \<Rightarrow> 16 word \<Rightarrow> 16 word \<Rightarrow> byte list" where
  "sealed_icmp ty ident seq = icmp_message ty (internet_checksum (icmp_message ty 0 ident seq)) ident seq"

definition build_canary_icmp_echo_request :: "net_ip \<Rightarrow> net_ip \<Rightarrow> 16 word \<Rightarrow> 16 word \<Rightarrow> byte list" where
  "build_canary_icmp_echo_request src_ip dst_ip ident seq =
     sealed_header 28 ident 1 (ip_or src_ip portal_gateway) (ip_or dst_ip canary_responder)
       @ sealed_icmp 8 ident seq"

definition build_canary_icmp_echo_reply :: "net_ip \<Rightarrow> net_ip \<Rightarrow> 16 word \<Rightarrow> 16 word \<Rightarrow> byte list" where
  "build_canary_icmp_echo_reply src_ip dst_ip ident seq =
     sealed_header 28 ident 1 (ip_or src_ip canary_responder) (ip_or dst_ip portal_gateway)
       @ sealed_icmp 0 ident seq"

definition canary_ping_packet_for_subnet :: "(string \<Rightarrow> (net_ip \<times> byte list) option) \<Rightarrow> string \<Rightarrow> byte list option" where
  "canary_ping_packet_for_subnet parse cidr =
     map_option (\<lambda>src. build_canary_icmp_echo_request src canary_destination_ip 0x0713 1)
       (canary_source_ip_from_cidr parse cidr)"

definition udp_header :: "16 word \<Rightarrow> 16 word \<Rightarrow> 16 word \<Rightarrow> byte list" where
  "udp_header src_port dst_port len = put16 src_port @ put16 dst_port @ put16 len @ put16 0"

definition build_canary_dns_response :: "net_ip \<Rightarrow> net_ip \<Rightarrow> 16 word \<Rightarrow> 16 word option \<Rightarrow> byte list" where
  "build_canary_dns_response src_ip dst_ip dns_id dst_port =
     (let port = (case dst_port of Some p \<Rightarrow> if p \<noteq> 0 then p else 53535 | None \<Rightarrow> 53535);
          payload = put16 dns_id @ [0x81, 0x80, 0, 1, 0, 1, 0, 0, 0, 0];
          udp_len = 8 + length payload
      in sealed_header (word_of_nat (20 + udp_len)) dns_id 17
             (ip_or src_ip secondary_responder) (ip_or dst_ip portal_gateway)
         @ udp_header 53 port (word_of_nat udp_len) @ payload)"

text \<open>
  The labels of a domain. \<open>string(domain[i])\<close> converts a byte to the UTF-8 text of the code
  point with that number, which is two bytes from 128 on.
\<close>

definition rune_string :: "char \<Rightarrow> string" where
  "rune_string c =
     (let n = (of_char c :: nat)
      in if n < 128 then [c] else [char_of (192 + n div 64), char_of (128 + n mod 64)])"

fun split_domain_labels :: "string \<Rightarrow> string \<Rightarrow> string list" where
  "split_domain_labels cur [] = (if cur \<noteq> [] then [cur] else [])"
| "split_domain_labels cur (c # cs) =
     (if c = CHR ''.'' then (if cur \<noteq> [] then cur # split_domain_labels [] cs else split_domain_labels cur cs)
      else split_domain_labels (cur @ rune_string c) cs)"

definition label_bytes :: "string \<Rightarrow> byte list" where
  "label_bytes l =
     (let n = (if 63 < length l then 63 else length l)
      in word_of_nat n # map (\<lambda>c. word_of_nat (of_char c)) (take n l))"

definition dns_question :: "string \<Rightarrow> byte list" where
  "dns_question domain = concat (map label_bytes (split_domain_labels [] domain)) @ [0, 0, 1, 0, 1]"

definition build_canary_dns_query :: "net_ip \<Rightarrow> net_ip \<Rightarrow> string \<Rightarrow> 16 word \<Rightarrow> 16 word \<Rightarrow> byte list" where
  "build_canary_dns_query src_ip dst_ip domain tx_id src_port =
     (let payload = put16 tx_id @ [0x01, 0x00, 0, 1, 0, 0, 0, 0, 0, 0] @ dns_question domain;
          udp_len = 8 + length payload;
          total_len = 20 + udp_len
      in if 65535 < total_len \<or> 65535 < udp_len then []
         else sealed_header (word_of_nat total_len) tx_id 17
                (ip_or src_ip portal_gateway) (ip_or dst_ip canary_responder)
              @ udp_header (if src_port = 0 then 53535 else src_port) 53 (word_of_nat udp_len) @ payload)"

definition canary_dns_packet_for_subnet :: "(string \<Rightarrow> (net_ip \<times> byte list) option) \<Rightarrow> string \<Rightarrow> byte list option" where
  "canary_dns_packet_for_subnet parse cidr =
     map_option (\<lambda>src. build_canary_dns_query src canary_destination_ip ''canary.nexus.internal'' 0x0713 53535)
       (canary_source_ip_from_cidr parse cidr)"

section \<open>Recognising responses\<close>

text \<open>An expected address that is nil or not IPv4 is not compared.\<close>

definition ip_agrees :: "byte list \<Rightarrow> nat \<Rightarrow> net_ip \<Rightarrow> bool" where
  "ip_agrees pkt i expected =
     (case to4 expected of
        None \<Rightarrow> True
      | Some a \<Rightarrow> net_ip_equal (take 4 (drop i pkt)) (ipv4_bytes a))"

definition header_len :: "byte list \<Rightarrow> nat" where
  "header_len pkt = unat (pkt ! 0 AND 0x0f) * 4"

definition is_canary_echo_reply_matching ::
    "byte list \<Rightarrow> net_ip \<Rightarrow> net_ip \<Rightarrow> 16 word \<Rightarrow> 16 word \<Rightarrow> bool" where
  "is_canary_echo_reply_matching pkt expected_src expected_dst expected_id expected_seq =
     (if length pkt < 28 then False
      else if drop_bit 4 (pkt ! 0) \<noteq> 4 then False
      else let ihl = header_len pkt; total = unat (field16 pkt 2)
      in if ihl < 20 \<or> length pkt < ihl + 8 then False
         else if total < ihl + 8 \<or> length pkt < total then False
         else if pkt ! 9 \<noteq> 1 then False
         else if internet_checksum (take ihl pkt) \<noteq> 0 then False
         else if \<not> ip_agrees pkt 12 expected_src then False
         else if \<not> ip_agrees pkt 16 expected_dst then False
         else if pkt ! ihl \<noteq> 0 \<or> pkt ! (ihl + 1) \<noteq> 0 then False
         else if internet_checksum (drop ihl (take total pkt)) \<noteq> 0 then False
         else field16 pkt (ihl + 4) = expected_id \<and> field16 pkt (ihl + 6) = expected_seq)"

definition is_canary_echo_reply :: "byte list \<Rightarrow> 16 word \<Rightarrow> 16 word \<Rightarrow> bool" where
  "is_canary_echo_reply pkt = is_canary_echo_reply_matching pkt [] []"

definition is_canary_dns_response_matching ::
    "byte list \<Rightarrow> net_ip \<Rightarrow> net_ip \<Rightarrow> 16 word \<Rightarrow> 16 word option \<Rightarrow> bool" where
  "is_canary_dns_response_matching pkt expected_src expected_dst dns_id src_port =
     (if length pkt < 28 then False
      else if drop_bit 4 (pkt ! 0) \<noteq> 4 then False
      else let ihl = header_len pkt; total = unat (field16 pkt 2)
      in if ihl < 20 \<or> length pkt < ihl + 8 + 12 then False
         else if total < ihl + 8 + 12 \<or> length pkt < total then False
         else if pkt ! 9 \<noteq> 17 then False
         else if internet_checksum (take ihl pkt) \<noteq> 0 then False
         else if \<not> ip_agrees pkt 12 expected_src then False
         else if \<not> ip_agrees pkt 16 expected_dst then False
         else if field16 pkt ihl \<noteq> 53 then False
         else if (case src_port of
                    Some p \<Rightarrow> p \<noteq> 0 \<and> field16 pkt (ihl + 2) \<noteq> p \<and> field16 pkt (ihl + 2) \<noteq> 53535
                  | None \<Rightarrow> False) then False
         else if field16 pkt (ihl + 8) \<noteq> dns_id then False
         else field16 pkt (ihl + 10) AND 0x8000 \<noteq> 0)"

definition is_canary_dns_response :: "byte list \<Rightarrow> net_ip \<Rightarrow> net_ip \<Rightarrow> 16 word \<Rightarrow> 16 word \<Rightarrow> bool" where
  "is_canary_dns_response pkt src dst dns_id src_port =
     is_canary_dns_response_matching pkt src dst dns_id (Some src_port)"

section \<open>Probe identifiers\<close>

text \<open>
  \<open>nextCanaryIDAndSeq\<close> on the process-wide 32-bit counter: the new counter, the identifier and
  the sequence number.
\<close>

definition canary_id :: "32 word \<Rightarrow> 16 word" where
  "canary_id n = (let id = ucast ((0x0713 XOR n) AND 0xffff) in if id = 0 then 0x0713 else id)"

definition canary_seq :: "32 word \<Rightarrow> 16 word" where
  "canary_seq n = (let seq = ucast (n AND 0xffff) in if seq = 0 then 1 else seq)"

definition next_canary_id_and_seq :: "32 word \<Rightarrow> 32 word \<times> 16 word \<times> 16 word" where
  "next_canary_id_and_seq counter = (let n = counter + 1 in (n, canary_id n, canary_seq n))"

end
