(* ===== verification/Canary_Probe.thy ===== *)
theory Canary_Probe
  imports Canary_Packet
begin

text \<open>
  What the canary packets of theory \<open>Canary_Packet\<close> promise, and the probe that sends them
  (\<open>ProbePacketDevice\<close>, \<open>probeSingleICMP\<close> and \<open>probeSingleSecondary\<close> of
  \<open>src/internal/vpn/tunnel/health_canary.go\<close>).
\<close>

section \<open>The shape of a built packet\<close>

lemma length_sealed_header [simp]: "length (sealed_header l i p s d) = 20"
  by (simp add: sealed_header_def ip_header_def)

lemma sealed_header_verifies [simp]: "internet_checksum (sealed_header l i p s d) = 0"
  unfolding sealed_header_def ip_header_def by (rule sealed_checksum) auto

lemma length_sealed_icmp [simp]: "length (sealed_icmp ty i s) = 8"
  by (simp add: sealed_icmp_def icmp_message_def)

lemma sealed_icmp_verifies [simp]: "internet_checksum (sealed_icmp ty i s) = 0"
  unfolding sealed_icmp_def icmp_message_def by (rule sealed_checksum [of "[ty, 0]" "put16 i @ put16 s"]) auto

text \<open>The fields a matcher reads of a packet that starts with a built header.\<close>

lemma header_fields [simp]:
  "(sealed_header l i p s d @ r) ! 0 = 0x45"
  "(sealed_header l i p s d @ r) ! Suc 0 = 0"
  "(sealed_header l i p s d @ r) ! 9 = p"
  "field16 (sealed_header l i p s d @ r) 2 = l"
  by (simp_all add: sealed_header_def ip_header_def put16_def field16_def nth_append)

lemma header_len_built [simp]: "header_len (sealed_header l i p s d @ r) = 20"
  by (simp add: header_len_def)

lemma ipv4_bytes_inj [simp]: "ipv4_bytes a = ipv4_bytes b \<longleftrightarrow> a = b"
  by (metis ipv4_of_ipv4_bytes)

lemma header_addresses:
  "take 4 (drop 12 (sealed_header l i p s d @ r)) = ipv4_bytes s"
  "take 4 (drop 16 (sealed_header l i p s d @ r)) = ipv4_bytes d"
  by (simp_all add: sealed_header_def ip_header_def put16_def)

definition expects :: "net_ip \<Rightarrow> ipv4 \<Rightarrow> bool" where
  "expects e a \<longleftrightarrow> (case to4 e of None \<Rightarrow> True | Some x \<Rightarrow> a = x)"

lemma expects_ip_or [simp]: "expects e (ip_or e d)"
  by (simp add: expects_def ip_or_def split: option.split)

lemma ip_agrees_built [simp]:
  "ip_agrees (sealed_header l i p s d @ r) 12 e = expects e s"
  "ip_agrees (sealed_header l i p s d @ r) 16 e = expects e d"
  by (simp_all only: ip_agrees_def header_addresses expects_def)
     (simp_all add: net_ip_equal_def split: option.split)

lemma field16_after [simp]:
  "field16 (sealed_header l i p s d @ r) (20 + k) = field16 r k"
  by (simp add: field16_def nth_append)

lemma nth_after: "20 \<le> k \<Longrightarrow> (sealed_header l i p s d @ r) ! k = r ! (k - 20)"
  by (simp add: nth_append)

lemma icmp_fields:
  "sealed_icmp ty i s ! 0 = ty" "sealed_icmp ty i s ! Suc 0 = 0"
  "field16 (sealed_icmp ty i s) 4 = i" "field16 (sealed_icmp ty i s) 6 = s"
  by (simp_all add: sealed_icmp_def icmp_message_def put16_def field16_def)

text \<open>A matcher's verdict on a built echo packet of any type.\<close>

lemma match_echo:
  "is_canary_echo_reply_matching (sealed_header 28 i 1 s d @ sealed_icmp ty i q) es ed i' q'
     \<longleftrightarrow> expects es s \<and> expects ed d \<and> ty = 0 \<and> i = i' \<and> q = q'"
proof -
  let ?p = "sealed_header 28 i 1 s d @ sealed_icmp ty i q"
  have f: "field16 ?p (20 + 4) = i" "field16 ?p (20 + 6) = q"
    by (simp_all only: field16_after icmp_fields)
  have t: "?p ! 20 = ty" "?p ! (20 + 1) = 0" by (simp_all add: nth_after icmp_fields)
  show ?thesis
    unfolding is_canary_echo_reply_matching_def Let_def header_len_built header_fields ip_agrees_built f t
    by simp
qed

text \<open>A changed byte of a built echo reply is noticed, wherever it is.\<close>

lemma corrupt_header:
  assumes i: "i < 20" "i \<noteq> 0" and v: "v \<noteq> sealed_header l n p s d ! i"
  shows "\<not> is_canary_echo_reply_matching ((sealed_header l n p s d)[i := v] @ r) es ed n' q'"
proof -
  let ?h = "(sealed_header l n p s d)[i := v]"
  have "(?h @ r) ! 0 = (sealed_header l n p s d @ r) ! 0" using i by (simp add: nth_append)
  then have "header_len (?h @ r) = 20" by (simp add: header_len_def)
  moreover have "internet_checksum (take 20 (?h @ r)) \<noteq> 0"
    using byte_change_detected [of "sealed_header l n p s d" i v] i v by simp
  ultimately show ?thesis by (simp add: is_canary_echo_reply_matching_def Let_def)
qed

lemma corrupt_message:
  assumes i: "i < 8" and v: "v \<noteq> sealed_icmp ty n q ! i"
  shows "\<not> is_canary_echo_reply_matching (sealed_header 28 n 1 s d @ (sealed_icmp ty n q)[i := v]) es ed n' q'"
proof -
  let ?m = "(sealed_icmp ty n q)[i := v]"
  have "internet_checksum (drop 20 (take 28 (sealed_header 28 n 1 s d @ ?m))) \<noteq> 0"
    using byte_change_detected [of "sealed_icmp ty n q" i v] i v by simp
  then show ?thesis by (simp add: is_canary_echo_reply_matching_def Let_def)
qed

text \<open>The first byte carries the version and the header length, which are checked on their own.\<close>

lemma corrupt_first:
  assumes v: "v \<noteq> 0x45" and l: "length r = 27"
  shows "\<not> is_canary_echo_reply_matching (v # r) es ed n q"
proof (cases "drop_bit 4 v = 4 \<and> 20 \<le> header_len (v # r) \<and> header_len (v # r) \<le> 20")
  case True
  then have "v AND 0x0f = 5" and "drop_bit 4 v = 4"
    by (auto simp: header_len_def word_unat_eq_iff)
  moreover have "v = push_bit 4 (drop_bit 4 v) OR (v AND mask 4)"
    by (rule bit_word_eqI) (auto simp: bit_simps)
  then have "v = push_bit 4 (drop_bit 4 v) OR (v AND 0x0f)" by (simp add: mask_eq_exp_minus_1)
  ultimately have "v = 0x45" by simp
  with v show ?thesis ..
next
  case False
  have "header_len (v # r) \<le> 20 \<or> 24 \<le> header_len (v # r)" by (auto simp: header_len_def)
  then have "drop_bit 4 v \<noteq> 4 \<or> header_len (v # r) < 20 \<or> 24 \<le> header_len (v # r)"
    using False by auto
  then show ?thesis using l by (auto simp: is_canary_echo_reply_matching_def Let_def)
qed

lemma corrupt_anywhere:
  assumes i: "i < 28" and v: "v \<noteq> p ! i" and p: "p = sealed_header 28 n 1 s d @ sealed_icmp ty n q"
  shows "\<not> is_canary_echo_reply_matching (p[i := v]) es ed n' q'"
proof -
  consider "i = 0" | "i \<noteq> 0" "i < 20" | "20 \<le> i" by linarith
  then show ?thesis
  proof cases
    case 1
    have "p ! 0 = 0x45" "length p = 28" by (simp_all add: p)
    then show ?thesis using corrupt_first [of v "tl p"] v 1 by (cases p) simp_all
  next
    case 2
    then show ?thesis using corrupt_header [of i v] v by (simp add: p list_update_append nth_append)
  next
    case 3
    then show ?thesis using corrupt_message [of "i - 20" v] v i by (simp add: p list_update_append nth_append)
  qed
qed

section \<open>DNS packets\<close>

lemma udp_fields:
  "field16 (udp_header sp dp l @ r) 0 = sp" "field16 (udp_header sp dp l @ r) 2 = dp"
  "field16 (udp_header sp dp l @ put16 x @ r) 8 = x"
  "field16 (udp_header sp dp l @ put16 x @ f # g # r) 10 = get16 f g"
  by (simp_all add: udp_header_def put16_def field16_def)

text \<open>The verdict on a built DNS packet of any content that is long enough to be one.\<close>

lemma match_dns:
  assumes l: "length r \<le> 60000"
    and p_def: "p = sealed_header (word_of_nat (40 + length r)) i 17 s d
                 @ udp_header sp dp ul @ put16 x @ f # g # u # w # y # z # a # b # c # e # r"
  shows "is_canary_dns_response_matching p es ed n port
     \<longleftrightarrow> expects es s \<and> expects ed d \<and> sp = 53
         \<and> (\<forall>q. port = Some q \<longrightarrow> q = 0 \<or> dp = q \<or> dp = 53535) \<and> x = n \<and> get16 f g AND 0x8000 \<noteq> 0"
proof -
  have fs: "field16 p (20 + 0) = sp" "field16 p (20 + 2) = dp" "field16 p (20 + 8) = x"
    "field16 p (20 + 10) = get16 f g"
    unfolding p_def by (simp_all only: field16_after udp_fields)
  have t: "unat (field16 p 2) = 40 + length r"
    using l
    unfolding p_def header_fields unsigned_of_nat by (simp add: take_bit_nat_eq_self)
  have h: "header_len p = 20" "p ! 0 = 0x45" "p ! 9 = 17" "length p = 40 + length r"
    "internet_checksum (take 20 p) = 0" "ip_agrees p 12 es = expects es s" "ip_agrees p 16 ed = expects ed d"
    by (simp_all add: p_def udp_header_def)
  show ?thesis
    unfolding is_canary_dns_response_matching_def Let_def h t using fs
    by (auto split: option.split)
qed

lemma dns_response_parts:
  "build_canary_dns_response src dst n port =
     sealed_header (word_of_nat (40 + length ([] :: byte list))) n 17 (ip_or src secondary_responder) (ip_or dst portal_gateway)
       @ udp_header 53 (case port of Some p \<Rightarrow> if p \<noteq> 0 then p else 53535 | None \<Rightarrow> 53535) 20
       @ put16 n @ 0x81 # 0x80 # 0 # 1 # 0 # 1 # 0 # 0 # 0 # 0 # []"
  by (simp add: build_canary_dns_response_def Let_def)

lemma dns_query_parts:
  assumes "length (dns_question domain) \<le> 60000"
  shows "build_canary_dns_query src dst domain n port =
     sealed_header (word_of_nat (40 + length (dns_question domain))) n 17 (ip_or src portal_gateway) (ip_or dst canary_responder)
       @ udp_header (if port = 0 then 53535 else port) 53 (word_of_nat (20 + length (dns_question domain)))
       @ put16 n @ 1 # 0 # 0 # 1 # 0 # 0 # 0 # 0 # 0 # 0 # dns_question domain"
  using assms by (simp add: build_canary_dns_query_def Let_def)

lemma dns_response_accepted:
  "is_canary_dns_response (build_canary_dns_response src dst n (Some port)) src dst n' port' \<longleftrightarrow>
     n = n' \<and> (port' = 0 \<or> port = 0 \<or> port = port' \<or> port = 53535)"
  unfolding is_canary_dns_response_def match_dns [OF _ dns_response_parts, simplified]
  by (auto simp: get16_def)

lemma dns_query_is_no_response:
  assumes "length (dns_question domain) \<le> 60000"
  shows "\<not> is_canary_dns_response (build_canary_dns_query src dst domain n port) es ed n' port'"
  unfolding is_canary_dns_response_def match_dns [OF assms dns_query_parts [OF assms]]
  by (simp add: get16_def)

section \<open>Labels\<close>

text \<open>What a resolver reads of a question: labels up to the root label.\<close>

fun read_labels :: "nat \<Rightarrow> byte list \<Rightarrow> string list option" where
  "read_labels 0 _ = None"
| "read_labels (Suc fuel) [] = None"
| "read_labels (Suc fuel) (n # r) =
     (if n = 0 then Some []
      else if length r < unat n then None
      else map_option (\<lambda>ls. map (\<lambda>b. char_of (unat b)) (take (unat n) r) # ls) (read_labels fuel (drop (unat n) r)))"

lemma ascii_rune: "(of_char c :: nat) < 128 \<Longrightarrow> rune_string c = [c]"
  by (simp add: rune_string_def)

lemma split_labels_ascii:
  assumes "\<forall>c \<in> set d. (of_char c :: nat) < 128"
  shows "split_domain_labels cur d =
    filter (\<lambda>l. l \<noteq> []) ((cur @ hd (split_on CHR ''.'' d)) # tl (split_on CHR ''.'' d))"
  using assms
proof (induction d arbitrary: cur)
  case (Cons c cs)
  obtain p ps where s: "split_on CHR ''.'' cs = p # ps" by (cases "split_on CHR ''.'' cs") auto
  show ?case using Cons by (auto simp: s ascii_rune)
qed simp

lemma labels_of_ascii:
  assumes "\<forall>c \<in> set d. (of_char c :: nat) < 128"
  shows "split_domain_labels [] d = filter (\<lambda>l. l \<noteq> []) (split_on CHR ''.'' d)"
  using split_labels_ascii [OF assms, of "[]"] by (cases "split_on CHR ''.'' d") auto

lemma read_label:
  assumes "l \<noteq> []" "length l \<le> 63"
  shows "read_labels (Suc fuel) (label_bytes l @ r) = map_option ((#) l) (read_labels fuel r)"
proof -
  have u: "unat (word_of_nat (length l) :: byte) = length l"
    unfolding unsigned_of_nat using assms by (simp add: take_bit_nat_eq_self)
  then have "(word_of_nat (length l) :: byte) \<noteq> 0" using assms by (metis length_0_conv unsigned_0)
  moreover have "map ((\<lambda>b. char_of (unat b)) \<circ> (\<lambda>c. word_of_nat (of_char c) :: byte)) l = l"
    by (rule map_idI) (simp add: unsigned_of_nat take_bit_eq_mod)
  ultimately show ?thesis
    using assms u by (simp add: label_bytes_def Let_def comp_def cong: option.map_cong)
qed

lemma read_all_labels:
  assumes "\<forall>l \<in> set ls. l \<noteq> [] \<and> length l \<le> 63" "length ls < fuel"
  shows "read_labels fuel (concat (map label_bytes ls) @ 0 # r) = Some ls"
  using assms
proof (induction ls arbitrary: fuel)
  case Nil
  then show ?case by (cases fuel) auto
next
  case (Cons l ls)
  then obtain f where f: "fuel = Suc f" by (cases fuel) auto
  show ?case using Cons read_label [of l f] by (simp add: f)
qed

section \<open>Probe identifiers\<close>

lemma low16: "(ucast ((n :: 32 word) AND 0xffff) :: 16 word) = ucast n"
proof -
  have "(ucast (n AND mask 16) :: 16 word) = ucast n"
    by (rule bit_word_eqI) (auto simp: bit_simps)
  then show ?thesis by (simp add: mask_eq_exp_minus_1)
qed

lemma ucast_xor16: "(ucast ((a :: 32 word) XOR b) :: 16 word) = ucast a XOR ucast b"
  by (rule bit_word_eqI) (auto simp: bit_simps)

lemma canary_id_alt: "canary_id n = (let x = 0x0713 XOR ucast n in if x = 0 then 0x0713 else x)"
  by (simp only: canary_id_def low16 ucast_xor16) simp

lemma canary_seq_alt: "canary_seq n = (if ucast n = (0 :: 16 word) then 1 else ucast n)"
  by (simp only: canary_seq_def low16 Let_def)

text \<open>Two probes carry the same pair exactly when their numbers agree in the low 16 bits.\<close>

lemma xor_cancel: "(a :: 16 word) XOR b = a XOR c \<longleftrightarrow> b = c"
  by (metis bit.xor_left_self)

lemma pair_pattern:
  fixes a b :: "16 word"
  assumes "(if 0x0713 XOR a = 0 then 0x0713 else 0x0713 XOR a) = (if 0x0713 XOR b = 0 then 0x0713 else 0x0713 XOR b)"
    and "(if a = 0 then 1 else a) = (if b = 0 then 1 else b)"
  shows "a = b"
proof (cases "a = 0 \<or> b = 0")
  case True
  then show ?thesis using assms by (auto split: if_splits)
next
  case False
  then show ?thesis using assms(2) by simp
qed

lemma canary_pair_inj:
  "canary_id n = canary_id m \<and> canary_seq n = canary_seq m \<longleftrightarrow> (ucast n :: 16 word) = ucast m"
  unfolding canary_id_alt canary_seq_alt Let_def using pair_pattern [of "ucast n" "ucast m"] by auto

section \<open>The probe\<close>

text \<open>
  How a device answers canaries: a device with its own probe (\<open>CanaryDevice\<close>, with the verdict
  it gives), one whose return path hands packets to the hook (\<open>CanaryResponseDemuxer\<close>), one with
  an outbound channel, any other, or none. What the device does in one window is the result of
  the write, the packets its return path hands to the hook before the deadline, and the first
  receipt from the channel: \<open>None\<close> when the deadline comes first, \<open>Some None\<close> when the channel
  is closed.
\<close>

datatype device = No_Device | Own_Probe "int \<Rightarrow> string option" | Demuxed | Channelled | Plain

record window =
  write_fails :: bool
  arrivals :: "byte list list"
  receipt :: "byte list option option"

datatype canary_error =
  Device_Nil | Own_Error string | Write_Failed | Timed_Out | Channel_Closed | Empty_Packet
| No_Demux | Context_Over | Cidr_Panic | Both_Failed canary_error canary_error

type_synonym verdict = "canary_error + unit"

definition await_hook :: "(byte list \<Rightarrow> bool) \<Rightarrow> window \<Rightarrow> verdict" where
  "await_hook hook w = (if list_ex hook (arrivals w) then Inr () else Inl Timed_Out)"

definition await_channel :: "window \<Rightarrow> verdict" where
  "await_channel w =
     (case receipt w of
        None \<Rightarrow> Inl Timed_Out
      | Some None \<Rightarrow> Inl Channel_Closed
      | Some (Some pkt) \<Rightarrow> if pkt = [] then Inl Empty_Packet else Inr ())"

text \<open>Each probe returns the packets it wrote and its verdict.\<close>

definition probe_single_icmp :: "device \<Rightarrow> window \<Rightarrow> net_ip \<Rightarrow> net_ip \<Rightarrow> 16 word \<Rightarrow> 16 word \<Rightarrow> byte list list \<times> verdict" where
  "probe_single_icmp dev w src dst ident seq =
     (let pkt = build_canary_icmp_echo_request src dst ident seq
      in case dev of
           Demuxed \<Rightarrow>
             if write_fails w then ([], Inl Write_Failed)
             else ([pkt], await_hook (\<lambda>p. is_canary_echo_reply_matching p dst src ident seq) w)
         | Channelled \<Rightarrow>
             if write_fails w then ([], Inl Write_Failed) else ([pkt], await_channel w)
         | _ \<Rightarrow> ([], Inl No_Demux))"

definition probe_single_secondary ::
    "device \<Rightarrow> window \<Rightarrow> net_ip \<Rightarrow> net_ip \<Rightarrow> 16 word \<Rightarrow> 16 word \<Rightarrow> 16 word \<Rightarrow> 16 word \<Rightarrow> byte list list \<times> verdict" where
  "probe_single_secondary dev w src dst ident seq dns_id dns_port =
     (let icmp = build_canary_icmp_echo_request src dst ident seq;
          dns = build_canary_dns_query src dst ''canary.nexus.internal'' dns_id dns_port
      in case dev of
           Demuxed \<Rightarrow>
             if write_fails w then ([], Inl Write_Failed)
             else (icmp # (if 0 < length dns then [dns] else []),
                   await_hook (\<lambda>p. is_canary_echo_reply_matching p dst src ident seq
                                   \<or> is_canary_dns_response p dst src dns_id dns_port) w)
         | Channelled \<Rightarrow>
             if write_fails w then ([], Inl Write_Failed) else ([icmp], await_channel w)
         | _ \<Rightarrow> ([], Inl No_Demux))"

text \<open>The two windows: half of the timeout but at most 1.5 seconds, and the rest.\<close>

definition split_timeout :: "int \<Rightarrow> int \<times> int" where
  "split_timeout timeout0 =
     (let timeout = (if timeout0 \<le> 0 then 3 * 10 ^ 9 else timeout0);
          primary = (if 1500 * 10 ^ 6 < timeout div 2 then 1500 * 10 ^ 6 else timeout div 2)
      in (primary, timeout - primary))"

definition secondary_port :: "16 word \<Rightarrow> 16 word" where
  "secondary_port seq = 1024 + ucast ((ucast seq :: 32 word) mod 60000)"

text \<open>
  \<open>ProbePacketDevice\<close>: the new probe counter, the packets written and the verdict. \<open>w1\<close> and
  \<open>w2\<close> say what happens in a window of the given length, \<open>over\<close> whether the caller's context
  has ended after the first.
\<close>

definition probe_packet_device ::
    "(string \<Rightarrow> (net_ip \<times> byte list) option) \<Rightarrow> device \<Rightarrow> int \<Rightarrow> string \<Rightarrow> 32 word
       \<Rightarrow> (int \<Rightarrow> window) \<Rightarrow> bool \<Rightarrow> (int \<Rightarrow> window) \<Rightarrow> 32 word \<times> byte list list \<times> verdict" where
  "probe_packet_device parse dev timeout cidr counter w1 over w2 =
     (case dev of
        No_Device \<Rightarrow> (counter, [], Inl Device_Nil)
      | Own_Probe f \<Rightarrow> (counter, [], case f timeout of None \<Rightarrow> Inr () | Some e \<Rightarrow> Inl (Own_Error e))
      | _ \<Rightarrow>
         (case canary_source_ip_from_cidr parse cidr of
            None \<Rightarrow> (counter, [], Inl Cidr_Panic)
          | Some src \<Rightarrow>
             (let (t1, t2) = split_timeout timeout;
                  (c1, ident, seq) = next_canary_id_and_seq counter;
                  (sent1, r1) = probe_single_icmp dev (w1 t1) src canary_destination_ip ident seq
              in case r1 of
                   Inr _ \<Rightarrow> (c1, sent1, Inr ())
                 | Inl e1 \<Rightarrow>
                     if over then (c1, sent1, Inl Context_Over)
                     else
                       (let (c2, ident2, seq2) = next_canary_id_and_seq c1;
                            (sent2, r2) = probe_single_secondary dev (w2 t2) src (net_ipv4 secondary_responder)
                                            ident2 seq2 ident2 (secondary_port seq2)
                        in (c2, sent1 @ sent2,
                            case r2 of Inr _ \<Rightarrow> Inr () | Inl e2 \<Rightarrow> Inl (Both_Failed e1 e2))))))"

section \<open>Properties of the canary\<close>

text \<open>C26: The carry loop of the Internet checksum, which no counter bounds, ends for every packet
  after at most two rounds with a sum that fits 16 bits, and the checksum is its complement.\<close>

theorem checksum_loop_ends:
  "\<exists>r. while_option (\<lambda>s. 0xffff < s) carry_step (sum16 0 pkt) = Some r
     \<and> r \<le> 0xffff \<and> internet_checksum pkt = NOT (ucast r)
     \<and> r \<in> {sum16 0 pkt, carry_step (sum16 0 pkt), carry_step (carry_step (sum16 0 pkt))}"
proof -
  let ?r = "fold_carries (sum16 0 pkt)"
  have "?r \<le> 0xffff" using fold_carries_le [of "sum16 0 pkt"] by (simp add: word_le_nat_alt)
  moreover have "?r \<in> {sum16 0 pkt, carry_step (sum16 0 pkt), carry_step (carry_step (sum16 0 pkt))}"
    using two_rounds [of "sum16 0 pkt"] by (simp add: numeral_2_eq_2) blast
  ultimately show ?thesis
    by (intro exI [of _ ?r]) (simp add: carries_loop internet_checksum_def)
qed

lemma reply_verdict:
  "is_canary_echo_reply_matching (build_canary_icmp_echo_reply src dst i q) src dst i' q' \<longleftrightarrow> i = i' \<and> q = q'"
  by (simp add: build_canary_icmp_echo_reply_def match_echo)

lemma request_is_no_reply:
  "\<not> is_canary_echo_reply_matching (build_canary_icmp_echo_request src dst i q) es ed i' q'"
  by (simp add: build_canary_icmp_echo_request_def match_echo)

text \<open>C23: The reply to probe number n is taken by the listener of probe number m, with the same
  end points, exactly when n and m agree in their low 16 bits; in particular by its own listener
  and by none of the 65535 probes around it. The echoed request itself is never taken, whatever
  the listener waits for.\<close>

theorem reply_answers_one_probe:
  "(is_canary_echo_reply_matching (build_canary_icmp_echo_reply src dst (canary_id n) (canary_seq n))
      src dst (canary_id m) (canary_seq m) \<longleftrightarrow> (ucast n :: 16 word) = ucast m)
   \<and> \<not> is_canary_echo_reply_matching (build_canary_icmp_echo_request dst src (canary_id n) (canary_seq n))
      es ed i q"
  by (simp add: reply_verdict request_is_no_reply canary_pair_inj)

text \<open>C25: A reply of which any one of its 28 bytes has been changed is refused by every listener,
  whatever addresses, identifier and sequence number the listener expects.\<close>

theorem corrupted_reply_refused:
  assumes "i < 28" and "v \<noteq> build_canary_icmp_echo_reply src dst ident seq ! i"
  shows "\<not> is_canary_echo_reply_matching ((build_canary_icmp_echo_reply src dst ident seq)[i := v]) es ed ident' seq'"
  using corrupt_anywhere [OF assms] by (simp add: build_canary_icmp_echo_reply_def)

theorem corrupted_reply_refused_witness:
  "\<not> is_canary_echo_reply_matching
       ((build_canary_icmp_echo_reply canary_destination_ip (net_ipv4 portal_gateway) 7 9)[20 := 8]) [] [] 7 9"
proof (rule corrupted_reply_refused)
  show "(8 :: byte) \<noteq> build_canary_icmp_echo_reply canary_destination_ip (net_ipv4 portal_gateway) 7 9 ! 20"
    by (simp add: build_canary_icmp_echo_reply_def nth_after icmp_fields)
qed simp

text \<open>A resolver that reads the question of a canary query gets back the non-empty labels of
  the domain, when the domain is ASCII and its labels have at most 63 bytes.\<close>

theorem query_names_domain:
  assumes "\<forall>c \<in> set d. (of_char c :: nat) < 128"
    and "\<forall>l \<in> set (split_on CHR ''.'' d). length l \<le> 63"
    and "length (split_on CHR ''.'' d) < fuel"
  shows "read_labels fuel (dns_question d) = Some (filter (\<lambda>l. l \<noteq> []) (split_on CHR ''.'' d))"
  unfolding dns_question_def labels_of_ascii [OF assms(1)]
  using assms(2) le_less_trans [OF length_filter_le assms(3)] by (intro read_all_labels) auto

theorem query_names_domain_witness:
  "read_labels 5 (dns_question ''canary.nexus.internal'') = Some [''canary'', ''nexus'', ''internal'']"
  using query_names_domain [of "''canary.nexus.internal''" 5] by simp

text \<open>A byte from 128 on becomes two: the label is not that of the domain.\<close>

lemma non_ascii_label_doubled: "split_domain_labels [] [CHR 0xE9] = [[CHR 0xC3, CHR 0xA9]]"
  by code_simp

text \<open>The parser of IPv4 strings, as \<open>net.ParseCIDR\<close> returns them: a 16-byte address and a
  4-byte mask.\<close>

definition go_parse_cidr :: "string \<Rightarrow> (net_ip \<times> byte list) option" where
  "go_parse_cidr s = map_option (\<lambda>(a, n). (net_ipv4 a, ipv4_bytes (netmask n))) (parse_cidr4 s)"

lemma word_of_octet: "(word_of_nat (octet i a) :: byte) = ucast (drop_bit (8 * i) a)"
  unfolding octet_def
  by (rule word_unat_eq_iff [THEN iffD2])
     (simp add: unsigned_of_nat unsigned_ucast_eq take_bit_eq_mod)

lemma bytes_and: "map2 (AND) (ipv4_bytes a) (ipv4_bytes b) = ipv4_bytes (a AND b)"
  unfolding ipv4_bytes_def word_of_octet by (auto intro!: bit_word_eqI simp: bit_simps)

lemma canary_source_in_subnet:
  assumes "n \<le> 32"
  shows "canary_source_ip_from_cidr go_parse_cidr (ip_string a @ ''/'' @ dec n) = Some (ipv4_bytes ((a AND netmask n) + 1))"
  unfolding canary_source_ip_from_cidr_def go_parse_cidr_def
  by (simp add: parse_cidr4_print [OF assms, simplified] net_ipv4_def mask_ip4_def bytes_and)

text \<open>A mask of an IPv4-mapped IPv6 network that is shorter than 96 bits is not applicable.\<close>

lemma mapped_cidr_panics:
  "canary_source_ip_from_cidr (\<lambda>_. Some (net_ipv4 a, replicate 8 255 @ replicate 8 0)) s = None"
proof -
  have "take 12 (replicate 8 255 @ replicate 8 0) \<noteq> (replicate 12 255 :: byte list)"
    by (auto dest!: arg_cong [where f = "\<lambda>l. l ! 11"] simp: nth_append)
  then show ?thesis
    by (simp add: canary_source_ip_from_cidr_def net_ipv4_def mask_ip4_def Let_def)
qed

lemma to4_destination [simp]: "to4 canary_destination_ip = Some canary_responder"
  by (simp add: canary_destination_ip_def net_ipv4_def)

lemma reply_to_own_probe:
  "list_ex (\<lambda>p. is_canary_echo_reply_matching p dst src (canary_id n) (canary_seq n))
     (map (\<lambda>m. build_canary_icmp_echo_reply dst src (canary_id m) (canary_seq m)) ms)
   \<longleftrightarrow> (\<exists>m \<in> set ms. (ucast m :: 16 word) = ucast n)"
  using canary_pair_inj by (auto simp: list_ex_iff reply_verdict)



end
