(* ===== verification/Rule_Parser.thy ===== *)
theory Rule_Parser
  imports Snapshot
begin

text \<open>
  The parser of rule lists: \<open>ParseIPv4Rule\<close> (\<open>internal/policy/ipv4.go\<close>), \<open>ParseDomainRule\<close>
  (\<open>internal/policy/domain.go\<close>) and the line loop \<open>Parse\<close> with its accounting and its limits
  (\<open>internal/policy/parse.go\<close>). The address parsers of \<open>net/netip\<close> and the line scanner of
  \<open>bufio\<close> are standard library and are written out as the code uses them.
\<close>

section \<open>\<open>netip.ParseAddr\<close> and \<open>netip.ParsePrefix\<close>\<close>

definition hex_digit :: "char \<Rightarrow> nat option" where
  "hex_digit c =
     (let n = (of_char c :: nat)
      in if 48 \<le> n \<and> n \<le> 57 then Some (n - 48)
         else if 97 \<le> n \<and> n \<le> 102 then Some (n - 87)
         else if 65 \<le> n \<and> n \<le> 70 then Some (n - 55)
         else None)"

definition hex_value :: "string \<Rightarrow> nat" where
  "hex_value s = foldl (\<lambda>a c. 16 * a + (case hex_digit c of Some d \<Rightarrow> d | None \<Rightarrow> 0)) 0 s"

definition is_hex :: "char \<Rightarrow> bool" where
  "is_hex c \<longleftrightarrow> hex_digit c \<noteq> None"

text \<open>
  The fields of an IPv6 address: the room left, the 16-bit groups read, the group before which
  \<open>::\<close> stood, and the rest of the text. A trailing dotted IPv4 address fills two groups.
\<close>

fun ip6_fields :: "nat \<Rightarrow> 16 word list \<Rightarrow> nat option \<Rightarrow> string \<Rightarrow> (16 word list \<times> nat option \<times> string) option" where
  "ip6_fields 0 gs ell s = Some (gs, ell, s)"
| "ip6_fields (Suc room) gs ell s =
     (let ds = takeWhile is_hex s; r = dropWhile is_hex s; gs' = gs @ [word_of_nat (hex_value ds)]
      in if ds = [] \<or> 4 < length ds then None
         else case r of
           [] \<Rightarrow> Some (gs', ell, [])
         | c # t \<Rightarrow>
             if c = CHR ''.'' then
               (if (ell = None \<and> length gs \<noteq> 6) \<or> 8 < length gs + 2 then None
                else map_option (\<lambda>a. (gs @ [ucast (drop_bit 16 a), ucast a], ell, [])) (parse_ipv4 s))
             else if c \<noteq> CHR '':'' \<or> t = [] then None
             else if hd t = CHR '':'' then
               (if ell \<noteq> None then None
                else if tl t = [] then Some (gs', Some (length gs'), [])
                else ip6_fields room gs' (Some (length gs')) (tl t))
             else ip6_fields room gs' ell t)"

definition ip6_groups :: "16 word list \<times> nat option \<times> string \<Rightarrow> 16 word list option" where
  "ip6_groups r =
     (case r of (gs, ell, rest) \<Rightarrow>
        if rest \<noteq> [] then None
        else if length gs < 8 then
          map_option (\<lambda>k. take k gs @ replicate (8 - length gs) 0 @ drop k gs) ell
        else if ell \<noteq> None then None else Some gs)"

definition groups_word :: "16 word list \<Rightarrow> 128 word" where
  "groups_word gs = foldl (\<lambda>w g. push_bit 16 w OR ucast g) 0 gs"

definition parse_ipv6 :: "string \<Rightarrow> addr option" where
  "parse_ipv6 s0 =
     (let s = takeWhile (\<lambda>c. c \<noteq> CHR ''%'') s0; z = dropWhile (\<lambda>c. c \<noteq> CHR ''%'') s0
      in if z \<noteq> [] \<and> tl z = [] then None
         else if s = ''::'' then Some (Addr6 0 (tl z))
         else map_option (\<lambda>gs. Addr6 (groups_word gs) (tl z))
                (Option.bind
                   (if take 2 s = ''::'' then ip6_fields 8 [] (Some 0) (drop 2 s) else ip6_fields 8 [] None s)
                   ip6_groups))"

definition parse_addr :: "string \<Rightarrow> addr option" where
  "parse_addr s =
     (case dropWhile (\<lambda>c. c \<noteq> CHR ''.'' \<and> c \<noteq> CHR '':'' \<and> c \<noteq> CHR ''%'') s of
        [] \<Rightarrow> None
      | c # _ \<Rightarrow> if c = CHR ''.'' then map_option Addr4 (parse_ipv4 s)
                 else if c = CHR '':'' then parse_ipv6 s
                 else None)"

text \<open>The address and the length of a prefix, split at the last slash.\<close>

definition after_slash :: "string \<Rightarrow> string" where
  "after_slash s = rev (takeWhile (\<lambda>c. c \<noteq> CHR ''/'') (rev s))"

definition parse_bits :: "string \<Rightarrow> nat option" where
  "parse_bits b =
     (if b \<noteq> [] \<and> (1 < length b \<longrightarrow> hd b \<noteq> CHR ''0'') \<and> (\<forall>c \<in> set b. is_digit c) then Some (undec b) else None)"

definition addr_bits :: "addr \<Rightarrow> nat" where
  "addr_bits a = (case a of Addr6 _ _ \<Rightarrow> 128 | _ \<Rightarrow> 32)"

definition has_zone :: "addr \<Rightarrow> bool" where
  "has_zone a = (case a of Addr6 _ z \<Rightarrow> z \<noteq> [] | _ \<Rightarrow> False)"

definition parse_prefix :: "string \<Rightarrow> (addr \<times> nat) option" where
  "parse_prefix s =
     (if CHR ''/'' \<notin> set s then None
      else let b = after_slash s
           in case parse_addr (take (length s - length b - 1) s) of
                None \<Rightarrow> None
              | Some a \<Rightarrow>
                  if has_zone a then None
                  else case parse_bits b of
                         None \<Rightarrow> None
                       | Some n \<Rightarrow> if addr_bits a < n then None else Some (a, n))"

text \<open>\<open>netip.PrefixFrom(a, n).Masked()\<close> on an IPv4 address: the zero prefix for an impossible length.\<close>

definition masked_prefix_from :: "addr \<Rightarrow> nat \<Rightarrow> prefix" where
  "masked_prefix_from a n = (if addr_bits a < n then Prefix NoAddr 0 else masked (Prefix a n))"

section \<open>Single rules\<close>

datatype rule_error =
    Empty_IPv4_Rule | Invalid_Prefix | IPv6_Prefix | Invalid_Address | IPv6_Address
  | Empty_Domain_Rule | IPv6_Literal | Invalid_Wildcard | Inner_Star | Invalid_Suffix
  | Domain_Error domain_error

definition parse_ipv4_rule :: "string \<Rightarrow> rule_error + prefix" where
  "parse_ipv4_rule raw0 =
     (let raw = trim_space raw0
      in if raw = [] then Inl Empty_IPv4_Rule
         else if CHR ''/'' \<in> set raw then
           (case parse_prefix raw of
              None \<Rightarrow> Inl Invalid_Prefix
            | Some (p, n) \<Rightarrow> (let a = unmap p in if \<not> is4 a then Inl IPv6_Prefix else Inr (masked_prefix_from a n)))
         else
           (case parse_addr raw of
              None \<Rightarrow> Inl Invalid_Address
            | Some x \<Rightarrow> (let a = unmap x in if \<not> is4 a then Inl IPv6_Address else Inr (Prefix a 32))))"

type_synonym domain_mode = "8 word"

definition domain_mode_exact :: domain_mode where "domain_mode_exact = 1"
definition domain_mode_inclusive_suffix :: domain_mode where "domain_mode_inclusive_suffix = 2"

text \<open>The three kinds of results of \<open>ParseDomainRule\<close>: an IPv4 literal, a domain with its flag, an error.\<close>

datatype domain_rule = IP_Rule addr | Domain_Rule string domain_flags

definition starts_with :: "string \<Rightarrow> string \<Rightarrow> bool" where
  "starts_with p s \<longleftrightarrow> take (length p) s = p"

text \<open>What both prefixed forms do with the text after their prefix.\<close>

definition prefixed_rule :: "(string \<Rightarrow> string option) \<Rightarrow> rule_error \<Rightarrow> domain_flags \<Rightarrow> string \<Rightarrow> rule_error + domain_rule" where
  "prefixed_rule idn bad flags base_raw =
     (if base_raw = [] \<or> starts_with ''*'' base_raw \<or> starts_with ''.'' base_raw then Inl bad
      else if CHR ''*'' \<in> set base_raw then Inl Inner_Star
      else case normalize_domain idn base_raw of
             Inl e \<Rightarrow> Inl (Domain_Error e)
           | Inr norm \<Rightarrow> Inr (Domain_Rule norm flags))"

definition parse_domain_rule :: "(string \<Rightarrow> string option) \<Rightarrow> string \<Rightarrow> domain_mode \<Rightarrow> rule_error + domain_rule" where
  "parse_domain_rule idn raw0 default_mode =
     (let raw = trim_space raw0
      in if raw = [] then Inl Empty_Domain_Rule
         else case parse_addr raw of
           Some x \<Rightarrow> (let a = unmap x in if is4 a then Inr (IP_Rule a) else Inl IPv6_Literal)
         | None \<Rightarrow>
             if starts_with ''*.'' raw then prefixed_rule idn Invalid_Wildcard domain_descendants (drop 2 raw)
             else if starts_with ''.'' raw then prefixed_rule idn Invalid_Suffix domain_inclusive_suffix (drop 1 raw)
             else if CHR ''*'' \<in> set raw then Inl Inner_Star
             else case normalize_domain idn raw of
                    Inl e \<Rightarrow> Inl (Domain_Error e)
                  | Inr norm \<Rightarrow>
                      Inr (Domain_Rule norm
                        (if default_mode = domain_mode_inclusive_suffix then domain_inclusive_suffix else domain_exact)))"

section \<open>Sources, limits and reports\<close>

type_synonym format = "8 word"

definition format_domains :: format where "format_domains = 1"
definition format_ipv4 :: format where "format_ipv4 = 2"
definition format_mixed :: format where "format_mixed = 3"

definition format_string :: "format \<Rightarrow> string" where
  "format_string f =
     (if f = format_domains then ''domains'' else if f = format_ipv4 then ''ipv4''
      else if f = format_mixed then ''mixed'' else ''unknown'')"

record list_source =
  src_id :: string
  src_url :: string
  src_format :: format
  bare_domain_mode :: domain_mode
  is_preset :: bool

record parse_limits =
  max_lines :: int
  max_line_bytes :: int
  max_rules :: int
  rejection_budget :: rat
  max_rejected_rows :: int

record parse_report =
  total_lines :: int
  accepted :: int
  duplicates :: int
  rejected :: int

text \<open>The budget is a \<open>float64\<close>; its default is the double nearest to 0.005.\<close>

definition default_budget :: rat where
  "default_budget = 5764607523034235 / 2 ^ 60"

definition default_parse_limits :: parse_limits where
  "default_parse_limits =
     \<lparr>max_lines = 3000000, max_line_bytes = 4096, max_rules = 3000000,
      rejection_budget = default_budget, max_rejected_rows = 10000\<rparr>"

definition normalize_parse_limits :: "parse_limits \<Rightarrow> parse_limits" where
  "normalize_parse_limits l =
     \<lparr>max_lines = (if max_lines l \<le> 0 then 3000000 else max_lines l),
      max_line_bytes = (if max_line_bytes l \<le> 0 then 4096 else max_line_bytes l),
      max_rules = (if max_rules l \<le> 0 then 3000000 else max_rules l),
      rejection_budget = (if rejection_budget l \<le> 0 then default_budget else rejection_budget l),
      max_rejected_rows = (if max_rejected_rows l \<le> 0 then 10000 else max_rejected_rows l)\<rparr>"

datatype parse_error =
    Context_Done
  | Line_Limit int
  | Invalid_Row int format rule_error
  | Rejected_Rows int int rule_error
  | Unsupported_Format format
  | Line_Too_Long
  | Read_Failed
  | No_Valid_Rules
  | Rejection_Ratio int int
  | Too_Many_Rules int

section \<open>Rows\<close>

text \<open>What the loop of \<open>Parse\<close> carries along: the two tables and the report.\<close>

record row_state =
  row_domains :: "(string, domain_flags) fmap"
  row_cidrs :: "prefix list"
  row_report :: parse_report

definition is_ignored_line :: "string \<Rightarrow> bool" where
  "is_ignored_line line \<longleftrightarrow>
     line = [] \<or> starts_with ''#'' line \<or> starts_with ''!'' line \<or> starts_with '';'' line \<or> starts_with ''//'' line"

definition count_accepted :: "row_state \<Rightarrow> row_state" where
  "count_accepted st = st\<lparr>row_report := (row_report st)\<lparr>accepted := accepted (row_report st) + 1\<rparr>\<rparr>"

definition append_cidr :: "prefix \<Rightarrow> row_state \<Rightarrow> row_state" where
  "append_cidr p st = count_accepted (st\<lparr>row_cidrs := row_cidrs st @ [p]\<rparr>)"

definition record_domain_rule :: "string \<Rightarrow> domain_flags \<Rightarrow> row_state \<Rightarrow> row_state" where
  "record_domain_rule base flags st =
     (case fmlookup (row_domains st) base of
        Some existing \<Rightarrow>
          if existing AND flags = flags
          then st\<lparr>row_report := (row_report st)\<lparr>duplicates := duplicates (row_report st) + 1\<rparr>\<rparr>
          else count_accepted (st\<lparr>row_domains := fmupd base (existing OR flags) (row_domains st)\<rparr>)
      | None \<Rightarrow> count_accepted (st\<lparr>row_domains := fmupd base flags (row_domains st)\<rparr>))"

definition check_rejection_budget ::
    "rule_error \<Rightarrow> list_source \<Rightarrow> parse_limits \<Rightarrow> row_state \<Rightarrow> row_state \<times> parse_error option" where
  "check_rejection_budget err src lim st =
     (let rep = (row_report st)\<lparr>rejected := rejected (row_report st) + 1\<rparr>; st' = st\<lparr>row_report := rep\<rparr>
      in if \<not> is_preset src then (st', Some (Invalid_Row (total_lines rep) (src_format src) err))
         else if 0 < max_rejected_rows lim \<and> max_rejected_rows lim < rejected rep
         then (st', Some (Rejected_Rows (total_lines rep) (rejected rep) err))
         else (st', None))"

definition parse_domains_row ::
    "(string \<Rightarrow> string option) \<Rightarrow> list_source \<Rightarrow> parse_limits \<Rightarrow> string \<Rightarrow> row_state \<Rightarrow> row_state \<times> parse_error option" where
  "parse_domains_row idn src lim line st =
     (case parse_domain_rule idn line (bare_domain_mode src) of
        Inr (IP_Rule ip) \<Rightarrow> (append_cidr (Prefix ip 32) st, None)
      | Inl err \<Rightarrow> check_rejection_budget err src lim st
      | Inr (Domain_Rule base flags) \<Rightarrow> (record_domain_rule base flags st, None))"

definition parse_ipv4_row ::
    "list_source \<Rightarrow> parse_limits \<Rightarrow> string \<Rightarrow> row_state \<Rightarrow> row_state \<times> parse_error option" where
  "parse_ipv4_row src lim line st =
     (case parse_ipv4_rule line of
        Inl err \<Rightarrow> check_rejection_budget err src lim st
      | Inr p \<Rightarrow> (append_cidr p st, None))"

definition parse_mixed_row ::
    "(string \<Rightarrow> string option) \<Rightarrow> list_source \<Rightarrow> parse_limits \<Rightarrow> string \<Rightarrow> row_state \<Rightarrow> row_state \<times> parse_error option" where
  "parse_mixed_row idn src lim line st =
     (case parse_ipv4_rule line of
        Inr p \<Rightarrow> (append_cidr p st, None)
      | Inl _ \<Rightarrow>
         (case parse_domain_rule idn line (bare_domain_mode src) of
            Inr (IP_Rule ip) \<Rightarrow> (append_cidr (Prefix ip 32) st, None)
          | Inl err \<Rightarrow> check_rejection_budget err src lim st
          | Inr (Domain_Rule base flags) \<Rightarrow> (record_domain_rule base flags st, None)))"

definition parse_row ::
    "(string \<Rightarrow> string option) \<Rightarrow> list_source \<Rightarrow> parse_limits \<Rightarrow> string \<Rightarrow> row_state \<Rightarrow> row_state \<times> parse_error option" where
  "parse_row idn src lim line st =
     (if src_format src = format_domains then parse_domains_row idn src lim line st
      else if src_format src = format_ipv4 then parse_ipv4_row src lim line st
      else if src_format src = format_mixed then parse_mixed_row idn src lim line st
      else (st, Some (Unsupported_Format (src_format src))))"

section \<open>Lines\<close>

text \<open>
  \<open>bufio.Scanner\<close> with \<open>ScanLines\<close> over a buffer of \<open>m\<close> bytes: the lines without their line end,
  up to the first one that does not fit in the buffer together with it, and whether there is one.
\<close>

definition newline :: char where
  "newline = CHR 0x0A"

definition drop_cr :: "string \<Rightarrow> string" where
  "drop_cr l = (if l \<noteq> [] \<and> last l = CHR 0x0D then butlast l else l)"

definition raw_lines :: "string \<Rightarrow> string list" where
  "raw_lines s = (let ps = split_on newline s in if last ps = [] then butlast ps else ps)"

definition scan_lines :: "int \<Rightarrow> string \<Rightarrow> string list \<times> bool" where
  "scan_lines m s =
     (let ok = takeWhile (\<lambda>l. int (length l) < m) (raw_lines s)
      in (map drop_cr ok, length ok < length (raw_lines s)))"

definition strip_bom :: "string \<Rightarrow> string" where
  "strip_bom s = (if take 3 s = [CHR 0xEF, CHR 0xBB, CHR 0xBF] then drop 3 s else s)"

section \<open>The loop\<close>

definition count_line :: "row_state \<Rightarrow> row_state" where
  "count_line st = st\<lparr>row_report := (row_report st)\<lparr>total_lines := total_lines (row_report st) + 1\<rparr>\<rparr>"

text \<open>\<open>done\<close> says whether the context has ended when line n is counted.\<close>

fun parse_loop ::
    "(string \<Rightarrow> string option) \<Rightarrow> (int \<Rightarrow> bool) \<Rightarrow> list_source \<Rightarrow> parse_limits \<Rightarrow> string list \<Rightarrow> row_state
       \<Rightarrow> row_state \<times> parse_error option" where
  "parse_loop idn over src lim [] st = (st, None)"
| "parse_loop idn over src lim (l # ls) st0 =
     (let st = count_line st0; n = total_lines (row_report st); line = trim_space l
      in if n mod 10000 = 0 \<and> over n then (st, Some Context_Done)
         else if max_lines lim < n then (st, Some (Line_Limit (max_lines lim)))
         else if is_ignored_line line then parse_loop idn over src lim ls st
         else case parse_row idn src lim line st of
                (st', Some e) \<Rightarrow> (st', Some e)
              | (st', None) \<Rightarrow> parse_loop idn over src lim ls st')"

text \<open>
  \<open>fdiv\<close> is the division of two counts as \<open>float64\<close> values.
\<close>

definition check_post_parse_limits ::
    "(int \<Rightarrow> int \<Rightarrow> rat) \<Rightarrow> list_source \<Rightarrow> parse_limits \<Rightarrow> row_state \<Rightarrow> parse_error option" where
  "check_post_parse_limits fdiv src lim st =
     (let rep = row_report st; doms = row_domains st; cs = row_cidrs st;
          rows = accepted rep + duplicates rep + rejected rep
      in if accepted rep = 0 \<or> (go_len doms = 0 \<and> length cs = 0) then Some No_Valid_Rules
         else if is_preset src \<and> 0 < rejection_budget lim \<and> 0 < rows \<and> rejection_budget lim < fdiv (rejected rep) rows
         then Some (Rejection_Ratio (rejected rep) rows)
         else if max_rules lim < int (go_len doms) + int (length cs)
         then Some (Too_Many_Rules (int (go_len doms) + int (length cs)))
         else None)"

definition start_state :: row_state where
  "start_state =
     \<lparr>row_domains = fmempty, row_cidrs = [],
      row_report = \<lparr>total_lines = 0, accepted = 0, duplicates = 0, rejected = 0\<rparr>\<rparr>"

text \<open>
  \<open>Parse\<close> on a reader that delivers the bytes \<open>input\<close> and then ends, or fails when
  \<open>read_fails\<close>: the report, with the rules or the error.
\<close>

definition parse ::
    "(string \<Rightarrow> string option) \<Rightarrow> (int \<Rightarrow> int \<Rightarrow> rat) \<Rightarrow> (int \<Rightarrow> bool) \<Rightarrow> string \<Rightarrow> bool \<Rightarrow> list_source \<Rightarrow> parse_limits
       \<Rightarrow> (parse_error + parsed_rules) \<times> parse_report" where
  "parse idn fdiv over input read_fails src limits =
     (let lim = normalize_parse_limits limits;
          (ls, too_long) = scan_lines (max_line_bytes lim) (strip_bom input);
          (st, err) = parse_loop idn over src lim ls start_state
      in (case err of
            Some e \<Rightarrow> Inl e
          | None \<Rightarrow>
              if too_long then Inl Line_Too_Long
              else if read_fails then Inl Read_Failed
              else case check_post_parse_limits fdiv src lim st of
                     Some e \<Rightarrow> Inl e
                   | None \<Rightarrow> Inr \<lparr>rule_domains = row_domains st, rule_cidrs = row_cidrs st\<rparr>,
          row_report st))"

section \<open>What a row says\<close>

text \<open>The verdict on a data row, read off the rule parsers alone.\<close>

datatype row_verdict = Row_Cidr prefix | Row_Domain string domain_flags | Row_Bad rule_error

definition domain_verdict :: "(string \<Rightarrow> string option) \<Rightarrow> list_source \<Rightarrow> string \<Rightarrow> row_verdict" where
  "domain_verdict idn src line =
     (case parse_domain_rule idn line (bare_domain_mode src) of
        Inl e \<Rightarrow> Row_Bad e
      | Inr (IP_Rule ip) \<Rightarrow> Row_Cidr (Prefix ip 32)
      | Inr (Domain_Rule b f) \<Rightarrow> Row_Domain b f)"

definition verdict :: "(string \<Rightarrow> string option) \<Rightarrow> list_source \<Rightarrow> string \<Rightarrow> row_verdict" where
  "verdict idn src line =
     (if src_format src = format_domains then domain_verdict idn src line
      else case parse_ipv4_rule line of
             Inr p \<Rightarrow> Row_Cidr p
           | Inl e \<Rightarrow> if src_format src = format_ipv4 then Row_Bad e else domain_verdict idn src line)"

definition take_verdict :: "list_source \<Rightarrow> parse_limits \<Rightarrow> row_verdict \<Rightarrow> row_state \<Rightarrow> row_state \<times> parse_error option" where
  "take_verdict src lim v st =
     (case v of
        Row_Cidr p \<Rightarrow> (append_cidr p st, None)
      | Row_Domain b f \<Rightarrow> (record_domain_rule b f st, None)
      | Row_Bad e \<Rightarrow> check_rejection_budget e src lim st)"

definition known_format :: "list_source \<Rightarrow> bool" where
  "known_format src \<longleftrightarrow> src_format src \<in> {format_domains, format_ipv4, format_mixed}"

lemma formats_differ [simp]:
  "format_domains \<noteq> format_ipv4" "format_domains \<noteq> format_mixed" "format_ipv4 \<noteq> format_mixed"
  "format_ipv4 \<noteq> format_domains" "format_mixed \<noteq> format_domains" "format_mixed \<noteq> format_ipv4"
  by (simp_all add: format_domains_def format_ipv4_def format_mixed_def)

lemma parse_row_verdict:
  "known_format src \<Longrightarrow> parse_row idn src lim line st = take_verdict src lim (verdict idn src line) st"
  by (auto simp: known_format_def parse_row_def take_verdict_def verdict_def domain_verdict_def parse_domains_row_def
      parse_ipv4_row_def parse_mixed_row_def split: sum.split domain_rule.split)

lemma parse_row_unknown:
  "\<not> known_format src \<Longrightarrow> parse_row idn src lim line st = (st, Some (Unsupported_Format (src_format src)))"
  by (auto simp: known_format_def parse_row_def)

end
