(* ===== verification/Rule_Parser_Spec.thy ===== *)
theory Rule_Parser_Spec
  imports Rule_Parser
begin

text \<open>
  What a parsed rule list contains: the loop of \<open>Parse\<close> is a fold of the verdicts on its data
  rows, from which follow the contents of the two tables, their well-formedness, the accounting
  of the report and the treatment of invalid rows.
\<close>

section \<open>The loop is a fold\<close>

definition row_step ::
    "(string \<Rightarrow> string option) \<Rightarrow> list_source \<Rightarrow> parse_limits \<Rightarrow> string \<Rightarrow> row_state \<Rightarrow> row_state" where
  "row_step idn src lim l st =
     (let line = trim_space l
      in if is_ignored_line line then count_line st
         else fst (take_verdict src lim (verdict idn src line) (count_line st)))"

text \<open>The data rows of a list of lines.\<close>

definition data_rows :: "string list \<Rightarrow> string list" where
  "data_rows ls = filter (\<lambda>l. \<not> is_ignored_line l) (map trim_space ls)"

lemma data_rows_simps [simp]:
  "data_rows [] = []"
  "data_rows (l # ls) = (if is_ignored_line (trim_space l) then data_rows ls else trim_space l # data_rows ls)"
  by (simp_all add: data_rows_def)

text \<open>One round of a loop that gets through.\<close>

lemma loop_Cons:
  assumes "parse_loop idn over src lim (l # ls) st = (st', None)"
  shows "total_lines (row_report st) + 1 \<le> max_lines lim"
    and "parse_loop idn over src lim ls (row_step idn src lim l st) = (st', None)"
    and "\<not> is_ignored_line (trim_space l) \<Longrightarrow>
           known_format src \<and> snd (take_verdict src lim (verdict idn src (trim_space l)) (count_line st)) = None"
proof -
  show "total_lines (row_report st) + 1 \<le> max_lines lim"
    using assms by (auto simp: Let_def count_line_def split: if_splits)
  have "parse_loop idn over src lim ls (row_step idn src lim l st) = (st', None) \<and>
     (\<not> is_ignored_line (trim_space l) \<longrightarrow>
        known_format src \<and> snd (take_verdict src lim (verdict idn src (trim_space l)) (count_line st)) = None)"
  proof (cases "is_ignored_line (trim_space l)")
    case True
    then show ?thesis using assms by (auto simp: Let_def row_step_def split: if_splits)
  next
    case False
    then obtain st1 where r: "parse_row idn src lim (trim_space l) (count_line st) = (st1, None)"
      and l: "parse_loop idn over src lim ls st1 = (st', None)"
      using assms by (auto simp: Let_def split: if_splits prod.splits option.splits)
    have k: "known_format src" using r parse_row_unknown [of src] by (cases "known_format src") auto
    then show ?thesis using r l by (simp add: row_step_def False parse_row_verdict)
  qed
  then show "parse_loop idn over src lim ls (row_step idn src lim l st) = (st', None)"
    and "\<not> is_ignored_line (trim_space l) \<Longrightarrow>
           known_format src \<and> snd (take_verdict src lim (verdict idn src (trim_space l)) (count_line st)) = None"
    by blast+
qed

lemma loop_fold:
  "parse_loop idn over src lim ls st = (st', None) \<Longrightarrow> st' = fold (row_step idn src lim) ls st"
  by (induction ls arbitrary: st) (simp, simp only: fold_Cons comp_apply, drule loop_Cons(2), blast)

text \<open>The loop stops at the first row that the rejection rules do not let pass.\<close>

lemma loop_rows_pass:
  "parse_loop idn over src lim ls st = (st', None) \<Longrightarrow> \<not> is_preset src \<Longrightarrow> l \<in> set (data_rows ls) \<Longrightarrow>
     verdict idn src l \<noteq> Row_Bad e"
proof (induction ls arbitrary: st)
  case (Cons x ls)
  show ?case
  proof (cases "l \<in> set (data_rows ls)")
    case True
    then show ?thesis using Cons.IH loop_Cons(2) [OF Cons.prems(1)] Cons.prems(2) by blast
  next
    case False
    then have x: "\<not> is_ignored_line (trim_space x)" "l = trim_space x"
      using Cons.prems(3) by (auto split: if_splits)
    show ?thesis
      using loop_Cons(3) [OF Cons.prems(1) x(1)] Cons.prems(2) x(2)
      by (auto simp: take_verdict_def check_rejection_budget_def Let_def)
  qed
qed simp

section \<open>One row\<close>

lemma report_simps [simp]:
  "row_report (count_line st) = (row_report st)\<lparr>total_lines := total_lines (row_report st) + 1\<rparr>"
  "row_domains (count_line st) = row_domains st" "row_cidrs (count_line st) = row_cidrs st"
  "row_report (count_accepted st) = (row_report st)\<lparr>accepted := accepted (row_report st) + 1\<rparr>"
  "row_domains (count_accepted st) = row_domains st" "row_cidrs (count_accepted st) = row_cidrs st"
  by (simp_all add: count_line_def count_accepted_def)

lemma append_cidr_simps [simp]:
  "row_domains (append_cidr p st) = row_domains st" "row_cidrs (append_cidr p st) = row_cidrs st @ [p]"
  "row_report (append_cidr p st) = (row_report st)\<lparr>accepted := accepted (row_report st) + 1\<rparr>"
  by (simp_all add: append_cidr_def)

lemma budget_simps [simp]:
  "row_domains (fst (check_rejection_budget e src lim st)) = row_domains st"
  "row_cidrs (fst (check_rejection_budget e src lim st)) = row_cidrs st"
  "row_report (fst (check_rejection_budget e src lim st)) = (row_report st)\<lparr>rejected := rejected (row_report st) + 1\<rparr>"
  by (simp_all add: check_rejection_budget_def Let_def)

lemma and_eq_or: "(x :: domain_flags) AND f = f \<Longrightarrow> x OR f = x"
proof -
  assume a: "x AND f = f"
  then have "bit f n \<Longrightarrow> bit x n" for n by (metis bit_and_iff)
  then show ?thesis by (intro bit_word_eqI) (auto simp: bit_simps)
qed

lemma record_domain_table:
  "row_cidrs (record_domain_rule b f st) = row_cidrs st"
  "fmlookup (row_domains (record_domain_rule b f st)) q =
     (if q = b then Some ((case fmlookup (row_domains st) b of Some x \<Rightarrow> x | None \<Rightarrow> 0) OR f)
      else fmlookup (row_domains st) q)"
  by (auto simp: record_domain_rule_def and_eq_or split: option.split)

lemma record_domain_hit:
  "table_hit (row_domains (record_domain_rule b f st)) orig q \<longleftrightarrow>
     table_hit (row_domains st) orig q \<or> (q = b \<and> flags_hit orig f)"
  by (auto simp: table_hit_def record_domain_table split: option.split)

text \<open>What a step adds to the tables.\<close>

definition says :: "(string \<Rightarrow> string option) \<Rightarrow> list_source \<Rightarrow> bool \<Rightarrow> string \<Rightarrow> string \<Rightarrow> bool" where
  "says idn src orig q l \<longleftrightarrow> (\<exists>f. verdict idn src l = Row_Domain q f \<and> flags_hit orig f)"

lemma take_verdict_tables:
  "table_hit (row_domains (fst (take_verdict src lim v st))) orig q \<longleftrightarrow>
     table_hit (row_domains st) orig q \<or> (\<exists>f. v = Row_Domain q f \<and> flags_hit orig f)"
  "row_cidrs (fst (take_verdict src lim v st)) = row_cidrs st @ (case v of Row_Cidr p \<Rightarrow> [p] | _ \<Rightarrow> [])"
  by (cases v; auto simp: take_verdict_def record_domain_hit record_domain_table)+

lemma step_domains:
  "table_hit (row_domains (row_step idn src lim l st)) orig q \<longleftrightarrow>
     table_hit (row_domains st) orig q \<or> (\<not> is_ignored_line (trim_space l) \<and> says idn src orig q (trim_space l))"
  by (simp add: row_step_def Let_def take_verdict_tables says_def)

lemma step_cidrs:
  "p \<in> set (row_cidrs (row_step idn src lim l st)) \<longleftrightarrow>
     p \<in> set (row_cidrs st) \<or> (\<not> is_ignored_line (trim_space l) \<and> verdict idn src (trim_space l) = Row_Cidr p)"
  by (auto simp: row_step_def Let_def take_verdict_tables split: row_verdict.split)

lemma fold_domains:
  "table_hit (row_domains (fold (row_step idn src lim) ls st)) orig q \<longleftrightarrow>
     table_hit (row_domains st) orig q \<or> (\<exists>l \<in> set (data_rows ls). says idn src orig q l)"
  by (induction ls arbitrary: st) (auto simp: step_domains)

lemma fold_cidrs:
  "p \<in> set (row_cidrs (fold (row_step idn src lim) ls st)) \<longleftrightarrow>
     p \<in> set (row_cidrs st) \<or> (\<exists>l \<in> set (data_rows ls). verdict idn src l = Row_Cidr p)"
  by (induction ls arbitrary: st) (auto simp: step_cidrs)

section \<open>The tables are well formed\<close>

definition known_flags :: "domain_flags \<Rightarrow> bool" where
  "known_flags f \<longleftrightarrow> f \<noteq> 0 \<and> f AND NOT (domain_exact OR domain_inclusive_suffix OR domain_descendants) = 0"

definition good_prefix :: "prefix \<Rightarrow> bool" where
  "good_prefix p \<longleftrightarrow> (is4 (paddr p) \<and> pbits p \<le> 32 \<and> masked p = p) \<or> p = Prefix NoAddr 0"

definition tables_ok :: "row_state \<Rightarrow> bool" where
  "tables_ok st \<longleftrightarrow>
     (\<forall>b f. fmlookup (row_domains st) b = Some f \<longrightarrow> canonical b \<and> known_flags f) \<and>
     (\<forall>p \<in> set (row_cidrs st). good_prefix p) \<and>
     int (go_len (row_domains st)) + int (length (row_cidrs st)) \<le> accepted (row_report st)"

lemma known_flags_or: "known_flags f \<Longrightarrow> known_flags g \<Longrightarrow> known_flags (f OR g)"
  by (auto simp: known_flags_def bit.conj_disj_distrib2 or_eq_0_iff)

lemma known_flags_consts [simp]:
  "known_flags domain_exact" "known_flags domain_inclusive_suffix" "known_flags domain_descendants"
  by code_simp+

lemma masked_32: "masked (Prefix (Addr4 a) 32) = Prefix (Addr4 a) 32"
  by (simp add: netmask_def)

lemma good_prefix_literal: "is4 a \<Longrightarrow> good_prefix (Prefix a 32)"
  by (cases a) (simp_all add: good_prefix_def netmask_def)

lemma good_prefix_masked: "is4 a \<Longrightarrow> good_prefix (masked_prefix_from a n)"
  unfolding good_prefix_def masked_prefix_from_def by (cases a) (simp_all add: addr_bits_def and.assoc)

lemma ipv4_rule_good: "parse_ipv4_rule l = Inr p \<Longrightarrow> good_prefix p"
  by (auto simp: parse_ipv4_rule_def Let_def good_prefix_literal good_prefix_masked
      split: if_splits option.splits)

lemma prefixed_rule_good:
  "prefixed_rule idn bad f b = Inr r \<Longrightarrow> \<exists>n. r = Domain_Rule n f \<and> canonical n"
  by (auto simp: prefixed_rule_def normalize_domain_canonical split: if_splits sum.splits)

lemma domain_rule_good:
  assumes "parse_domain_rule idn l m = Inr r"
  shows "(\<exists>a. r = IP_Rule a \<and> is4 a) \<or> (\<exists>n f. r = Domain_Rule n f \<and> canonical n \<and> known_flags f)"
  using assms unfolding parse_domain_rule_def Let_def
  by (auto split: if_splits option.splits sum.splits dest!: prefixed_rule_good simp: normalize_domain_canonical)

lemma domain_verdict_good:
  "domain_verdict idn src l = Row_Cidr p \<Longrightarrow> good_prefix p"
  "domain_verdict idn src l = Row_Domain b f \<Longrightarrow> canonical b \<and> known_flags f"
  using domain_rule_good [of idn l "bare_domain_mode src"]
  by (auto simp: domain_verdict_def good_prefix_literal split: sum.splits domain_rule.splits)

lemma verdict_good:
  "verdict idn src l = Row_Cidr p \<Longrightarrow> good_prefix p"
  "verdict idn src l = Row_Domain b f \<Longrightarrow> canonical b \<and> known_flags f"
  by (auto simp: verdict_def ipv4_rule_good dest: domain_verdict_good split: if_splits sum.splits)

lemma record_domain_ok:
  assumes "tables_ok st" "canonical b" "known_flags f"
  shows "tables_ok (record_domain_rule b f st)"
proof -
  have "known_flags ((case fmlookup (row_domains st) b of Some x \<Rightarrow> x | None \<Rightarrow> 0) OR f)"
    using assms by (auto simp: tables_ok_def known_flags_or split: option.split)
  then have "\<forall>c g. fmlookup (row_domains (record_domain_rule b f st)) c = Some g \<longrightarrow> canonical c \<and> known_flags g"
    using assms by (simp add: record_domain_table tables_ok_def)
  moreover have "int (go_len (row_domains (record_domain_rule b f st))) + int (length (row_cidrs st))
      \<le> accepted (row_report (record_domain_rule b f st))"
    using assms by (auto simp: record_domain_rule_def tables_ok_def split: option.split)
  ultimately show ?thesis using assms by (simp add: tables_ok_def record_domain_table)
qed

lemma count_line_ok [simp]: "tables_ok (count_line st) = tables_ok st"
  by (simp add: tables_ok_def)

lemma take_verdict_ok:
  assumes "tables_ok st" "\<And>p. v = Row_Cidr p \<Longrightarrow> good_prefix p"
    and "\<And>b f. v = Row_Domain b f \<Longrightarrow> canonical b \<and> known_flags f"
  shows "tables_ok (fst (take_verdict src lim v st))"
proof (cases v)
  case (Row_Domain b f)
  then show ?thesis using assms record_domain_ok by (simp add: take_verdict_def)
qed (use assms in \<open>auto simp: take_verdict_def tables_ok_def\<close>)

lemma fold_ok: "tables_ok st \<Longrightarrow> tables_ok (fold (row_step idn src lim) ls st)"
proof (induction ls arbitrary: st)
  case (Cons l ls)
  have "tables_ok (row_step idn src lim l st)"
    using Cons.prems verdict_good [of idn src] by (auto simp: row_step_def Let_def intro!: take_verdict_ok)
  then show ?case using Cons.IH by simp
qed simp

lemma start_simps [simp]:
  "row_domains start_state = fmempty" "row_cidrs start_state = []"
  "total_lines (row_report start_state) = 0" "rejected (row_report start_state) = 0"
  "accepted (row_report start_state) = 0" "duplicates (row_report start_state) = 0"
  by (simp_all add: start_state_def)

lemma start_ok: "tables_ok start_state"
  by (simp add: tables_ok_def start_state_def)

section \<open>Accounting\<close>

definition bad_rows :: "(string \<Rightarrow> string option) \<Rightarrow> list_source \<Rightarrow> string list \<Rightarrow> nat" where
  "bad_rows idn src rows = length (filter (\<lambda>l. case verdict idn src l of Row_Bad _ \<Rightarrow> True | _ \<Rightarrow> False) rows)"

definition counted_rows :: "parse_report \<Rightarrow> int" where
  "counted_rows r = accepted r + duplicates r + rejected r"

lemma record_domain_report:
  "counted_rows (row_report (record_domain_rule b f st)) = counted_rows (row_report st) + 1"
  "rejected (row_report (record_domain_rule b f st)) = rejected (row_report st)"
  "total_lines (row_report (record_domain_rule b f st)) = total_lines (row_report st)"
  by (auto simp: counted_rows_def record_domain_rule_def split: option.split)

lemma take_verdict_report:
  "counted_rows (row_report (fst (take_verdict src lim v st))) = counted_rows (row_report st) + 1"
  "rejected (row_report (fst (take_verdict src lim v st))) =
     rejected (row_report st) + (case v of Row_Bad _ \<Rightarrow> 1 | _ \<Rightarrow> 0)"
  "total_lines (row_report (fst (take_verdict src lim v st))) = total_lines (row_report st)"
  by (cases v; simp add: take_verdict_def record_domain_report; simp add: counted_rows_def)+

lemma step_report:
  "counted_rows (row_report (row_step idn src lim l st)) =
     counted_rows (row_report st) + int (length (data_rows [l]))"
  "rejected (row_report (row_step idn src lim l st)) = rejected (row_report st) + int (bad_rows idn src (data_rows [l]))"
  "total_lines (row_report (row_step idn src lim l st)) = total_lines (row_report st) + 1"
  by (auto simp: row_step_def Let_def take_verdict_report bad_rows_def split: row_verdict.split)
     (simp_all add: counted_rows_def)

lemma data_rows_Cons: "data_rows (l # ls) = data_rows [l] @ data_rows ls"
  by simp

lemma bad_rows_append: "bad_rows idn src (xs @ ys) = bad_rows idn src xs + bad_rows idn src ys"
  by (simp add: bad_rows_def)

lemma fold_report:
  "counted_rows (row_report (fold (row_step idn src lim) ls st)) =
     counted_rows (row_report st) + int (length (data_rows ls))"
  "rejected (row_report (fold (row_step idn src lim) ls st)) =
     rejected (row_report st) + int (bad_rows idn src (data_rows ls))"
  "total_lines (row_report (fold (row_step idn src lim) ls st)) = total_lines (row_report st) + int (length ls)"
proof (induction ls arbitrary: st)
  case Nil
  { case 1 show ?case by simp next case 2 show ?case by (simp add: bad_rows_def) next case 3 show ?case by simp }
next
  case (Cons l ls)
  { case 1 show ?case unfolding data_rows_Cons [of l ls] by (simp add: Cons.IH step_report del: data_rows_simps)
  next case 2 show ?case unfolding data_rows_Cons [of l ls] bad_rows_append
      by (simp add: Cons.IH step_report del: data_rows_simps)
  next case 3 show ?case by (simp add: Cons.IH step_report) }
qed

lemma step_mono:
  "accepted (row_report st) \<le> accepted (row_report (row_step idn src lim l st))
   \<and> duplicates (row_report st) \<le> duplicates (row_report (row_step idn src lim l st))"
  by (auto simp: row_step_def Let_def take_verdict_def record_domain_rule_def split: row_verdict.split option.split)

lemma fold_mono:
  "accepted (row_report st) \<le> accepted (row_report (fold (row_step idn src lim) ls st))
   \<and> duplicates (row_report st) \<le> duplicates (row_report (fold (row_step idn src lim) ls st))"
proof (induction ls arbitrary: st)
  case (Cons l ls)
  then show ?case using step_mono [of st idn src lim l] by (force intro: order_trans)
qed simp

text \<open>While the loop runs the rejected rows of a preset stay under their cap.\<close>

lemma row_cap:
  assumes "snd (take_verdict src lim v st) = None" "0 < max_rejected_rows lim"
    and "rejected (row_report st) \<le> max_rejected_rows lim"
  shows "rejected (row_report (fst (take_verdict src lim v st))) \<le> max_rejected_rows lim"
  using assms by (auto simp: take_verdict_def record_domain_report check_rejection_budget_def Let_def
      split: row_verdict.splits if_splits)

lemma loop_cap:
  "parse_loop idn over src lim ls st = (st', None) \<Longrightarrow> 0 < max_rejected_rows lim \<Longrightarrow>
     rejected (row_report st) \<le> max_rejected_rows lim \<Longrightarrow> rejected (row_report st') \<le> max_rejected_rows lim"
proof (induction ls arbitrary: st)
  case (Cons l ls)
  have "rejected (row_report (row_step idn src lim l st)) \<le> max_rejected_rows lim"
    using loop_Cons(3) [OF Cons.prems(1)] row_cap [of src lim _ "count_line st"] Cons.prems(2,3)
    by (auto simp: row_step_def Let_def)
  then show ?case by (rule Cons.IH [OF loop_Cons(2) [OF Cons.prems(1)] Cons.prems(2)])
qed simp

lemma loop_lines:
  "parse_loop idn over src lim ls st = (st', None) \<Longrightarrow> ls \<noteq> [] \<Longrightarrow>
     total_lines (row_report st) + int (length ls) \<le> max_lines lim"
proof (induction ls arbitrary: st)
  case (Cons l ls)
  show ?case
    using loop_Cons(1) [OF Cons.prems(1)] Cons.IH [OF loop_Cons(2) [OF Cons.prems(1)]]
    by (cases ls) (auto simp: step_report)
qed simp

section \<open>Success\<close>

text \<open>The lines and the data rows \<open>Parse\<close> sees of an input.\<close>

definition input_lines :: "string \<Rightarrow> parse_limits \<Rightarrow> string list" where
  "input_lines input limits =
     fst (scan_lines (max_line_bytes (normalize_parse_limits limits)) (strip_bom input))"

definition input_rows :: "string \<Rightarrow> parse_limits \<Rightarrow> string list" where
  "input_rows input limits = data_rows (input_lines input limits)"

lemma parse_success:
  assumes "parse idn fdiv over input rf src limits = (Inr rs, rep)"
  obtains st where
    "parse_loop idn over src (normalize_parse_limits limits) (input_lines input limits) start_state = (st, None)"
    and "rs = \<lparr>rule_domains = row_domains st, rule_cidrs = row_cidrs st\<rparr>" and "rep = row_report st"
    and "check_post_parse_limits fdiv src (normalize_parse_limits limits) st = None"
  using assms by (auto simp: parse_def Let_def input_lines_def split: prod.splits option.splits if_splits)

lemma parse_fold:
  assumes "parse idn fdiv over input rf src limits = (Inr rs, rep)"
  defines "st \<equiv> fold (row_step idn src (normalize_parse_limits limits)) (input_lines input limits) start_state"
  shows "rs = \<lparr>rule_domains = row_domains st, rule_cidrs = row_cidrs st\<rparr>" "rep = row_report st"
    "check_post_parse_limits fdiv src (normalize_parse_limits limits) st = None"
  using assms(1) unfolding st_def by (elim parse_success; auto dest: loop_fold)+

section \<open>Properties\<close>



lemma parsed_rules_match:
  assumes p: "parse idn fdiv over input read_fails src limits = (Inr rs, rep)"
    and c: "compile_snapshot now v g [\<lparr>source_id = src_id src, rules = rs\<rparr>] = Some s"
  shows "match_canonical_domain (Some s) name \<longleftrightarrow>
           name \<noteq> [] \<and> (\<exists>l \<in> set (input_rows input limits).
              says idn src True name l \<or> (\<exists>b. above b name \<and> says idn src False b l))"
    and "match_ipv4 (Some s) a \<longleftrightarrow>
           (\<exists>x. unmap a = Addr4 x \<and> (\<exists>l \<in> set (input_rows input limits).
              \<exists>q. verdict idn src l = Row_Cidr q \<and> prefix_contains q x))"
proof -
  note f = parse_fold [OF p]
  have hit: "table_hit (rule_domains rs) orig q \<longleftrightarrow> (\<exists>l \<in> set (input_rows input limits). says idn src orig q l)" for orig q
    using f(1) by (simp add: fold_domains input_rows_def) (simp add: table_hit_def)
  show "match_canonical_domain (Some s) name \<longleftrightarrow>
           name \<noteq> [] \<and> (\<exists>l \<in> set (input_rows input limits).
              says idn src True name l \<or> (\<exists>b. above b name \<and> says idn src False b l))"
    using compiled_domain_matches [OF c, of name] by (auto simp: rule_matches_def hit)
  have cs: "q \<in> set (rule_cidrs rs) \<longleftrightarrow> (\<exists>l \<in> set (input_rows input limits). verdict idn src l = Row_Cidr q)" for q
    using f(1) by (simp add: fold_cidrs input_rows_def)
  have "good_prefix q" if "q \<in> set (rule_cidrs rs)" for q using that cs verdict_good(1) by blast
  then have "valid_prefixes (rule_cidrs rs)" unfolding good_prefix_def valid_prefixes_def by force
  then show "match_ipv4 (Some s) a \<longleftrightarrow>
           (\<exists>x. unmap a = Addr4 x \<and> (\<exists>l \<in> set (input_rows input limits).
              \<exists>q. verdict idn src l = Row_Cidr q \<and> prefix_contains q x))"
  proof -
    have "match_ipv4 (Some s) a \<longleftrightarrow> (\<exists>x. unmap a = Addr4 x \<and> (\<exists>q \<in> set (rule_cidrs rs). prefix_contains q x))"
      using compiled_ipv4_matches [OF c, of a] \<open>valid_prefixes (rule_cidrs rs)\<close> by simp
    then show ?thesis unfolding Bex_def cs by blast
  qed
qed



text \<open>
  C22: The report of a parsed list is exact: it counts every line, its three row counters add up to
  the data rows, and the rejected ones are those whose rule does not parse. A custom list has
  none of these, so one bad row keeps the whole list out; a preset stays within the absolute cap
  and the fraction, and the lines within the line limit.
\<close>

theorem parse_report_exact:
  assumes "parse idn fdiv over input read_fails src limits = (Inr rs, rep)"
  shows "total_lines rep = int (length (input_lines input limits))
     \<and> total_lines rep \<le> max_lines (normalize_parse_limits limits)
     \<and> counted_rows rep = int (length (input_rows input limits))
     \<and> rejected rep = int (bad_rows idn src (input_rows input limits))
     \<and> (\<not> is_preset src \<longrightarrow> rejected rep = 0)
     \<and> (is_preset src \<longrightarrow> rejected rep \<le> max_rejected_rows (normalize_parse_limits limits)
          \<and> fdiv (rejected rep) (counted_rows rep) \<le> rejection_budget (normalize_parse_limits limits))"
proof -
  let ?lim = "normalize_parse_limits limits"
  obtain st where l: "parse_loop idn over src ?lim (input_lines input limits) start_state = (st, None)"
    and st: "rep = row_report st" and post: "check_post_parse_limits fdiv src ?lim st = None"
    using parse_success [OF assms] by metis
  have pos: "0 < max_lines ?lim" "0 < max_rejected_rows ?lim" "0 < rejection_budget ?lim"
    by (simp_all add: normalize_parse_limits_def default_budget_def)
  have exact: "total_lines rep = int (length (input_lines input limits))"
    "counted_rows rep = int (length (input_rows input limits))"
    "rejected rep = int (bad_rows idn src (input_rows input limits))"
    unfolding st loop_fold [OF l] fold_report input_rows_def by (simp_all add: counted_rows_def)
  have "0 \<le> accepted rep" "0 \<le> duplicates rep"
    unfolding st loop_fold [OF l] using fold_mono [of start_state] by simp_all
  moreover have "accepted rep \<noteq> 0"
    using post by (auto simp: st check_post_parse_limits_def Let_def split: if_splits)
  ultimately have rows: "0 < counted_rows rep" using exact(3) by (simp add: counted_rows_def)
  have lines: "total_lines rep \<le> max_lines ?lim"
    using loop_lines [OF l] exact(1) pos(1) by (cases "input_lines input limits = []") auto
  have cap: "rejected rep \<le> max_rejected_rows ?lim"
    using loop_cap [OF l pos(2)] pos(2) st by simp
  have "bad_rows idn src (input_rows input limits) = 0" if "\<not> is_preset src"
    using loop_rows_pass [OF l that]
    by (auto simp: bad_rows_def input_rows_def filter_empty_conv split: row_verdict.split)
  then have custom: "\<not> is_preset src \<longrightarrow> rejected rep = 0" using exact(3) by simp
  have "is_preset src \<longrightarrow> fdiv (rejected rep) (counted_rows rep) \<le> rejection_budget ?lim"
    using post rows pos(3)
    by (auto simp: st check_post_parse_limits_def Let_def counted_rows_def not_less split: if_splits)
  then show ?thesis using exact lines cap custom by blast
qed

text \<open>
  The rows the parser accepts without effect: \<open>ParseIPv4Rule\<close> takes the length of an IPv4-mapped
  IPv6 prefix for an IPv4 length. A length above 32 yields the zero prefix, with no error, and one
  of at most 32 a prefix of the plain address that the row does not denote.
\<close>

lemma mapped_addr:
  "parse_addr ''::ffff:10.1.0.0'' = Some (Addr6 0xffff0a010000 [])"
proof -
  have p: "parse_ipv4 ''10.1.0.0'' = Some 0x0a010000" by (simp add: parse_eval)
  have a: "ip6_fields (Suc k) [] (Some 0) ''ffff:10.1.0.0'' = ip6_fields k [0xffff] (Some 0) ''10.1.0.0''" for k
    by (simp add: is_hex_def hex_digit_def hex_value_def)
  have b: "ip6_fields (Suc k) [0xffff] (Some 0) ''10.1.0.0'' = Some ([0xffff, 0x0a01, 0], Some 0, [])" for k
    by (simp add: is_hex_def hex_digit_def hex_value_def p)
  have "ip6_fields 8 [] (Some 0) ''ffff:10.1.0.0'' = Some ([0xffff, 0x0a01, 0], Some 0, [])"
    using a [of 7] b [of 6] by simp
  moreover have "groups_word [0, 0, 0, 0, 0, 0xffff, 0x0a01, 0] = 0xffff0a010000" by code_simp
  ultimately show ?thesis by (simp add: parse_addr_def parse_ipv6_def ip6_groups_def numeral_eq_Suc)
qed

lemma mapped_prefix_lost:
  "parse_ipv4_rule ''::ffff:10.1.0.0/112'' = Inr (Prefix NoAddr 0)"
  "parse_ipv4_rule ''::ffff:10.1.0.0/8'' = Inr (Prefix (Addr4 0x0a000000) 8)"
proof -
  have t: "trim_space ''::ffff:10.1.0.0/112'' = ''::ffff:10.1.0.0/112''"
    "trim_space ''::ffff:10.1.0.0/8'' = ''::ffff:10.1.0.0/8''" by code_simp+
  have "parse_prefix ''::ffff:10.1.0.0/112'' = Some (Addr6 0xffff0a010000 [], 112)"
    "parse_prefix ''::ffff:10.1.0.0/8'' = Some (Addr6 0xffff0a010000 [], 8)"
    by (simp_all add: parse_prefix_def after_slash_def mapped_addr has_zone_def parse_bits_def addr_bits_def parse_eval)
  then show "parse_ipv4_rule ''::ffff:10.1.0.0/112'' = Inr (Prefix NoAddr 0)"
    "parse_ipv4_rule ''::ffff:10.1.0.0/8'' = Inr (Prefix (Addr4 0x0a000000) 8)"
    by (simp_all add: parse_ipv4_rule_def t masked_prefix_from_def addr_bits_def netmask_def mask_eq_exp_minus_1)
qed

section \<open>Witnesses\<close>

definition demo_list :: string where
  "demo_list = ''*.ru'' @ [newline] @ ''# comment'' @ [newline] @ ''10.0.0.0/8''"

definition demo_source :: list_source where
  "demo_source = \<lparr>src_id = ''demo'', src_url = [], src_format = format_mixed,
     bare_domain_mode = domain_mode_exact, is_preset = False\<rparr>"

lemma demo_lines: "input_lines demo_list default_parse_limits = [''*.ru'', ''# comment'', ''10.0.0.0/8'']"
  by code_simp

lemma demo_list_rows: "input_rows demo_list default_parse_limits = [''*.ru'', ''10.0.0.0/8'']"
  unfolding input_rows_def demo_lines by code_simp

lemma demo_verdicts:
  "verdict (\<lambda>_. None) demo_source ''*.ru'' = Row_Domain ''ru'' domain_descendants"
  "verdict (\<lambda>_. None) demo_source ''10.0.0.0/8'' = Row_Cidr (Prefix (Addr4 0x0a000000) 8)"
proof -
  have t: "trim_space ''*.ru'' = ''*.ru''" "trim_space ''10.0.0.0/8'' = ''10.0.0.0/8''" by code_simp+
  have n: "normalize_domain (\<lambda>_. None) ''ru'' = Inr ''ru''" by code_simp
  have "parse_ipv4_rule ''*.ru'' = Inl Invalid_Address"
    by (simp add: parse_ipv4_rule_def t parse_addr_def parse_eval)
  moreover have "parse_domain_rule (\<lambda>_. None) ''*.ru'' m = Inr (Domain_Rule ''ru'' domain_descendants)" for m
    by (simp add: parse_domain_rule_def t parse_addr_def parse_eval starts_with_def prefixed_rule_def n)
  ultimately show "verdict (\<lambda>_. None) demo_source ''*.ru'' = Row_Domain ''ru'' domain_descendants"
    by (simp add: verdict_def demo_source_def domain_verdict_def)
  have "parse_prefix ''10.0.0.0/8'' = Some (Addr4 0x0a000000, 8)"
    by (simp add: parse_prefix_def after_slash_def parse_addr_def has_zone_def parse_bits_def addr_bits_def parse_eval)
  then show "verdict (\<lambda>_. None) demo_source ''10.0.0.0/8'' = Row_Cidr (Prefix (Addr4 0x0a000000) 8)"
    by (simp add: verdict_def demo_source_def parse_ipv4_rule_def t masked_prefix_from_def addr_bits_def netmask_def
        mask_eq_exp_minus_1)
qed

definition demo_rules :: parsed_rules where
  "demo_rules = \<lparr>rule_domains = fmupd ''ru'' domain_descendants fmempty, rule_cidrs = [Prefix (Addr4 0x0a000000) 8]\<rparr>"

lemma demo_parses:
  "parse (\<lambda>_. None) (\<lambda>_ _. 0) (\<lambda>_. False) demo_list False demo_source default_parse_limits =
     (Inr demo_rules, \<lparr>total_lines = 3, accepted = 2, duplicates = 0, rejected = 0\<rparr>)"
proof -
  have l: "scan_lines 4096 (strip_bom demo_list) = ([''*.ru'', ''# comment'', ''10.0.0.0/8''], False)"
    by code_simp
  have n: "normalize_parse_limits default_parse_limits = default_parse_limits"
    by (simp add: normalize_parse_limits_def default_parse_limits_def default_budget_def)
  have m: "max_line_bytes default_parse_limits = 4096" by (simp add: default_parse_limits_def)
  have t: "trim_space ''*.ru'' = ''*.ru''" "trim_space ''10.0.0.0/8'' = ''10.0.0.0/8''"
    "trim_space ''# comment'' = ''# comment''" by code_simp+
  have k: "known_format demo_source" by (simp add: known_format_def demo_source_def)
  have "parse_loop (\<lambda>_. None) (\<lambda>_. False) demo_source default_parse_limits [''*.ru'', ''# comment'', ''10.0.0.0/8''] start_state
      = (\<lparr>row_domains = fmupd ''ru'' domain_descendants fmempty, row_cidrs = [Prefix (Addr4 0x0a000000) 8],
          row_report = \<lparr>total_lines = 3, accepted = 2, duplicates = 0, rejected = 0\<rparr>\<rparr>, None)"
    by (simp add: Let_def t is_ignored_line_def starts_with_def parse_row_verdict [OF k] demo_verdicts take_verdict_def
        record_domain_rule_def append_cidr_def count_accepted_def count_line_def start_state_def default_parse_limits_def)
  then have "parse_loop (\<lambda>_. None) (\<lambda>_. False) demo_source (normalize_parse_limits default_parse_limits)
      (fst (scan_lines (max_line_bytes (normalize_parse_limits default_parse_limits)) (strip_bom demo_list))) start_state
      = (\<lparr>row_domains = fmupd ''ru'' domain_descendants fmempty, row_cidrs = [Prefix (Addr4 0x0a000000) 8],
          row_report = \<lparr>total_lines = 3, accepted = 2, duplicates = 0, rejected = 0\<rparr>\<rparr>, None)"
    by (simp only: n m l fst_conv)
  moreover have "\<not> snd (scan_lines (max_line_bytes (normalize_parse_limits default_parse_limits)) (strip_bom demo_list))"
    by (simp add: n m l)
  ultimately show ?thesis
    by (simp only: parse_def Let_def case_prod_beta fst_conv snd_conv option.case if_False n)
       (simp add: check_post_parse_limits_def demo_rules_def demo_source_def default_parse_limits_def)
qed

lemma demo_snapshot: "\<exists>s. compile_snapshot 0 1 ''g'' [\<lparr>source_id = src_id demo_source, rules = demo_rules\<rparr>] = Some s"
  by (simp add: compile_snapshot_def Let_def)



theorem parse_report_exact_witness:
  "bad_rows (\<lambda>_. None) demo_source (input_rows demo_list default_parse_limits) = 0"
  using parse_report_exact [OF demo_parses] by simp

end
