(* ===== verification/Spec2Isabelle.thy ===== *)
theory Spec2Isabelle
  imports Route_Cache Snapshot Sticky Session Forwarder_Drops Ingress_Router Tunnel_Health_Runs Canary_Probe Rule_Parser_Spec
begin

text \<open>
  A verification library for the VPN control and data plane of amnezia-nexus.

  \<^bold>\<open>The program.\<close> A client connects through the engine, gets an address from the address manager
  (\<^verbatim>\<open>internal/vpn/ipam\<close>), a session from the session manager (\<^verbatim>\<open>internal/vpn/session\<close>) and a backend tunnel
  from the load balancer and the sticky session manager (\<^verbatim>\<open>internal/vpn/loadbalancer\<close>). The packet forwarder
  (\<^verbatim>\<open>internal/vpn/forwarder\<close>) then moves packets between the client's peer and its backend and accounts for
  every byte. Split-tunnel decisions come from the policy package (\<^verbatim>\<open>internal/policy\<close>): rule lists are compiled
  into a snapshot, and what DNS answers taught about addresses is kept per session in the route cache.

  \<^bold>\<open>The theories\<close>, in the order the program has the parts:
  \<^item> \<open>Nexus_Prelude\<close>: Go maps as finite maps (\<open>go_len\<close>, \<open>fmsum\<close>, the order of a \<open>range\<close> loop as an argument),
    instants and saturating durations, \<open>EqualFold\<close>, shared list lemmas.
  \<^item> \<open>Net_Addr\<close>: IPv4 addresses and prefixes as 32-bit words, their text forms.
  \<^item> \<open>Ipam\<close> (\<^verbatim>\<open>ipam.go\<close>): \<open>ipam\<close> is the Go struct; \<open>allocate\<close>, \<open>reserve\<close>, \<open>release\<close> and the queries with
    the wrapping cursor. Lemmas: the two maps stay inverse to each other, leases are unique and in the subnet,
    allocation succeeds exactly when there is room.
  \<^item> \<open>Ip_Index\<close> (\<^verbatim>\<open>ipv4.go\<close>, \<^verbatim>\<open>fetch_address.go\<close>): merging and binary search of ranges, equivalent to membership
    in one of the prefixes; the download address guard.
  \<^item> \<open>Domain_Name\<close>, \<open>Snapshot\<close> (\<^verbatim>\<open>domain.go\<close>, \<^verbatim>\<open>snapshot.go\<close>): normalisation, compilation and matching.
  \<^item> \<open>Route_Cache\<close> (\<^verbatim>\<open>route_cache.go\<close>): the cache with its atomically replaced views in a heap; capacity bounds,
    proxy over direct, generation changes, retirement.
  \<^item> \<open>Models\<close>, \<open>Balancers\<close> (\<^verbatim>\<open>models.go\<close>, \<^verbatim>\<open>balancer.go\<close>, \<^verbatim>\<open>round_robin.go\<close>, \<^verbatim>\<open>least_conn.go\<close>, \<^verbatim>\<open>weighted_rr.go\<close>): the
    three balancers behind one locale of what every balancer promises, and their fairness.
  \<^item> \<open>Sticky\<close> (\<^verbatim>\<open>sticky.go\<close>): affinities, expiry, and a failover in three phases.
  \<^item> \<open>Session\<close> (\<^verbatim>\<open>session.go\<close>): both indexes, replacement, timeouts, generation fences, database outcomes as arguments.
  \<^item> \<open>Traffic_Window\<close>, \<open>Device_Writes\<close>, \<open>Accounting\<close> (\<^verbatim>\<open>generation.go\<close>, \<^verbatim>\<open>traffic_telemetry.go\<close>, \<^verbatim>\<open>route_pressure.go\<close>,
    \<^verbatim>\<open>queue_dwell.go\<close>, \<^verbatim>\<open>queues.go\<close>, \<^verbatim>\<open>write_histogram.go\<close>, \<^verbatim>\<open>accounting.go\<close>): the instruments of the forwarder.
    Floating point is a record of operations with the rationals as instance.
  \<^item> \<open>Forwarder\<close> (\<^verbatim>\<open>forwarder.go\<close>, \<^verbatim>\<open>routes.go\<close>, \<^verbatim>\<open>return_path.go\<close>, \<^verbatim>\<open>pumps.go\<close>, \<^verbatim>\<open>client_write.go\<close>): routes, buckets and
    return paths in heaps, one definition per section of code under one lock.
  \<^item> \<open>Forwarder_Inv\<close>: the invariant of tables and queues and its preservation; \<open>Forwarder_Steps\<close>: the step relation
    \<open>fw_step\<close> with one constructor per locked section, and reachability; \<open>Forwarder_Spec\<close>: the memory budget, the
    refinement of the routing table to a partial map, isolation of sessions, order of delivery;
    \<open>Forwarder_Drops\<close>: exact loss accounting.
  \<^item> \<open>Ingress_Resolver\<close>, \<open>Ingress_Router\<close> (\<^verbatim>\<open>vpn/ingress\<close>): who owns a source address, and the router that admits a
    packet for its owner, registers the route and submits it to the forwarder.
  \<^item> \<open>Tunnel_Store\<close>, \<open>Tunnel_Pool\<close> (\<^verbatim>\<open>backend_tunnels.go\<close>, \<^verbatim>\<open>pool.go\<close>, \<^verbatim>\<open>pool_create.go\<close>): the rows of backend tunnels and
    the pool that caches them; \<open>Tunnel_Pool_Inv\<close>: the invariant that ties memory to the rows and what every operation
    does to it; \<open>Tunnel_Pool_Spec\<close>: the step relation of the pool and its properties.
  \<^item> \<open>Tunnel_Health\<close> (\<^verbatim>\<open>health*.go\<close> in \<^verbatim>\<open>vpn/tunnel\<close>): the health prober over the pool. The probes, canary, hooks and notifier are a
    record of functions that may change the world in any way while they run, so other goroutines are part of
    them. \<open>Tunnel_Health_Spec\<close>: what any run writes to the pool; \<open>Tunnel_Health_Runs\<close>: undisturbed runs to the failure threshold
    and back, and the history of canary observations.

  \<^bold>\<open>Conventions.\<close> Code under one mutex is one atomic definition; where an operation gives the lock up and takes
  it again, the other goroutines are an argument \<open>env\<close>, and the forwarder theorems let it be any number of
  steps of the transition system. Clocks, random identifiers, map iteration orders and database outcomes are arguments.
  Errors are datatypes in sums. Machine counters are 64-bit words.

  \<^bold>\<open>Bounds.\<close> No fuel is used: loops are structural or have a measure. The concrete limits are the constants of the
  code: 1500 bytes per queued packet, 8 GiB of queued packets, 2048 packets per queue by default, 1024 and 128 samples
  in the latency reservoirs.

  \<^bold>\<open>Not modelled.\<close> The web panel, the database, SSH and container management, the protocol engines and the DNS gateway
  are I/O over third-party packages. The text parsers of rule lists and the service that wires
  the components together are not modelled yet. Goroutine scheduling is modelled at the granularity of locked
  sections; memory that is read without a lock is read atomically.
\<close>

end
